(* ===== verification/Prelude.thy ===== *)
theory Prelude
  imports Main "HOL-Library.Word"
begin

text \<open>
  The vocabulary the component theories share: the ways a C++ function of the library can stop
  (\<open>fault\<close>), results that are either a fault or a value, the judgement \<open>outcome\<close> used to state
  what a fallible function may do, the arithmetic of \<open>size_t\<close>, the block copies behind
  \<open>std::copy\<close>, and reachability in a transition system with the rule that lifts an invariant of
  single steps to every reachable state.
\<close>

section \<open>Shared definitions\<close>

named_theorems outcome_simps \<open>rules that push \<open>outcome\<close> through the result combinators\<close>

text \<open>
  \<open>assert\<close> is active: the build files define \<open>NDEBUG\<close> for the Release configuration only.
  \<open>Fatal_abort\<close> is \<open>abort()\<close> from FATAL or SYSFATAL, \<open>Exit_failure\<close> is \<open>exit\<close> from
  \<open>errif\<close>, \<open>Length_error\<close> is \<open>std::length_error\<close> of a container, \<open>Runtime_error\<close> a thrown
  \<open>std::runtime_error\<close>, \<open>Out_of_range\<close> is \<open>std::out_of_range\<close> of a string or of a conversion,
  \<open>Invalid_argument\<close> is \<open>std::invalid_argument\<close> of a conversion, and the remaining ones name undefined behaviour at the point where the program would run into it.
\<close>

datatype fault =
    Assert_fail
  | Fatal_abort
  | Exit_failure
  | Length_error
  | Runtime_error
  | Out_of_range
  | Invalid_argument
  | Null_deref
  | Use_after_free
  | Out_of_bounds
  | Div_by_zero

type_synonym 'a result = "fault + 'a"

text \<open>The values of \<open>errno\<close> the code distinguishes; on Linux EWOULDBLOCK is EAGAIN.\<close>

datatype errno =
    EAGAIN | EINTR | EPIPE | ECONNRESET | ENOENT | EBADF | EEXIST
  | EINPROGRESS | ECONNREFUSED | ENETUNREACH | ECONNABORTED | EMFILE | EOTHER nat

type_synonym byte = "8 word"

definition bindE :: "'a result \<Rightarrow> ('a \<Rightarrow> 'b result) \<Rightarrow> 'b result" where
  "bindE r f = (case r of Inl e \<Rightarrow> Inl e | Inr x \<Rightarrow> f x)"

definition assertE :: "bool \<Rightarrow> unit result" where
  "assertE b = (if b then Inr () else Inl Assert_fail)"

definition mapE :: "('a \<Rightarrow> 'b) \<Rightarrow> 'a result \<Rightarrow> 'b result" where
  "mapE f r = bindE r (\<lambda>x. Inr (f x))"

text \<open>\<open>foldE\<close> is a \<open>for\<close> loop whose body may stop the program.\<close>

fun foldE :: "('a \<Rightarrow> 's \<Rightarrow> 's result) \<Rightarrow> 'a list \<Rightarrow> 's \<Rightarrow> 's result" where
  "foldE f [] s = Inr s"
| "foldE f (x # xs) s = bindE (f x s) (foldE f xs)"

text \<open>\<open>outcome E Q r\<close>: \<open>r\<close> is a value that satisfies \<open>Q\<close>, or one of the faults in \<open>E\<close>.\<close>

definition outcome :: "fault set \<Rightarrow> ('a \<Rightarrow> bool) \<Rightarrow> 'a result \<Rightarrow> bool" where
  "outcome E Q r \<longleftrightarrow> (case r of Inl e \<Rightarrow> e \<in> E | Inr x \<Rightarrow> Q x)"

text \<open>
  \<open>size_t\<close> has 64 bits and wraps around. A \<open>std::vector<char>\<close> holds at most \<open>PTRDIFF_MAX\<close>
  elements.
\<close>

definition size_add :: "nat \<Rightarrow> nat \<Rightarrow> nat" where
  "size_add a b = (a + b) mod 2 ^ 64"

definition size_sub :: "nat \<Rightarrow> nat \<Rightarrow> nat" where
  "size_sub a b = (a + (2 ^ 64 - b)) mod 2 ^ 64"

definition max_size :: nat where
  "max_size = 2 ^ 63 - 1"

text \<open>
  \<open>blit xs d ys\<close> overwrites \<open>xs\<close> from position \<open>d\<close> with \<open>ys\<close> (\<open>std::copy\<close> from another
  array); \<open>copy_fwd xs s d n\<close> is \<open>std::copy\<close> within one array, element by element in increasing
  order, as the standard specifies it.
\<close>

definition blit :: "'a list \<Rightarrow> nat \<Rightarrow> 'a list \<Rightarrow> 'a list" where
  "blit xs d ys = take d xs @ ys @ drop (d + length ys) xs"

fun copy_fwd :: "'a list \<Rightarrow> nat \<Rightarrow> nat \<Rightarrow> nat \<Rightarrow> 'a list" where
  "copy_fwd xs s d 0 = xs"
| "copy_fwd xs s d (Suc n) = copy_fwd (xs[d := xs ! s]) (Suc s) (Suc d) n"

text \<open>The part of an array between two positions.\<close>

definition slice :: "'a list \<Rightarrow> nat \<Rightarrow> nat \<Rightarrow> 'a list" where
  "slice xs a b = take (b - a) (drop a xs)"

text \<open>States reachable from an initial state by a step relation.\<close>

inductive reach :: "('s \<Rightarrow> bool) \<Rightarrow> ('s \<Rightarrow> 's \<Rightarrow> bool) \<Rightarrow> 's \<Rightarrow> bool"
  for init :: "'s \<Rightarrow> bool" and step :: "'s \<Rightarrow> 's \<Rightarrow> bool" where
  reach_init: "init s \<Longrightarrow> reach init step s"
| reach_step: "reach init step s \<Longrightarrow> step s t \<Longrightarrow> reach init step t"

section \<open>Results\<close>

lemma bindE_simps [simp]:
  "bindE (Inl e) f = Inl e" "bindE (Inr x) f = f x"
  by (simp_all add: bindE_def)

lemma assertE_simps [simp]:
  "assertE True = Inr ()" "assertE False = Inl Assert_fail"
  by (simp_all add: assertE_def)

lemma mapE_simps [simp]:
  "mapE f (Inl e) = Inl e" "mapE f (Inr x) = Inr (f x)"
  by (simp_all add: mapE_def)

lemma bindE_assoc: "bindE (bindE r f) g = bindE r (\<lambda>x. bindE (f x) g)"
  by (cases r) simp_all

lemma bindE_eq_Inr: "bindE r f = Inr y \<longleftrightarrow> (\<exists>x. r = Inr x \<and> f x = Inr y)"
  by (cases r) simp_all

lemma bindE_eq_Inl: "bindE r f = Inl e \<longleftrightarrow> r = Inl e \<or> (\<exists>x. r = Inr x \<and> f x = Inl e)"
  by (cases r) simp_all

lemma assertE_eq_Inr: "assertE b = Inr u \<longleftrightarrow> b"
  by (cases b) simp_all

lemma mapE_eq_Inr: "mapE f r = Inr y \<longleftrightarrow> (\<exists>x. r = Inr x \<and> y = f x)"
  by (cases r) auto

lemmas result_iffs = bindE_eq_Inr bindE_eq_Inl assertE_eq_Inr mapE_eq_Inr

lemma foldE_append: "foldE f (xs @ ys) s = bindE (foldE f xs s) (foldE f ys)"
proof (induction xs arbitrary: s)
  case Nil
  show ?case by simp
next
  case (Cons x xs)
  have "foldE f (xs @ ys) = (\<lambda>t. bindE (foldE f xs t) (foldE f ys))"
    using Cons.IH by (rule ext)
  then show ?case by (simp add: bindE_assoc)
qed

lemma outcome_Inl [simp, outcome_simps]: "outcome E Q (Inl e) \<longleftrightarrow> e \<in> E"
  by (simp add: outcome_def)

lemma outcome_Inr [simp, outcome_simps]: "outcome E Q (Inr x) \<longleftrightarrow> Q x"
  by (simp add: outcome_def)

lemma outcome_bindE [outcome_simps]:
  "outcome E Q (bindE r f) \<longleftrightarrow> outcome E (\<lambda>x. outcome E Q (f x)) r"
  by (cases r) simp_all

lemma outcome_mapE [outcome_simps]: "outcome E Q (mapE f r) \<longleftrightarrow> outcome E (\<lambda>x. Q (f x)) r"
  by (cases r) simp_all

lemma outcome_if [outcome_simps]:
  "outcome E Q (if b then r else s) \<longleftrightarrow> (b \<longrightarrow> outcome E Q r) \<and> (\<not> b \<longrightarrow> outcome E Q s)"
  by simp

lemma outcome_assertE [outcome_simps]:
  "outcome E Q (assertE b) \<longleftrightarrow> (b \<longrightarrow> Q ()) \<and> (\<not> b \<longrightarrow> Assert_fail \<in> E)"
  by (cases b) simp_all

lemma outcome_mono: "outcome E Q r \<Longrightarrow> (\<And>x. Q x \<Longrightarrow> Q' x) \<Longrightarrow> E \<subseteq> E' \<Longrightarrow> outcome E' Q' r"
  by (cases r) auto

lemma outcome_weaken: "outcome E Q r \<Longrightarrow> (\<And>x. Q x \<Longrightarrow> Q' x) \<Longrightarrow> outcome E Q' r"
  using outcome_mono [of E Q r Q' E] by blast

lemma outcome_foldE:
  assumes "\<And>x s. x \<in> set xs \<Longrightarrow> I s \<Longrightarrow> outcome E I (f x s)" and "I s"
  shows "outcome E I (foldE f xs s)"
  using assms
proof (induction xs arbitrary: s)
  case Nil
  then show ?case by simp
next
  case (Cons x xs)
  have "outcome E I (f x s)" using Cons.prems by simp
  moreover have "outcome E I (foldE f xs t)" if "I t" for t
    using Cons.prems(1) that by (intro Cons.IH) simp_all
  ultimately show ?case by (simp add: outcome_bindE) (rule outcome_weaken)
qed

lemma outcome_empty_iff: "outcome {} Q r \<longleftrightarrow> (\<exists>x. r = Inr x \<and> Q x)"
  by (cases r) auto

section \<open>The arithmetic of \<open>size_t\<close>\<close>

lemma size_add_eq [simp]: "a + b < 2 ^ 64 \<Longrightarrow> size_add a b = a + b"
  by (simp add: size_add_def)

lemma size_sub_eq [simp]:
  assumes "b \<le> a" and "a < 2 ^ 64" shows "size_sub a b = a - b"
proof -
  have "a + (2 ^ 64 - b) = (a - b) + 2 ^ 64" using assms by linarith
  then have "size_sub a b = ((a - b) + 2 ^ 64) mod 2 ^ 64"
    by (simp only: size_sub_def)
  also have "\<dots> = (a - b) mod 2 ^ 64" by (rule mod_add_self2)
  also have "\<dots> = a - b" using assms by (intro mod_less) linarith
  finally show ?thesis .
qed

lemma max_size_less: "n \<le> max_size \<Longrightarrow> n < 2 ^ 64"
  by (simp add: max_size_def)

section \<open>Slices and block copies\<close>

lemma length_slice [simp]: "b \<le> length xs \<Longrightarrow> length (slice xs a b) = b - a"
  by (simp add: slice_def)

lemma slice_same [simp]: "slice xs a a = []"
  by (simp add: slice_def)

lemma slice_append_slice: "a \<le> b \<Longrightarrow> b \<le> c \<Longrightarrow> slice xs a b @ slice xs b c = slice xs a c"
proof -
  assume ab: "a \<le> b" and bc: "b \<le> c"
  have "drop b xs = drop (b - a) (drop a xs)" using ab by simp
  moreover have "c - a = (b - a) + (c - b)" using ab bc by simp
  ultimately show ?thesis by (simp only: slice_def take_add)
qed

lemma take_slice: "n \<le> b - a \<Longrightarrow> take n (slice xs a b) = slice xs a (a + n)"
  by (simp add: slice_def min_def)

lemma drop_slice: "drop n (slice xs a b) = slice xs (a + n) b"
  by (simp add: slice_def drop_take add.commute)

lemma slice_nth: "a + i < b \<Longrightarrow> b \<le> length xs \<Longrightarrow> slice xs a b ! i = xs ! (a + i)"
  by (simp add: slice_def)

lemma length_blit [simp]: "d + length ys \<le> length xs \<Longrightarrow> length (blit xs d ys) = length xs"
  by (simp add: blit_def)

lemma slice_blit_in [simp]:
  "d + length ys \<le> length xs \<Longrightarrow> slice (blit xs d ys) d (d + length ys) = ys"
  by (simp add: slice_def blit_def)

lemma slice_blit_before: "b \<le> d \<Longrightarrow> d \<le> length xs \<Longrightarrow> slice (blit xs d ys) a b = slice xs a b"
proof -
  assume "b \<le> d" and "d \<le> length xs"
  then have "take b (blit xs d ys) = take b xs" by (simp add: blit_def)
  then show ?thesis by (simp add: slice_def drop_take [symmetric])
qed

lemma slice_blit_after:
  "d + length ys \<le> a \<Longrightarrow> a \<le> length xs \<Longrightarrow> slice (blit xs d ys) a b = slice xs a b"
  by (simp add: slice_def blit_def)

lemma slice_append_left: "b \<le> length xs \<Longrightarrow> slice (xs @ ys) a b = slice xs a b"
  by (simp add: slice_def)

lemma blit_Cons:
  "d < length xs \<Longrightarrow> blit (xs[d := y]) (Suc d) ys = blit xs d (y # ys)"
  by (simp add: blit_def take_Suc_conv_app_nth upd_conv_take_nth_drop add.commute)

text \<open>
  Copying forwards within an array is safe when the destination lies below the source: the
  result is that of copying the source block out first.
\<close>

lemma copy_fwd_blit:
  "d \<le> s \<Longrightarrow> s + n \<le> length xs \<Longrightarrow> copy_fwd xs s d n = blit xs d (take n (drop s xs))"
proof (induction n arbitrary: xs s d)
  case 0
  then show ?case by (simp add: blit_def)
next
  case (Suc n)
  let ?ys = "xs[d := xs ! s]"
  have "copy_fwd ?ys (Suc s) (Suc d) n = blit ?ys (Suc d) (take n (drop (Suc s) ?ys))"
    using Suc.prems by (intro Suc.IH) simp_all
  also have "drop (Suc s) ?ys = drop (Suc s) xs"
    using Suc.prems by simp
  also have "blit ?ys (Suc d) (take n (drop (Suc s) xs)) = blit xs d (xs ! s # take n (drop (Suc s) xs))"
    using Suc.prems by (intro blit_Cons) simp
  also have "xs ! s # take n (drop (Suc s) xs) = take (Suc n) (drop s xs)"
    using Suc.prems by (simp add: Cons_nth_drop_Suc [symmetric])
  finally show ?case by simp
qed

section \<open>Invariants of transition systems\<close>

lemma reach_rtranclp: "reach init step s \<Longrightarrow> step\<^sup>*\<^sup>* s t \<Longrightarrow> reach init step t"
  by (rotate_tac, induction rule: rtranclp_induct) (auto intro: reach_step)

lemma reach_from: "init s \<Longrightarrow> step\<^sup>*\<^sup>* s t \<Longrightarrow> reach init step t"
  by (rule reach_rtranclp [OF reach_init])

text \<open>
  The contract of an inductive invariant. Every state machine of the development interprets it
  on its own initial states, steps and invariant.
\<close>

locale inductive_invariant =
  fixes init :: "'s \<Rightarrow> bool" and step :: "'s \<Rightarrow> 's \<Rightarrow> bool" and inv :: "'s \<Rightarrow> bool"
  assumes init_inv: "init s \<Longrightarrow> inv s"
    and step_inv: "inv s \<Longrightarrow> step s t \<Longrightarrow> inv t"
begin

lemma reachable_inv: "reach init step s \<Longrightarrow> inv s"
proof (induction rule: reach.induct)
  case (reach_init s)
  then show ?case by (rule init_inv)
next
  case (reach_step s t)
  from reach_step.IH reach_step.hyps(2) show ?case by (rule step_inv)
qed

lemma reachable_step: "reach init step s \<Longrightarrow> step s t \<Longrightarrow> inv t"
  by (rule step_inv [OF reachable_inv])

end

end
