(* ===== verification/Byte_Queue.thy ===== *)
theory Byte_Queue
  imports Prelude
begin

text \<open>
  The contract of a byte queue of bounded capacity, as the clients of \<open>Buffer\<close> use it: bytes
  are put at the back and taken from the front. A run of puts and takes is described by
  \<open>queue_run\<close>; the locale shows that a queue which keeps the contract delivers every byte once
  and in order. The theory of \<open>Buffer\<close> interprets the locale on the model of the class.
\<close>

section \<open>Runs of a queue\<close>

datatype queue_op = Put "byte list" | Take nat

fun queue_run ::
  "(byte list \<Rightarrow> 'q \<Rightarrow> 'q result) \<Rightarrow> (nat \<Rightarrow> 'q \<Rightarrow> (byte list \<times> 'q) result) \<Rightarrow>
   queue_op list \<Rightarrow> 'q \<Rightarrow> (byte list \<times> 'q) result" where
  "queue_run put tk [] q = Inr ([], q)"
| "queue_run put tk (Put d # ops) q = bindE (put d q) (queue_run put tk ops)"
| "queue_run put tk (Take n # ops) q =
     bindE (tk n q) (\<lambda>(out, q'). mapE (\<lambda>(out', q''). (out @ out', q'')) (queue_run put tk ops q'))"

fun put_bytes :: "queue_op list \<Rightarrow> byte list" where
  "put_bytes [] = []"
| "put_bytes (Put d # ops) = d @ put_bytes ops"
| "put_bytes (Take n # ops) = put_bytes ops"

text \<open>No take asks for more than the queue holds at that point.\<close>

fun legal_run :: "nat \<Rightarrow> queue_op list \<Rightarrow> bool" where
  "legal_run avail [] = True"
| "legal_run avail (Put d # ops) = legal_run (avail + length d) ops"
| "legal_run avail (Take n # ops) = (n \<le> avail \<and> legal_run (avail - n) ops)"

section \<open>The contract\<close>

locale bounded_queue =
  fixes invar :: "'q \<Rightarrow> bool"
    and bytes :: "'q \<Rightarrow> byte list"
    and used :: "'q \<Rightarrow> nat"
    and cap :: nat
    and put :: "byte list \<Rightarrow> 'q \<Rightarrow> 'q result"
    and tk :: "nat \<Rightarrow> 'q \<Rightarrow> (byte list \<times> 'q) result"
  assumes put_ok: "invar q \<Longrightarrow> used q + length d \<le> cap \<Longrightarrow>
      \<exists>q'. put d q = Inr q' \<and> invar q' \<and> bytes q' = bytes q @ d \<and> used q' \<le> used q + length d"
    and take_ok: "invar q \<Longrightarrow> n \<le> length (bytes q) \<Longrightarrow>
      \<exists>q'. tk n q = Inr (take n (bytes q), q') \<and> invar q' \<and> bytes q' = drop n (bytes q) \<and>
           used q' \<le> used q"
begin

lemma run_ok:
  "invar q \<Longrightarrow> legal_run (length (bytes q)) ops \<Longrightarrow> used q + length (put_bytes ops) \<le> cap \<Longrightarrow>
   \<exists>out q'. queue_run put tk ops q = Inr (out, q') \<and> invar q' \<and>
            out @ bytes q' = bytes q @ put_bytes ops"
proof (induction ops arbitrary: q)
  case Nil
  then show ?case by simp
next
  case (Cons x ops)
  show ?case
  proof (cases x)
    case (Put d)
    then obtain q1 where q1: "put d q = Inr q1" "invar q1" "bytes q1 = bytes q @ d"
        "used q1 \<le> used q + length d"
      using put_ok [of q d] Cons.prems by auto
    have "\<exists>out q'. queue_run put tk ops q1 = Inr (out, q') \<and> invar q' \<and>
                   out @ bytes q' = bytes q1 @ put_bytes ops"
      using q1 Cons.prems Put by (intro Cons.IH) auto
    then show ?thesis using q1 Put by auto
  next
    case (Take n)
    then obtain q1 where q1: "tk n q = Inr (take n (bytes q), q1)" "invar q1"
        "bytes q1 = drop n (bytes q)" "used q1 \<le> used q"
      using take_ok [of q n] Cons.prems by auto
    have "\<exists>out q'. queue_run put tk ops q1 = Inr (out, q') \<and> invar q' \<and>
                   out @ bytes q' = bytes q1 @ put_bytes ops"
      using q1 Cons.prems Take by (intro Cons.IH) auto
    then show ?thesis using q1 Take by auto
  qed
qed

end

end
