(* ===== verification/Byte_Order.thy ===== *)
theory Byte_Order
  imports Prelude
begin

text \<open>
  What \<open>Buffer.h\<close> uses of \<open><endian.h>\<close> and of the object representation of integers:
  \<open>htobe16/32/64\<close>, \<open>be16toh/32/64\<close>, and copying an integer object byte by byte. The byte order
  of the host is a parameter, so that the wire format can be shown not to depend on it. The
  definitions work at every width that is a multiple of eight; the code uses 8, 16, 32 and 64.
\<close>

unbundle bit_operations_syntax

section \<open>Integers as bytes\<close>

datatype endian = Little | Big

text \<open>The bytes of a word, least significant first, and back.\<close>

definition bytes_le :: "'a::len word \<Rightarrow> byte list" where
  "bytes_le w = map (\<lambda>i. ucast (drop_bit (8 * i) w)) [0..<LENGTH('a) div 8]"

primrec word_of_bytes_le :: "byte list \<Rightarrow> 'a::len word" where
  "word_of_bytes_le [] = 0"
| "word_of_bytes_le (b # bs) = ucast b OR push_bit 8 (word_of_bytes_le bs)"

text \<open>The object representation of an integer in memory, and reading it with \<open>memcpy\<close>.\<close>

definition obj_bytes :: "endian \<Rightarrow> 'a::len word \<Rightarrow> byte list" where
  "obj_bytes host w = (case host of Little \<Rightarrow> bytes_le w | Big \<Rightarrow> rev (bytes_le w))"

definition word_of_obj :: "endian \<Rightarrow> byte list \<Rightarrow> 'a::len word" where
  "word_of_obj host bs =
     (case host of Little \<Rightarrow> word_of_bytes_le bs | Big \<Rightarrow> word_of_bytes_le (rev bs))"

text \<open>\<open>htobeN\<close> and \<open>beNtoh\<close> swap the bytes on a little-endian host and are the identity on the other.\<close>

definition bswap :: "'a::len word \<Rightarrow> 'a word" where
  "bswap w = word_of_bytes_le (rev (bytes_le w))"

definition htobe :: "endian \<Rightarrow> 'a::len word \<Rightarrow> 'a word" where
  "htobe host w = (case host of Little \<Rightarrow> bswap w | Big \<Rightarrow> w)"

definition betoh :: "endian \<Rightarrow> 'a::len word \<Rightarrow> 'a word" where
  "betoh host w = (case host of Little \<Rightarrow> bswap w | Big \<Rightarrow> w)"

text \<open>Network byte order: most significant byte first.\<close>

definition be_bytes :: "'a::len word \<Rightarrow> byte list" where
  "be_bytes w = rev (bytes_le w)"

section \<open>Laws\<close>

lemma length_bytes_le [simp]: "length (bytes_le (w :: 'a::len word)) = LENGTH('a) div 8"
  by (simp add: bytes_le_def)

lemma length_be_bytes [simp]: "length (be_bytes (w :: 'a::len word)) = LENGTH('a) div 8"
  by (simp add: be_bytes_def)

lemma bit_bytes_le:
  "i < LENGTH('a) div 8 \<Longrightarrow> j < 8 \<Longrightarrow> bit (bytes_le (w :: 'a::len word) ! i) j \<longleftrightarrow> bit w (8 * i + j)"
  by (simp add: bytes_le_def bit_ucast_iff bit_drop_bit_eq)

lemma bit_word_of_bytes_le:
  "bit (word_of_bytes_le bs :: 'a::len word) n \<longleftrightarrow>
     n < LENGTH('a) \<and> n div 8 < length bs \<and> bit (bs ! (n div 8)) (n mod 8)"
proof (induction bs arbitrary: n)
  case Nil
  then show ?case by simp
next
  case (Cons b bs)
  show ?case
  proof (cases "n < 8")
    case True
    then show ?thesis by (auto simp: bit_or_iff bit_push_bit_iff bit_ucast_iff)
  next
    case False
    then have d: "n div 8 = Suc ((n - 8) div 8)" and m: "n mod 8 = (n - 8) mod 8"
      by (simp_all add: le_div_geq le_mod_geq)
    have "\<not> bit b n" using False by (auto dest: bit_imp_le_length)
    then show ?thesis using False Cons.IH [of "n - 8"]
      by (auto simp: bit_or_iff bit_push_bit_iff bit_ucast_iff d m)
  qed
qed

lemma word_of_bytes_le_inverse [simp]:
  assumes "8 dvd LENGTH('a)"
  shows "word_of_bytes_le (bytes_le (w :: 'a::len word)) = w"
proof (rule bit_word_eqI)
  fix n assume n: "n < LENGTH('a)"
  then have "n div 8 < LENGTH('a) div 8"
    using assms by (simp add: less_mult_imp_div_less)
  then show "bit (word_of_bytes_le (bytes_le w) :: 'a word) n \<longleftrightarrow> bit w n"
    using n by (simp add: bit_word_of_bytes_le bit_bytes_le)
qed

lemma bytes_le_word_of_bytes_le [simp]:
  assumes "8 dvd LENGTH('a)" and "length bs = LENGTH('a) div 8"
  shows "bytes_le (word_of_bytes_le bs :: 'a::len word) = bs"
proof (rule nth_equalityI)
  show "length (bytes_le (word_of_bytes_le bs :: 'a word)) = length bs"
    using assms by simp
  fix i assume "i < length (bytes_le (word_of_bytes_le bs :: 'a word))"
  then have i: "i < LENGTH('a) div 8" by simp
  show "bytes_le (word_of_bytes_le bs :: 'a word) ! i = bs ! i"
  proof (rule bit_word_eqI)
    fix j assume "j < LENGTH(8)"
    then have j: "j < 8" by simp
    moreover have "8 * i + j < LENGTH('a)" using i j by linarith
    ultimately show "bit (bytes_le (word_of_bytes_le bs :: 'a word) ! i) j \<longleftrightarrow> bit (bs ! i) j"
      using i assms(2) by (simp add: bit_bytes_le bit_word_of_bytes_le)
  qed
qed

text \<open>On either host, converting to big-endian and copying the object yields network order.\<close>

lemma obj_bytes_htobe:
  "8 dvd LENGTH('a) \<Longrightarrow> obj_bytes host (htobe host (w :: 'a::len word)) = be_bytes w"
  by (cases host) (simp_all add: obj_bytes_def htobe_def bswap_def be_bytes_def)

lemma betoh_word_of_obj:
  "8 dvd LENGTH('a) \<Longrightarrow> betoh host (word_of_obj host (be_bytes w)) = (w :: 'a::len word)"
  by (cases host) (simp_all add: word_of_obj_def betoh_def bswap_def be_bytes_def)

end
