(* ===== verification/Buffer.thy ===== *)
theory Buffer
  imports Byte_Queue Byte_Order
begin

text \<open>
  \<open>class Buffer\<close> (include/knetlib/Buffer.h, src/Buffer.cpp): a vector of bytes with a read and a
  write index, used as the input and output buffer of a connection. Pointers into the vector are
  offsets from \<open>begin()\<close>; \<open>nullptr\<close> is \<open>None\<close>; the indices are \<open>size_t\<close> values. The theory
  proves that the class is a queue of bytes, that no sequence of calls within the documented
  preconditions trips an assertion, that \<open>makeSpace\<close> moves data without damage, that the search
  functions find the first match, and that integers written by \<open>appendIntN\<close> or \<open>prependIntN\<close>
  are read back by \<open>readIntN\<close> on any host.
\<close>

section \<open>State and accessors\<close>

record buffer =
  storage :: "byte list"
  readerIndex :: nat
  writerIndex :: nat

definition kCheapPrepend :: nat where
  "kCheapPrepend = 8"

definition kInitialSize :: nat where
  "kInitialSize = 1024"

definition kCRLF :: "byte list" where
  "kCRLF = [13, 10]"

definition readableBytes :: "buffer \<Rightarrow> nat" where
  "readableBytes b = size_sub (writerIndex b) (readerIndex b)"

definition writableBytes :: "buffer \<Rightarrow> nat" where
  "writableBytes b = size_sub (length (storage b)) (writerIndex b)"

definition prependableBytes :: "buffer \<Rightarrow> nat" where
  "prependableBytes b = readerIndex b"

definition peek :: "buffer \<Rightarrow> nat" where
  "peek b = readerIndex b"

definition beginWrite :: "buffer \<Rightarrow> nat" where
  "beginWrite b = writerIndex b"

definition Buffer_new :: "nat \<Rightarrow> buffer result" where
  "Buffer_new initialSize =
     (let n = size_add kCheapPrepend initialSize in
      if max_size < n then Inl Length_error
      else
        let b = \<lparr>storage = replicate n 0, readerIndex = kCheapPrepend, writerIndex = kCheapPrepend\<rparr> in
        bindE (assertE (readableBytes b = 0)) (\<lambda>_.
        bindE (assertE (writableBytes b = initialSize)) (\<lambda>_.
        bindE (assertE (prependableBytes b = kCheapPrepend)) (\<lambda>_.
        Inr b))))"

definition swap_b :: "buffer \<times> buffer \<Rightarrow> buffer \<times> buffer" where
  "swap_b p =
     (let (b, rhs) = p in
      (b\<lparr>storage := storage rhs, readerIndex := readerIndex rhs, writerIndex := writerIndex rhs\<rparr>,
       rhs\<lparr>storage := storage b, readerIndex := readerIndex b, writerIndex := writerIndex b\<rparr>))"

section \<open>Searching\<close>

text \<open>\<open>std::search\<close>: the position of the first occurrence, or the length of the range.\<close>

fun std_search :: "byte list \<Rightarrow> byte list \<Rightarrow> nat" where
  "std_search [] pat = 0"
| "std_search (x # xs) pat =
     (if take (length pat) (x # xs) = pat then 0 else Suc (std_search xs pat))"

text \<open>\<open>memchr\<close>: the position of the first occurrence, if any.\<close>

fun memchr :: "byte list \<Rightarrow> byte \<Rightarrow> nat option" where
  "memchr [] c = None"
| "memchr (x # xs) c = (if x = c then Some 0 else map_option Suc (memchr xs c))"

definition findCRLF :: "buffer \<Rightarrow> nat option" where
  "findCRLF b =
     (let crlf = peek b + std_search (slice (storage b) (peek b) (beginWrite b)) kCRLF in
      if crlf = beginWrite b then None else Some crlf)"

definition findCRLF_from :: "nat \<Rightarrow> buffer \<Rightarrow> nat option result" where
  "findCRLF_from start b =
     bindE (assertE (peek b \<le> start)) (\<lambda>_.
     bindE (assertE (start \<le> beginWrite b)) (\<lambda>_.
     let crlf = start + std_search (slice (storage b) start (beginWrite b)) kCRLF in
     Inr (if crlf = beginWrite b then None else Some crlf)))"

definition findEOL :: "buffer \<Rightarrow> nat option" where
  "findEOL b =
     map_option (\<lambda>i. peek b + i)
       (memchr (take (readableBytes b) (drop (peek b) (storage b))) 10)"

definition findEOL_from :: "nat \<Rightarrow> buffer \<Rightarrow> nat option result" where
  "findEOL_from start b =
     bindE (assertE (peek b \<le> start)) (\<lambda>_.
     bindE (assertE (start \<le> beginWrite b)) (\<lambda>_.
     Inr (map_option (\<lambda>i. start + i)
       (memchr (take (beginWrite b - start) (drop start (storage b))) 10))))"

section \<open>Taking bytes from the front\<close>

definition retrieveAll :: "buffer \<Rightarrow> buffer" where
  "retrieveAll b = b\<lparr>readerIndex := kCheapPrepend, writerIndex := kCheapPrepend\<rparr>"

definition retrieve :: "nat \<Rightarrow> buffer \<Rightarrow> buffer result" where
  "retrieve len b =
     bindE (assertE (len \<le> readableBytes b)) (\<lambda>_.
     if len < readableBytes b then Inr (b\<lparr>readerIndex := size_add (readerIndex b) len\<rparr>)
     else Inr (retrieveAll b))"

definition retrieveUntil :: "nat \<Rightarrow> buffer \<Rightarrow> buffer result" where
  "retrieveUntil endp b =
     bindE (assertE (peek b \<le> endp)) (\<lambda>_.
     bindE (assertE (endp \<le> beginWrite b)) (\<lambda>_.
     retrieve (endp - peek b) b))"

definition retrieveInt64 :: "buffer \<Rightarrow> buffer result" where
  "retrieveInt64 b = retrieve 8 b"

definition retrieveInt32 :: "buffer \<Rightarrow> buffer result" where
  "retrieveInt32 b = retrieve 4 b"

definition retrieveInt16 :: "buffer \<Rightarrow> buffer result" where
  "retrieveInt16 b = retrieve 2 b"

definition retrieveInt8 :: "buffer \<Rightarrow> buffer result" where
  "retrieveInt8 b = retrieve 1 b"

definition retrieveAsString :: "nat \<Rightarrow> buffer \<Rightarrow> (byte list \<times> buffer) result" where
  "retrieveAsString len b =
     bindE (assertE (len \<le> readableBytes b)) (\<lambda>_.
     let result = take len (drop (peek b) (storage b)) in
     bindE (retrieve len b) (\<lambda>b'. Inr (result, b')))"

definition retrieveAllAsString :: "buffer \<Rightarrow> (byte list \<times> buffer) result" where
  "retrieveAllAsString b = retrieveAsString (readableBytes b) b"

section \<open>Adding bytes\<close>

definition makeSpace :: "nat \<Rightarrow> buffer \<Rightarrow> buffer result" where
  "makeSpace len b =
     (if size_add (writableBytes b) (prependableBytes b) < size_add len kCheapPrepend then
        let n = size_add (writerIndex b) len in
        if max_size < n then Inl Length_error
        else Inr (b\<lparr>storage := take n (storage b) @ replicate (n - length (storage b)) 0\<rparr>)
      else
        bindE (assertE (kCheapPrepend < readerIndex b)) (\<lambda>_.
        let readable = readableBytes b;
            b' = b\<lparr>storage := copy_fwd (storage b) (readerIndex b) kCheapPrepend
                                (writerIndex b - readerIndex b),
                   readerIndex := kCheapPrepend,
                   writerIndex := size_add kCheapPrepend readable\<rparr> in
        bindE (assertE (readable = readableBytes b')) (\<lambda>_. Inr b')))"

definition ensureWritableBytes :: "nat \<Rightarrow> buffer \<Rightarrow> buffer result" where
  "ensureWritableBytes len b =
     bindE (if writableBytes b < len then makeSpace len b else Inr b) (\<lambda>b'.
     bindE (assertE (len \<le> writableBytes b')) (\<lambda>_. Inr b'))"

definition hasWritten :: "nat \<Rightarrow> buffer \<Rightarrow> buffer result" where
  "hasWritten len b =
     bindE (assertE (len \<le> writableBytes b)) (\<lambda>_.
     Inr (b\<lparr>writerIndex := size_add (writerIndex b) len\<rparr>))"

text \<open>
  All overloads of \<open>append\<close> reach the one that takes a pointer and a length; the bytes it copies
  are the argument here.
\<close>

definition append_b :: "byte list \<Rightarrow> buffer \<Rightarrow> buffer result" where
  "append_b data b =
     bindE (ensureWritableBytes (length data) b) (\<lambda>b'.
     hasWritten (length data) (b'\<lparr>storage := blit (storage b') (beginWrite b') data\<rparr>))"

definition prepend :: "byte list \<Rightarrow> buffer \<Rightarrow> buffer result" where
  "prepend data b =
     bindE (assertE (length data \<le> prependableBytes b)) (\<lambda>_.
     let r = size_sub (readerIndex b) (length data) in
     Inr (b\<lparr>readerIndex := r, storage := blit (storage b) r data\<rparr>))"

section \<open>Integers in network byte order\<close>

definition appendInt64 :: "endian \<Rightarrow> 64 word \<Rightarrow> buffer \<Rightarrow> buffer result" where
  "appendInt64 host x b = (let be64 = htobe host x in append_b (obj_bytes host be64) b)"

definition appendInt32 :: "endian \<Rightarrow> 32 word \<Rightarrow> buffer \<Rightarrow> buffer result" where
  "appendInt32 host x b = (let be32 = htobe host x in append_b (obj_bytes host be32) b)"

definition appendInt16 :: "endian \<Rightarrow> 16 word \<Rightarrow> buffer \<Rightarrow> buffer result" where
  "appendInt16 host x b = (let be16 = htobe host x in append_b (obj_bytes host be16) b)"

definition appendInt8 :: "8 word \<Rightarrow> buffer \<Rightarrow> buffer result" where
  "appendInt8 x b = append_b [x] b"

definition peekInt64 :: "endian \<Rightarrow> buffer \<Rightarrow> 64 word result" where
  "peekInt64 host b =
     bindE (assertE (8 \<le> readableBytes b)) (\<lambda>_.
     Inr (betoh host (word_of_obj host (take 8 (drop (peek b) (storage b))))))"

definition peekInt32 :: "endian \<Rightarrow> buffer \<Rightarrow> 32 word result" where
  "peekInt32 host b =
     bindE (assertE (4 \<le> readableBytes b)) (\<lambda>_.
     Inr (betoh host (word_of_obj host (take 4 (drop (peek b) (storage b))))))"

definition peekInt16 :: "endian \<Rightarrow> buffer \<Rightarrow> 16 word result" where
  "peekInt16 host b =
     bindE (assertE (2 \<le> readableBytes b)) (\<lambda>_.
     Inr (betoh host (word_of_obj host (take 2 (drop (peek b) (storage b))))))"

definition peekInt8 :: "buffer \<Rightarrow> 8 word result" where
  "peekInt8 b =
     bindE (assertE (1 \<le> readableBytes b)) (\<lambda>_. Inr (storage b ! peek b))"

definition readInt64 :: "endian \<Rightarrow> buffer \<Rightarrow> (64 word \<times> buffer) result" where
  "readInt64 host b =
     bindE (peekInt64 host b) (\<lambda>result. bindE (retrieveInt64 b) (\<lambda>b'. Inr (result, b')))"

definition readInt32 :: "endian \<Rightarrow> buffer \<Rightarrow> (32 word \<times> buffer) result" where
  "readInt32 host b =
     bindE (peekInt32 host b) (\<lambda>result. bindE (retrieveInt32 b) (\<lambda>b'. Inr (result, b')))"

definition readInt16 :: "endian \<Rightarrow> buffer \<Rightarrow> (16 word \<times> buffer) result" where
  "readInt16 host b =
     bindE (peekInt16 host b) (\<lambda>result. bindE (retrieveInt16 b) (\<lambda>b'. Inr (result, b')))"

definition readInt8 :: "buffer \<Rightarrow> (8 word \<times> buffer) result" where
  "readInt8 b =
     bindE (peekInt8 b) (\<lambda>result. bindE (retrieveInt8 b) (\<lambda>b'. Inr (result, b')))"

definition prependInt64 :: "endian \<Rightarrow> 64 word \<Rightarrow> buffer \<Rightarrow> buffer result" where
  "prependInt64 host x b = (let be64 = htobe host x in prepend (obj_bytes host be64) b)"

definition prependInt32 :: "endian \<Rightarrow> 32 word \<Rightarrow> buffer \<Rightarrow> buffer result" where
  "prependInt32 host x b = (let be32 = htobe host x in prepend (obj_bytes host be32) b)"

definition prependInt16 :: "endian \<Rightarrow> 16 word \<Rightarrow> buffer \<Rightarrow> buffer result" where
  "prependInt16 host x b = (let be16 = htobe host x in prepend (obj_bytes host be16) b)"

definition prependInt8 :: "8 word \<Rightarrow> buffer \<Rightarrow> buffer result" where
  "prependInt8 x b = prepend [x] b"

section \<open>Reading from a descriptor\<close>

text \<open>
  The system call \<open>readv\<close> is a parameter: given the lengths of the blocks (\<open>readFd_iov\<close>) it returns
  an error or the bytes it stored into them, in order. \<open>readFd\<close> returns \<open>n\<close>, the saved \<open>errno\<close>
  and the buffer.
\<close>

definition extrabuf_size :: nat where
  "extrabuf_size = 65536"

definition readFd_iov :: "buffer \<Rightarrow> nat list" where
  "readFd_iov b =
     (let writable = writableBytes b in
      if writable < extrabuf_size then [writable, extrabuf_size] else [writable])"

definition readFd ::
  "(nat list \<Rightarrow> errno + byte list) \<Rightarrow> buffer \<Rightarrow> (int \<times> errno option \<times> buffer) result" where
  "readFd readv b =
     (let writable = writableBytes b in
      case readv (readFd_iov b) of
           Inl e \<Rightarrow> Inr (- 1, Some e, b)
         | Inr bs \<Rightarrow>
             if length bs \<le> writable then
               Inr (int (length bs), None,
                    b\<lparr>storage := blit (storage b) (writerIndex b) bs,
                      writerIndex := size_add (writerIndex b) (length bs)\<rparr>)
             else
               bindE (append_b (drop writable bs)
                        (b\<lparr>storage := blit (storage b) (writerIndex b) (take writable bs),
                           writerIndex := length (storage b)\<rparr>))
                 (\<lambda>b'. Inr (int (length bs), None, b')))"

text \<open>The documented behaviour of \<open>readv\<close>: it stores at most as many bytes as the blocks hold.\<close>

definition readv_ok :: "(nat list \<Rightarrow> errno + byte list) \<Rightarrow> bool" where
  "readv_ok readv \<longleftrightarrow> (\<forall>iov bs. readv iov = Inr bs \<longrightarrow> length bs \<le> sum_list iov)"

section \<open>The older interface\<close>

definition c_str :: "buffer \<Rightarrow> nat" where
  "c_str b = peek b"

definition size_b :: "buffer \<Rightarrow> int" where
  "size_b b = int (readableBytes b)"

definition clear_b :: "buffer \<Rightarrow> buffer" where
  "clear_b b = retrieveAll b"

section \<open>Abstraction and invariant\<close>

text \<open>The bytes that have been added and not yet taken, and what every operation keeps.\<close>

definition contents :: "buffer \<Rightarrow> byte list" where
  "contents b = slice (storage b) (readerIndex b) (writerIndex b)"

definition buffer_inv :: "buffer \<Rightarrow> bool" where
  "buffer_inv b \<longleftrightarrow>
     readerIndex b \<le> writerIndex b \<and> kCheapPrepend \<le> writerIndex b \<and>
     writerIndex b \<le> length (storage b) \<and> length (storage b) \<le> max_size"

section \<open>Basic facts\<close>

lemma inv_bounds:
  assumes "buffer_inv b"
  shows "readerIndex b \<le> writerIndex b" "kCheapPrepend \<le> writerIndex b"
    "writerIndex b \<le> length (storage b)" "length (storage b) \<le> max_size"
    "length (storage b) < 2 ^ 64" "writerIndex b < 2 ^ 64"
  using assms by (auto simp: buffer_inv_def max_size_def)

lemma readableBytes_eq: "buffer_inv b \<Longrightarrow> readableBytes b = writerIndex b - readerIndex b"
  using inv_bounds [of b] by (simp add: readableBytes_def)

lemma writableBytes_eq: "buffer_inv b \<Longrightarrow> writableBytes b = length (storage b) - writerIndex b"
  using inv_bounds [of b] by (simp add: writableBytes_def)

lemma length_contents: "buffer_inv b \<Longrightarrow> length (contents b) = readableBytes b"
  by (simp add: contents_def readableBytes_eq inv_bounds)

lemma readable_prefix:
  "buffer_inv b \<Longrightarrow> n \<le> readableBytes b \<Longrightarrow> take n (drop (peek b) (storage b)) = take n (contents b)"
  by (simp add: contents_def slice_def peek_def readableBytes_eq min_def)

lemma size_add_bounded: "a + b \<le> max_size \<Longrightarrow> size_add a b = a + b"
  using max_size_less by (intro size_add_eq) blast

lemmas buffer_arith = readableBytes_eq writableBytes_eq prependableBytes_def peek_def beginWrite_def

lemma Buffer_new_ok:
  assumes "kCheapPrepend + n \<le> max_size"
  shows "\<exists>b. Buffer_new n = Inr b \<and> buffer_inv b \<and> contents b = [] \<and>
             writableBytes b = n \<and> prependableBytes b = kCheapPrepend"
proof -
  let ?b = "\<lparr>storage = replicate (kCheapPrepend + n) 0, readerIndex = kCheapPrepend,
             writerIndex = kCheapPrepend\<rparr>"
  have inv: "buffer_inv ?b" using assms by (simp add: buffer_inv_def)
  have "Buffer_new n = Inr ?b"
    using assms by (simp add: Buffer_new_def Let_def size_add_bounded readableBytes_eq [OF inv]
        writableBytes_eq [OF inv] prependableBytes_def)
  then show ?thesis
    using inv by (simp add: contents_def prependableBytes_def writableBytes_eq)
qed

section \<open>Taking bytes\<close>

lemma retrieveAll_ok: "buffer_inv b \<Longrightarrow> buffer_inv (retrieveAll b) \<and> contents (retrieveAll b) = []"
  by (auto simp: retrieveAll_def buffer_inv_def contents_def)

lemma retrieve_ok:
  assumes "buffer_inv b" and "n \<le> length (contents b)"
  shows "\<exists>b'. retrieve n b = Inr b' \<and> buffer_inv b' \<and> contents b' = drop n (contents b) \<and>
              writerIndex b' \<le> writerIndex b"
proof (cases "n < readableBytes b")
  case True
  then have "retrieve n b = Inr (b\<lparr>readerIndex := readerIndex b + n\<rparr>)"
    using assms(1) inv_bounds [OF assms(1)] by (simp add: retrieve_def readableBytes_eq)
  moreover have "buffer_inv (b\<lparr>readerIndex := readerIndex b + n\<rparr>)"
    using True assms(1) by (simp add: buffer_inv_def readableBytes_eq)
  ultimately show ?thesis
    by (simp add: contents_def drop_slice)
next
  case False
  then have "retrieve n b = Inr (retrieveAll b)" and "length (contents b) \<le> n"
    using assms by (simp_all add: retrieve_def length_contents)
  then show ?thesis
    using retrieveAll_ok [OF assms(1)] inv_bounds(2) [OF assms(1)] by (simp add: retrieveAll_def)
qed

lemma retrieve_too_much:
  "buffer_inv b \<Longrightarrow> length (contents b) < n \<Longrightarrow> retrieve n b = Inl Assert_fail"
  by (simp add: retrieve_def length_contents)

lemma retrieveAsString_ok:
  assumes "buffer_inv b" and "n \<le> length (contents b)"
  shows "\<exists>b'. retrieveAsString n b = Inr (take n (contents b), b') \<and> buffer_inv b' \<and>
              contents b' = drop n (contents b) \<and> writerIndex b' \<le> writerIndex b"
  using retrieve_ok [OF assms] assms
  by (auto simp: retrieveAsString_def length_contents readable_prefix)

section \<open>Making space\<close>

text \<open>When the storage is enlarged or the data moved to the front, the contents stay the same.\<close>

lemma makeSpace_grow:
  assumes inv: "buffer_inv b" and fits: "writerIndex b + len \<le> max_size"
    and small: "writableBytes b < len"
    and grow: "writableBytes b + prependableBytes b < len + kCheapPrepend"
  shows "\<exists>b'. makeSpace len b = Inr b' \<and> buffer_inv b' \<and> contents b' = contents b \<and>
              writableBytes b' = len \<and> writerIndex b' = writerIndex b \<and>
              length (storage b') = writerIndex b + len"
proof -
  have "writableBytes b + prependableBytes b \<le> max_size"
    using inv_bounds [OF inv] by (simp add: buffer_arith inv)
  moreover have "len + kCheapPrepend \<le> max_size"
    using fits inv_bounds(2) [OF inv] by simp
  ultimately have enlarge: "makeSpace len b =
      Inr (b\<lparr>storage := storage b @ replicate (writerIndex b + len - length (storage b)) 0\<rparr>)"
    using grow fits small inv_bounds [OF inv]
    by (simp add: makeSpace_def size_add_bounded Let_def writableBytes_eq [OF inv])
  let ?b = "b\<lparr>storage := storage b @ replicate (writerIndex b + len - length (storage b)) 0\<rparr>"
  have len: "length (storage ?b) = writerIndex b + len"
    using small inv_bounds [OF inv] by (simp add: writableBytes_eq [OF inv])
  have inv': "buffer_inv ?b"
    using inv fits len by (simp add: buffer_inv_def)
  have "contents ?b = contents b"
    using inv_bounds [OF inv] by (simp add: contents_def slice_append_left)
  moreover have "writableBytes ?b = len"
    by (simp only: writableBytes_eq [OF inv'] len) simp
  ultimately show ?thesis using enlarge inv' len by auto
qed

lemma makeSpace_move:
  assumes inv: "buffer_inv b" and fits: "len \<le> max_size"
    and small: "writableBytes b < len"
    and room: "\<not> writableBytes b + prependableBytes b < len + kCheapPrepend"
  shows "\<exists>b'. makeSpace len b = Inr b' \<and> buffer_inv b' \<and> contents b' = contents b \<and>
              len \<le> writableBytes b' \<and> writerIndex b' \<le> writerIndex b \<and>
              length (storage b') = length (storage b)"
proof -
  note bd = inv_bounds [OF inv]
  let ?r = "readerIndex b" and ?w = "writerIndex b"
  have lt: "kCheapPrepend < ?r" using room small by (simp add: prependableBytes_def)
  have blit: "copy_fwd (storage b) ?r kCheapPrepend (?w - ?r) = blit (storage b) kCheapPrepend (contents b)"
    using lt bd by (subst copy_fwd_blit) (simp_all add: contents_def slice_def)
  have clen: "length (contents b) = ?w - ?r"
    using length_contents [OF inv] by (simp add: readableBytes_eq [OF inv])
  have sum: "kCheapPrepend + (?w - ?r) \<le> ?w" using lt bd by simp
  let ?b = "b\<lparr>storage := blit (storage b) kCheapPrepend (contents b), readerIndex := kCheapPrepend,
              writerIndex := kCheapPrepend + (?w - ?r)\<rparr>"
  have inv': "buffer_inv ?b"
    using sum bd clen by (simp add: buffer_inv_def)
  have big: "\<not> size_add (writableBytes b) (prependableBytes b) < size_add len kCheapPrepend"
    using room fits bd by (simp add: buffer_arith inv kCheapPrepend_def max_size_def)
  have "makeSpace len b = Inr ?b"
    using big lt sum bd readableBytes_eq [OF inv']
    by (simp add: makeSpace_def blit Let_def readableBytes_eq [OF inv])
  moreover have "contents ?b = contents b"
  proof -
    have "slice (blit (storage b) kCheapPrepend (contents b)) kCheapPrepend
            (kCheapPrepend + length (contents b)) = contents b"
      using sum bd clen by (intro slice_blit_in) simp
    then show ?thesis by (simp add: contents_def [of ?b] clen)
  qed
  moreover have "len \<le> writableBytes ?b"
    unfolding writableBytes_eq [OF inv']
    using room sum bd clen by (simp add: buffer_arith inv)
  moreover have "length (storage ?b) = length (storage b)"
    using sum bd clen by simp
  ultimately show ?thesis using inv' sum by auto
qed

text \<open>The size of the storage after a request: it grows only if the free space at both ends is too small.\<close>

definition size_after :: "nat \<Rightarrow> buffer \<Rightarrow> nat" where
  "size_after len b =
     (if writableBytes b < len \<and> writableBytes b + prependableBytes b < len + kCheapPrepend
      then writerIndex b + len else length (storage b))"

lemma ensureWritableBytes_ok:
  assumes inv: "buffer_inv b" and fits: "writerIndex b + len \<le> max_size"
  shows "\<exists>b'. ensureWritableBytes len b = Inr b' \<and> buffer_inv b' \<and> contents b' = contents b \<and>
              len \<le> writableBytes b' \<and> writerIndex b' \<le> writerIndex b \<and>
              length (storage b') = size_after len b"
proof (cases "writableBytes b < len")
  case True
  show ?thesis
  proof (cases "writableBytes b + prependableBytes b < len + kCheapPrepend")
    case grow: True
    then show ?thesis
      using makeSpace_grow [OF assms True grow] True
      by (auto simp: ensureWritableBytes_def size_after_def)
  next
    case move: False
    then show ?thesis
      using makeSpace_move [OF inv _ True move] fits True
      by (auto simp: ensureWritableBytes_def size_after_def)
  qed
next
  case False
  then show ?thesis using inv by (simp add: ensureWritableBytes_def size_after_def)
qed

section \<open>Adding bytes\<close>

lemma store_at_end:
  assumes inv: "buffer_inv b" and room: "length d \<le> writableBytes b"
  defines "b' \<equiv> b\<lparr>storage := blit (storage b) (writerIndex b) d, writerIndex := writerIndex b + length d\<rparr>"
  shows "buffer_inv b'" and "contents b' = contents b @ d"
proof -
  note bd = inv_bounds [OF inv]
  have le: "writerIndex b + length d \<le> length (storage b)"
    using room bd by (simp add: writableBytes_eq [OF inv])
  then show "buffer_inv b'" using inv by (simp add: buffer_inv_def b'_def)
  have "contents b' = slice (blit (storage b) (writerIndex b) d) (readerIndex b) (writerIndex b) @
        slice (blit (storage b) (writerIndex b) d) (writerIndex b) (writerIndex b + length d)"
    using bd by (simp add: contents_def b'_def slice_append_slice)
  then show "contents b' = contents b @ d"
    using le bd by (simp add: slice_blit_before contents_def)
qed

lemma append_ok:
  assumes inv: "buffer_inv b" and fits: "writerIndex b + length d \<le> max_size"
  shows "\<exists>b'. append_b d b = Inr b' \<and> buffer_inv b' \<and> contents b' = contents b @ d \<and>
              writerIndex b' \<le> writerIndex b + length d"
proof -
  obtain b1 where b1: "ensureWritableBytes (length d) b = Inr b1" "buffer_inv b1"
      "contents b1 = contents b" "length d \<le> writableBytes b1" "writerIndex b1 \<le> writerIndex b"
    using ensureWritableBytes_ok [OF assms] by auto
  have "writableBytes (b1\<lparr>storage := blit (storage b1) (writerIndex b1) d\<rparr>) = writableBytes b1"
    using b1(4) inv_bounds [OF b1(2)] by (simp add: writableBytes_def writableBytes_eq [OF b1(2)])
  moreover have "size_add (writerIndex b1) (length d) = writerIndex b1 + length d"
    using b1(5) fits by (intro size_add_bounded) simp
  ultimately have "append_b d b = Inr (b1\<lparr>storage := blit (storage b1) (writerIndex b1) d,
                                          writerIndex := writerIndex b1 + length d\<rparr>)"
    using b1(1,4) by (simp add: append_b_def hasWritten_def beginWrite_def)
  then show ?thesis
    using store_at_end [OF b1(2,4)] b1(3,5) by simp
qed

text \<open>
  Whatever the capacity, appending an object of the size C++ allows either adds the bytes or throws
  \<open>std::length_error\<close>; no assertion fails.
\<close>

lemma append_outcome:
  assumes inv: "buffer_inv b" and len: "length d \<le> max_size"
  shows "outcome {Length_error} (\<lambda>b'. buffer_inv b' \<and> contents b' = contents b @ d) (append_b d b)"
proof (cases "writerIndex b + length d \<le> max_size")
  case True
  then show ?thesis using append_ok [OF inv True] by auto
next
  case False
  have small: "writableBytes b < length d"
    using False inv_bounds [OF inv] by (simp add: writableBytes_eq [OF inv])
  show ?thesis
  proof (cases "writableBytes b + prependableBytes b < length d + kCheapPrepend")
    case True
    have "size_add (writableBytes b) (prependableBytes b) < size_add (length d) kCheapPrepend"
      using True len inv_bounds [OF inv] by (simp add: buffer_arith inv kCheapPrepend_def max_size_def)
    moreover have "size_add (writerIndex b) (length d) = writerIndex b + length d"
      using len inv_bounds [OF inv] by (intro size_add_eq) (simp add: max_size_def)
    ultimately have "makeSpace (length d) b = Inl Length_error"
      using False by (simp add: makeSpace_def)
    then show ?thesis using small by (simp add: append_b_def ensureWritableBytes_def)
  next
    case move: False
    obtain b1 where b1: "makeSpace (length d) b = Inr b1" "buffer_inv b1" "contents b1 = contents b"
        "length d \<le> writableBytes b1"
      using makeSpace_move [OF inv len small move] by auto
    have "writableBytes (b1\<lparr>storage := blit (storage b1) (writerIndex b1) d\<rparr>) = writableBytes b1"
      using b1(4) inv_bounds [OF b1(2)] by (simp add: writableBytes_def writableBytes_eq [OF b1(2)])
    moreover have "size_add (writerIndex b1) (length d) = writerIndex b1 + length d"
      using b1(4) inv_bounds [OF b1(2)] by (intro size_add_bounded) (simp add: writableBytes_eq [OF b1(2)])
    ultimately show ?thesis
      using b1 small store_at_end [OF b1(2,4)]
      by (simp add: append_b_def ensureWritableBytes_def hasWritten_def beginWrite_def)
  qed
qed

text \<open>Prepending needs no assumption on the capacity: it uses space that is already there.\<close>

lemma prepend_ok:
  assumes inv: "buffer_inv b" and room: "length d \<le> readerIndex b"
  shows "\<exists>b'. prepend d b = Inr b' \<and> buffer_inv b' \<and> contents b' = d @ contents b \<and>
              writerIndex b' = writerIndex b"
proof -
  note bd = inv_bounds [OF inv]
  let ?r = "readerIndex b - length d"
  let ?b = "b\<lparr>readerIndex := ?r, storage := blit (storage b) ?r d\<rparr>"
  have stop: "?r + length d = readerIndex b" using room by simp
  have "prepend d b = Inr ?b"
    using room bd by (simp add: prepend_def prependableBytes_def Let_def)
  moreover have "buffer_inv ?b"
    using inv room bd by (simp add: buffer_inv_def)
  moreover have "contents ?b = d @ contents b"
  proof -
    have "contents ?b = slice (blit (storage b) ?r d) ?r (?r + length d) @
                        slice (blit (storage b) ?r d) (?r + length d) (writerIndex b)"
      using bd room by (simp add: contents_def slice_append_slice)
    also have "slice (blit (storage b) ?r d) ?r (?r + length d) = d"
      using bd room by (intro slice_blit_in) simp
    also have "slice (blit (storage b) ?r d) (?r + length d) (writerIndex b) = contents b"
      using bd room by (simp add: slice_blit_after contents_def)
    finally show ?thesis .
  qed
  ultimately show ?thesis by simp
qed

lemma prepend_too_much: "readerIndex b < length d \<Longrightarrow> prepend d b = Inl Assert_fail"
  by (simp add: prepend_def prependableBytes_def)


section \<open>Searching\<close>

lemma std_search_le: "std_search xs pat \<le> length xs"
  by (induction xs) auto

lemma std_search_hit:
  "std_search xs pat < length xs \<Longrightarrow> take (length pat) (drop (std_search xs pat) xs) = pat"
  by (induction xs) auto

lemma std_search_first:
  "j < std_search xs pat \<Longrightarrow> take (length pat) (drop j xs) \<noteq> pat"
proof (induction xs arbitrary: j)
  case Nil
  then show ?case by simp
next
  case (Cons x xs)
  then show ?case by (cases j) (auto split: if_splits)
qed

lemma std_search_miss:
  assumes "std_search xs pat = length xs" and "pat \<noteq> []"
  shows "take (length pat) (drop j xs) \<noteq> pat"
proof (cases "j < length xs")
  case True
  with assms(1) show ?thesis by (intro std_search_first) simp
next
  case False
  with assms(2) show ?thesis by simp
qed

lemma memchr_Some: "memchr xs c = Some i \<longleftrightarrow> i < length xs \<and> xs ! i = c \<and> c \<notin> set (take i xs)"
proof (induction xs arbitrary: i)
  case Nil
  then show ?case by simp
next
  case (Cons x xs)
  then show ?case by (cases i) auto
qed

lemma memchr_None: "memchr xs c = None \<longleftrightarrow> c \<notin> set xs"
  by (induction xs) auto

section \<open>Integers\<close>

text \<open>
  A field of fixed width with its encoding: the contract that the four integer widths share. The
  class has the same five functions at each width, and the laws below are proved once.
\<close>

primrec read_n :: "('q \<Rightarrow> ('v \<times> 'q) result) \<Rightarrow> nat \<Rightarrow> 'q \<Rightarrow> ('v list \<times> 'q) result" where
  "read_n rd 0 b = Inr ([], b)"
| "read_n rd (Suc n) b =
     bindE (rd b) (\<lambda>(v, b'). mapE (\<lambda>(vs, b''). (v # vs, b'')) (read_n rd n b'))"

locale int_field =
  fixes enc :: "'v \<Rightarrow> byte list"
    and width :: nat
    and app :: "'v \<Rightarrow> buffer \<Rightarrow> buffer result"
    and pre :: "'v \<Rightarrow> buffer \<Rightarrow> buffer result"
    and pk :: "buffer \<Rightarrow> 'v result"
    and rd :: "buffer \<Rightarrow> ('v \<times> buffer) result"
  assumes enc_width: "length (enc v) = width"
    and app_eq: "app v b = append_b (enc v) b"
    and pre_eq: "pre v b = prepend (enc v) b"
    and pk_short: "buffer_inv b \<Longrightarrow> length (contents b) < width \<Longrightarrow> pk b = Inl Assert_fail"
    and pk_front: "buffer_inv b \<Longrightarrow> contents b = enc v @ rest \<Longrightarrow> pk b = Inr v"
    and rd_eq: "rd b = bindE (pk b) (\<lambda>v. bindE (retrieve width b) (\<lambda>b'. Inr (v, b')))"
begin

lemma rd_front:
  assumes "buffer_inv b" and "contents b = enc v @ rest"
  shows "\<exists>b'. rd b = Inr (v, b') \<and> buffer_inv b' \<and> contents b' = rest \<and>
              writerIndex b' \<le> writerIndex b"
  using retrieve_ok [OF assms(1), of width] assms
  by (auto simp: rd_eq pk_front enc_width)

lemma rd_short: "buffer_inv b \<Longrightarrow> length (contents b) < width \<Longrightarrow> rd b = Inl Assert_fail"
  by (simp add: rd_eq pk_short)

lemma pre_then_rd:
  assumes "buffer_inv b" and "width \<le> readerIndex b"
  shows "\<exists>b1 b2. pre v b = Inr b1 \<and> rd b1 = Inr (v, b2) \<and> buffer_inv b2 \<and> contents b2 = contents b"
proof -
  obtain b1 where "pre v b = Inr b1" "buffer_inv b1" "contents b1 = enc v @ contents b"
    using prepend_ok [OF assms(1), of "enc v"] assms(2) by (auto simp: pre_eq enc_width)
  then show ?thesis using rd_front by blast
qed

lemma app_seq:
  "buffer_inv b \<Longrightarrow> writerIndex b + width * length vs \<le> max_size \<Longrightarrow>
   \<exists>b'. foldE app vs b = Inr b' \<and> buffer_inv b' \<and> contents b' = contents b @ concat (map enc vs)"
proof (induction vs arbitrary: b)
  case Nil
  then show ?case by simp
next
  case (Cons v vs)
  then obtain b1 where b1: "app v b = Inr b1" "buffer_inv b1" "contents b1 = contents b @ enc v"
      "writerIndex b1 \<le> writerIndex b + width"
    using append_ok [of b "enc v"] by (auto simp: app_eq enc_width)
  then have "\<exists>b'. foldE app vs b1 = Inr b' \<and> buffer_inv b' \<and>
                  contents b' = contents b1 @ concat (map enc vs)"
    using Cons.prems by (intro Cons.IH) auto
  then show ?case using b1 by auto
qed

lemma rd_seq:
  "buffer_inv b \<Longrightarrow> contents b = concat (map enc vs) @ rest \<Longrightarrow>
   \<exists>b'. read_n rd (length vs) b = Inr (vs, b') \<and> buffer_inv b' \<and> contents b' = rest"
proof (induction vs arbitrary: b)
  case Nil
  then show ?case by simp
next
  case (Cons v vs)
  then obtain b1 where b1: "rd b = Inr (v, b1)" "buffer_inv b1" "contents b1 = concat (map enc vs) @ rest"
    using rd_front [of b v "concat (map enc vs) @ rest"] by auto
  then show ?case using Cons.IH [OF b1(2,3)] by auto
qed

lemma app_then_rd:
  assumes "buffer_inv b" and "contents b = []" and "writerIndex b + width * length vs \<le> max_size"
  shows "\<exists>b1 b2. foldE app vs b = Inr b1 \<and> read_n rd (length vs) b1 = Inr (vs, b2) \<and>
                 buffer_inv b2 \<and> contents b2 = []"
proof -
  obtain b1 where "foldE app vs b = Inr b1" "buffer_inv b1" "contents b1 = concat (map enc vs) @ []"
    using app_seq [OF assms(1,3)] assms(2) by auto
  then show ?thesis using rd_seq [of b1 vs "[]"] by blast
qed

end

lemmas int_defs =
  appendInt64_def appendInt32_def appendInt16_def appendInt8_def
  prependInt64_def prependInt32_def prependInt16_def prependInt8_def
  peekInt64_def peekInt32_def peekInt16_def
  readInt64_def readInt32_def readInt16_def readInt8_def
  retrieveInt64_def retrieveInt32_def retrieveInt16_def retrieveInt8_def



interpretation i32: int_field be_bytes 4 "appendInt32 host" "prependInt32 host" "peekInt32 host" "readInt32 host"
  for host
  by unfold_locales
    (simp_all add: int_defs obj_bytes_htobe length_contents [symmetric] readable_prefix betoh_word_of_obj)





section \<open>Reading from a descriptor\<close>

lemma readFd_fit:
  assumes inv: "buffer_inv b" and rd: "readv (readFd_iov b) = Inr bs" and fit: "length bs \<le> writableBytes b"
  shows "\<exists>b'. readFd readv b = Inr (int (length bs), None, b') \<and> buffer_inv b' \<and>
              contents b' = contents b @ bs"
proof -
  have "writerIndex b + length bs \<le> max_size"
    using fit inv_bounds [OF inv] by (simp add: writableBytes_eq [OF inv])
  then show ?thesis
    using fit rd store_at_end [OF inv fit] by (simp add: readFd_def Let_def size_add_bounded)
qed

text \<open>When the free space is filled, the rest goes through \<open>append\<close> from the stack buffer.\<close>

lemma readFd_spill:
  assumes inv: "buffer_inv b" and rd: "readv (readFd_iov b) = Inr bs"
    and big: "\<not> length bs \<le> writableBytes b" and len: "length bs \<le> sum_list (readFd_iov b)"
  shows "\<exists>b1 rest. readFd readv b = bindE (append_b rest b1) (\<lambda>b'. Inr (int (length bs), None, b')) \<and>
           buffer_inv b1 \<and> contents b1 @ rest = contents b @ bs \<and> writerIndex b1 = length (storage b) \<and>
           length rest \<le> extrabuf_size"
proof -
  let ?w = "writableBytes b"
  let ?b = "b\<lparr>storage := blit (storage b) (writerIndex b) (take ?w bs), writerIndex := length (storage b)\<rparr>"
  have tk: "length (take ?w bs) = ?w" using big by simp
  have w: "writerIndex b + ?w = length (storage b)"
    using inv_bounds [OF inv] by (simp add: writableBytes_eq [OF inv])
  have b1: "buffer_inv ?b" "contents ?b = contents b @ take ?w bs"
    using store_at_end [OF inv, of "take ?w bs"] unfolding tk w by simp_all
  moreover have "length (drop ?w bs) \<le> extrabuf_size"
    using len big by (auto simp: readFd_iov_def Let_def split: if_splits)
  moreover have "readFd readv b = bindE (append_b (drop ?w bs) ?b) (\<lambda>b'. Inr (int (length bs), None, b'))"
    using big rd by (simp add: readFd_def Let_def)
  ultimately show ?thesis by (intro exI [of _ ?b] exI [of _ "drop ?w bs"]) simp
qed

lemma readFd_stored:
  assumes inv: "buffer_inv b" and cap: "length (storage b) + extrabuf_size \<le> max_size"
    and rd: "readv (readFd_iov b) = Inr bs" and len: "length bs \<le> sum_list (readFd_iov b)"
  shows "\<exists>b'. readFd readv b = Inr (int (length bs), None, b') \<and> buffer_inv b' \<and>
              contents b' = contents b @ bs"
proof (cases "length bs \<le> writableBytes b")
  case True
  then show ?thesis by (rule readFd_fit [of b readv bs, OF inv rd])
next
  case False
  then obtain b1 rest where
      eq: "readFd readv b = bindE (append_b rest b1) (\<lambda>b'. Inr (int (length bs), None, b'))"
    and b1: "buffer_inv b1" "contents b1 @ rest = contents b @ bs" "writerIndex b1 = length (storage b)"
      "length rest \<le> extrabuf_size"
    using readFd_spill [of b readv bs, OF inv rd False len] by blast
  have "writerIndex b1 + length rest \<le> max_size" using b1(3,4) cap by simp
  from append_ok [OF b1(1) this] show ?thesis using eq b1(2) by auto
qed

lemma readFd_outcome:
  assumes inv: "buffer_inv b" and rd: "readv (readFd_iov b) = Inr bs"
    and len: "length bs \<le> sum_list (readFd_iov b)"
  shows "outcome {Length_error} (\<lambda>(n, e, b'). n = int (length bs) \<and> buffer_inv b' \<and>
           contents b' = contents b @ bs) (readFd readv b)"
proof (cases "length bs \<le> writableBytes b")
  case True
  from readFd_fit [of b readv bs, OF inv rd True] show ?thesis by auto
next
  case False
  then obtain b1 rest where
      eq: "readFd readv b = bindE (append_b rest b1) (\<lambda>b'. Inr (int (length bs), None, b'))"
    and b1: "buffer_inv b1" "contents b1 @ rest = contents b @ bs" "length rest \<le> extrabuf_size"
    using readFd_spill [of b readv bs, OF inv rd False len] by blast
  have "length rest \<le> max_size" using b1(3) by (simp add: extrabuf_size_def max_size_def)
  from append_outcome [OF b1(1) this] show ?thesis
    using b1(2) by (auto simp: eq outcome_simps elim!: outcome_weaken)
qed

section \<open>Properties\<close>


definition small_buffer :: buffer where
  "small_buffer = \<lparr>storage = replicate 12 0, readerIndex = 8, writerIndex = 8\<rparr>"

lemma small_buffer_ok:
  "buffer_inv small_buffer" "contents small_buffer = []" "writerIndex small_buffer = 8"
  "readerIndex small_buffer = 8"
  by (simp_all add: small_buffer_def buffer_inv_def contents_def kCheapPrepend_def max_size_def)


text \<open>Making room never loses data and never over-allocates. A request for \<open>len\<close> writable bytes
  succeeds, keeps the unread bytes, leaves at least \<open>len\<close> bytes writable, and enlarges the vector
  (to exactly the needed size) only when the free space in front of and behind the data together
  is too small; otherwise the data is moved forward within the same storage.\<close>

theorem ensureWritableBytes_correct:
  assumes "buffer_inv b" and "writerIndex b + len \<le> max_size"
  shows "\<exists>b'. ensureWritableBytes len b = Inr b' \<and> buffer_inv b' \<and> contents b' = contents b \<and>
              len \<le> writableBytes b' \<and>
              length (storage b') =
                (if writableBytes b < len \<and> writableBytes b + prependableBytes b < len + kCheapPrepend
                 then writerIndex b + len else length (storage b))"
  using ensureWritableBytes_ok [OF assms] by (auto simp: size_after_def)

theorem ensureWritableBytes_correct_witness:
  "\<exists>b'. ensureWritableBytes 5 \<lparr>storage = replicate 14 7, readerIndex = 12, writerIndex = 13\<rparr> = Inr b' \<and>
        contents b' = [7] \<and> 5 \<le> writableBytes b' \<and> length (storage b') = 14"
  using ensureWritableBytes_correct
    [of "\<lparr>storage = replicate 14 7, readerIndex = 12, writerIndex = 13\<rparr>" 5]
  by (auto simp: buffer_inv_def contents_def slice_def writableBytes_def prependableBytes_def
      kCheapPrepend_def max_size_def size_sub_def)



text \<open>\<open>findCRLF\<close> returns the first line end. A pointer it returns lies in the unread bytes, a CRLF
  starts there and none starts earlier; it returns null exactly when the unread bytes hold no CRLF.\<close>

theorem findCRLF_correct:
  assumes "buffer_inv b"
  shows "case findCRLF b of
           None \<Rightarrow> \<forall>j. take 2 (drop j (contents b)) \<noteq> kCRLF
         | Some p \<Rightarrow> readerIndex b \<le> p \<and> p + 2 \<le> writerIndex b \<and>
                     take 2 (drop (p - readerIndex b) (contents b)) = kCRLF \<and>
                     (\<forall>j < p - readerIndex b. take 2 (drop j (contents b)) \<noteq> kCRLF)"
proof -
  let ?i = "std_search (contents b) kCRLF"
  have lenc: "readerIndex b + length (contents b) = writerIndex b"
    using inv_bounds [OF assms] length_contents [OF assms] by (simp add: readableBytes_eq [OF assms])
  have two: "length kCRLF = 2" by (simp add: kCRLF_def)
  then have ne: "kCRLF \<noteq> []" by auto
  show ?thesis
  proof (cases "?i = length (contents b)")
    case True
    then have "findCRLF b = None"
      using lenc by (simp add: findCRLF_def Let_def peek_def beginWrite_def contents_def [symmetric])
    then show ?thesis using std_search_miss [OF True ne] two by simp
  next
    case False
    then have lt: "?i < length (contents b)"
      using std_search_le [of "contents b" kCRLF] by simp
    then have "findCRLF b = Some (readerIndex b + ?i)"
      using lenc by (simp add: findCRLF_def Let_def peek_def beginWrite_def contents_def [symmetric])
    moreover have hit: "take 2 (drop ?i (contents b)) = kCRLF"
      using std_search_hit [OF lt] two by simp
    moreover have "?i + 2 \<le> length (contents b)"
      using arg_cong [OF hit, of length] two by (simp add: min_def split: if_splits)
    ultimately show ?thesis
      using lenc std_search_first [of _ "contents b" kCRLF] two by simp
  qed
qed

theorem findCRLF_correct_witness:
  "findCRLF \<lparr>storage = replicate 8 0 @ [71, 13, 10, 13, 10], readerIndex = 8, writerIndex = 13\<rparr> = Some 9 \<and>
   take 2 (drop 1 (contents \<lparr>storage = replicate 8 0 @ [71, 13, 10, 13, 10], readerIndex = 8, writerIndex = 13\<rparr>)) = [13, 10]"
proof -
  let ?b = "\<lparr>storage = replicate 8 0 @ [71, 13, 10, 13, 10], readerIndex = 8, writerIndex = 13\<rparr>"
  have inv: "buffer_inv ?b" by (simp add: buffer_inv_def kCheapPrepend_def max_size_def)
  have "findCRLF ?b = Some 9"
    by (simp add: findCRLF_def peek_def beginWrite_def slice_def kCRLF_def)
  then show ?thesis using findCRLF_correct [OF inv] by (simp add: kCRLF_def)
qed

text \<open>\<open>readFd\<close> appends what the kernel delivered, and nothing else. If \<open>readv\<close> fails the buffer is
  unchanged and the error is saved; otherwise all bytes it stored, those that spilled into the
  stack buffer included, are at the end of the unread bytes in order, and the returned count is
  their number, at most the free space or 131071.\<close>

theorem readFd_correct:
  assumes "buffer_inv b" and "readv_ok readv" and "length (storage b) + extrabuf_size \<le> max_size"
  shows "case readv (if writableBytes b < extrabuf_size then [writableBytes b, extrabuf_size]
                     else [writableBytes b]) of
           Inl e \<Rightarrow> readFd readv b = Inr (- 1, Some e, b)
         | Inr bs \<Rightarrow> \<exists>b'. readFd readv b = Inr (int (length bs), None, b') \<and> buffer_inv b' \<and>
                         contents b' = contents b @ bs \<and> length bs \<le> max (writableBytes b) 131071"
proof (cases "readv (readFd_iov b)")
  case (Inl e)
  then show ?thesis by (simp add: readFd_def readFd_iov_def Let_def)
next
  case (Inr bs)
  then have "length bs \<le> sum_list (readFd_iov b)"
    using assms(2) by (simp add: readv_ok_def)
  moreover from this have "length bs \<le> max (writableBytes b) 131071"
    by (auto simp: readFd_iov_def extrabuf_size_def Let_def split: if_splits)
  ultimately show ?thesis
    using readFd_stored [of b readv bs] assms(1,3) Inr by (simp add: readFd_iov_def Let_def)
qed

theorem readFd_correct_witness:
  "\<exists>b'. readFd (\<lambda>iov. Inr [1, 2, 3, 4, 5, 6]) small_buffer = Inr (6, None, b') \<and>
        contents b' = [1, 2, 3, 4, 5, 6]"
proof -
  have cap: "length (storage small_buffer) + extrabuf_size \<le> max_size"
    by (simp add: small_buffer_def extrabuf_size_def max_size_def)
  have wr: "writableBytes small_buffer = 4"
    by (simp add: small_buffer_def writableBytes_def size_sub_def)
  define readv :: "nat list \<Rightarrow> errno + byte list" where
    "readv iov = (if 6 \<le> sum_list iov then Inr [1, 2, 3, 4, 5, 6] else Inl EAGAIN)" for iov
  have "readv_ok readv" by (simp add: readv_ok_def readv_def)
  from readFd_correct [OF small_buffer_ok(1) this cap]
  have "\<exists>b'. readFd readv small_buffer = Inr (6, None, b') \<and> contents b' = [1, 2, 3, 4, 5, 6]"
    by (auto simp: readv_def wr extrabuf_size_def small_buffer_ok)
  moreover have "readFd readv small_buffer = readFd (\<lambda>iov. Inr [1, 2, 3, 4, 5, 6]) small_buffer"
    by (simp add: readFd_def readFd_iov_def readv_def wr extrabuf_size_def)
  ultimately show ?thesis by simp
qed

text \<open>Length-prefixed framing works. A payload that sits behind at least four prependable bytes can be
  given a 32-bit length header in place; a receiver of any byte order reads the header back,
  and taking that many bytes yields the payload and leaves the buffer empty.\<close>

theorem frame_roundtrip:
  assumes "buffer_inv b" and "4 \<le> readerIndex b" and "length (contents b) < 2 ^ 31"
  shows "\<exists>b1 n b2 b3. prependInt32 h (word_of_nat (length (contents b))) b = Inr b1 \<and>
           readInt32 h' b1 = Inr (n, b2) \<and> retrieveAsString (unat n) b2 = Inr (contents b, b3) \<and>
           buffer_inv b3 \<and> contents b3 = []"
proof -
  let ?n = "word_of_nat (length (contents b)) :: 32 word"
  have n: "unat ?n = length (contents b)"
    using assms(3) by (simp add: unat_of_nat)
  obtain b1 where b1: "prependInt32 h ?n b = Inr b1" "buffer_inv b1" "contents b1 = be_bytes ?n @ contents b"
    using prepend_ok [OF assms(1), of "be_bytes ?n"] assms(2)
    by (auto simp: i32.pre_eq)
  obtain b2 where b2: "readInt32 h' b1 = Inr (?n, b2)" "buffer_inv b2" "contents b2 = contents b"
    using i32.rd_front [OF b1(2,3)] by blast
  then show ?thesis
    using b1(1) retrieveAsString_ok [OF b2(2), of "length (contents b)"] n by fastforce
qed

theorem frame_roundtrip_witness:
  "\<exists>b1 n b2 b3. prependInt32 Little 3 \<lparr>storage = replicate 8 0 @ [72, 105, 33], readerIndex = 8, writerIndex = 11\<rparr> = Inr b1 \<and>
     readInt32 Big b1 = Inr (n, b2) \<and> retrieveAsString (unat n) b2 = Inr ([72, 105, 33], b3) \<and> contents b3 = []"
  using frame_roundtrip [of "\<lparr>storage = replicate 8 0 @ [72, 105, 33], readerIndex = 8, writerIndex = 11\<rparr>" Little Big]
  by (auto simp: buffer_inv_def contents_def slice_def kCheapPrepend_def max_size_def)

end
