(* ===== verification/Buffer_Interface.thy ===== *)
theory Buffer_Interface
  imports Buffer
begin

text \<open>
  The whole mutating interface of \<open>class Buffer\<close> as calls that can be made in any order, and what
  keeps it well-formed: the indices and the capacity stay in range after every sequence of calls, and
  an assertion fails exactly if a call asks for more than the buffer has. The calls on integers are
  calls of \<open>append\<close>, \<open>prepend\<close> and \<open>retrieve\<close> (theory \<open>Buffer\<close>).
\<close>

datatype buffer_call =
    Append "byte list"
  | Prepend "byte list"
  | Retrieve nat
  | RetrieveUntil nat
  | RetrieveAll
  | RetrieveAsString nat
  | EnsureWritable nat
  | HasWritten nat
  | ReadFd "nat list \<Rightarrow> errno + byte list"

fun call_buffer :: "buffer_call \<Rightarrow> buffer \<Rightarrow> buffer result" where
  "call_buffer (Append d) b = append_b d b"
| "call_buffer (Prepend d) b = prepend d b"
| "call_buffer (Retrieve n) b = retrieve n b"
| "call_buffer (RetrieveUntil p) b = retrieveUntil p b"
| "call_buffer RetrieveAll b = Inr (retrieveAll b)"
| "call_buffer (RetrieveAsString n) b = mapE snd (retrieveAsString n b)"
| "call_buffer (EnsureWritable n) b = ensureWritableBytes n b"
| "call_buffer (HasWritten n) b = hasWritten n b"
| "call_buffer (ReadFd rd) b = mapE (\<lambda>(n, e, b'). b') (readFd rd b)"

text \<open>What C++ allows as an argument, and what the assertions of the class ask for.\<close>

fun call_ok :: "buffer_call \<Rightarrow> bool" where
  "call_ok (Append d) \<longleftrightarrow> length d \<le> max_size"
| "call_ok (Prepend d) \<longleftrightarrow> length d \<le> max_size"
| "call_ok (EnsureWritable n) \<longleftrightarrow> n \<le> max_size"
| "call_ok (ReadFd rd) \<longleftrightarrow> readv_ok rd"
| "call_ok _ \<longleftrightarrow> True"

fun legal :: "buffer_call \<Rightarrow> buffer \<Rightarrow> bool" where
  "legal (Prepend d) b \<longleftrightarrow> length d \<le> prependableBytes b"
| "legal (Retrieve n) b \<longleftrightarrow> n \<le> readableBytes b"
| "legal (RetrieveUntil p) b \<longleftrightarrow> peek b \<le> p \<and> p \<le> beginWrite b"
| "legal (RetrieveAsString n) b \<longleftrightarrow> n \<le> readableBytes b"
| "legal (HasWritten n) b \<longleftrightarrow> n \<le> writableBytes b"
| "legal _ b \<longleftrightarrow> True"

lemma ensureWritableBytes_outcome:
  assumes inv: "buffer_inv b" and len: "n \<le> max_size"
  shows "outcome {Length_error} buffer_inv (ensureWritableBytes n b)"
proof (cases "writerIndex b + n \<le> max_size")
  case True
  then show ?thesis using ensureWritableBytes_ok [OF inv True] by auto
next
  case False
  have small: "writableBytes b < n"
    using False inv_bounds [OF inv] by (simp add: writableBytes_eq [OF inv])
  show ?thesis
  proof (cases "writableBytes b + prependableBytes b < n + kCheapPrepend")
    case True
    have "size_add (writableBytes b) (prependableBytes b) < size_add n kCheapPrepend"
      using True len inv_bounds [OF inv] by (simp add: buffer_arith inv kCheapPrepend_def max_size_def)
    moreover have "size_add (writerIndex b) n = writerIndex b + n"
      using len inv_bounds [OF inv] by (intro size_add_eq) (simp add: max_size_def)
    ultimately have "makeSpace n b = Inl Length_error" using False by (simp add: makeSpace_def)
    then show ?thesis using small by (simp add: ensureWritableBytes_def)
  next
    case move: False
    then show ?thesis using makeSpace_move [OF inv len small move] small by (auto simp: ensureWritableBytes_def)
  qed
qed

lemma hasWritten_ok: "buffer_inv b \<Longrightarrow> n \<le> writableBytes b \<Longrightarrow> \<exists>b'. hasWritten n b = Inr b' \<and> buffer_inv b'"
  using inv_bounds [of b] by (simp add: hasWritten_def writableBytes_eq size_add_bounded) (simp add: buffer_inv_def)

lemma retrieveUntil_ok:
  assumes "buffer_inv b" and "peek b \<le> p" and "p \<le> beginWrite b"
  shows "\<exists>b'. retrieveUntil p b = Inr b' \<and> buffer_inv b'"
proof -
  have "p - peek b \<le> length (contents b)"
    using assms by (simp add: length_contents readableBytes_eq peek_def beginWrite_def diff_le_mono)
  from retrieve_ok [OF assms(1) this] show ?thesis using assms(2,3) by (auto simp: retrieveUntil_def)
qed

lemma readFd_any_outcome:
  assumes "buffer_inv b" and "readv_ok rd"
  shows "outcome {Length_error} buffer_inv (mapE (\<lambda>(n, e, b'). b') (readFd rd b))"
proof (cases "rd (readFd_iov b)")
  case (Inl e)
  then show ?thesis using assms(1) by (simp add: readFd_def mapE_def)
next
  case (Inr bs)
  then have "length bs \<le> sum_list (readFd_iov b)" using assms(2) by (simp add: readv_ok_def)
  from readFd_outcome [of b rd bs, OF assms(1) Inr this] show ?thesis
    by (cases "readFd rd b") (auto simp: mapE_def)
qed

lemma call_legal:
  assumes "buffer_inv b" and "call_ok c" and "legal c b"
  shows "outcome {Length_error} buffer_inv (call_buffer c b)"
proof (cases c)
  case (Append d)
  then show ?thesis using append_outcome [OF assms(1), of d] assms(2) by (auto elim!: outcome_weaken)
next
  case (Prepend d)
  then show ?thesis using prepend_ok [OF assms(1), of d] assms(3) by (auto simp: prependableBytes_def)
next
  case (Retrieve n)
  then show ?thesis using retrieve_ok [OF assms(1), of n] assms by (auto simp: length_contents)
next
  case (RetrieveUntil p)
  then show ?thesis using retrieveUntil_ok [OF assms(1), of p] assms(3) by auto
next
  case RetrieveAll
  then show ?thesis using retrieveAll_ok [OF assms(1)] by simp
next
  case (RetrieveAsString n)
  then show ?thesis using retrieveAsString_ok [OF assms(1), of n] assms by (auto simp: length_contents mapE_def)
next
  case (EnsureWritable n)
  then show ?thesis using ensureWritableBytes_outcome [OF assms(1), of n] assms(2) by simp
next
  case (HasWritten n)
  then show ?thesis using hasWritten_ok [OF assms(1), of n] assms(3) by auto
next
  case (ReadFd rd)
  then show ?thesis using readFd_any_outcome [OF assms(1), of rd] assms(2) by simp
qed

lemma call_illegal: "\<not> legal c b \<Longrightarrow> call_buffer c b = Inl Assert_fail"
  by (cases c) (auto simp: prepend_def retrieve_def retrieveUntil_def retrieveAsString_def hasWritten_def mapE_def assertE_def)

lemma calls_inv:
  "buffer_inv b \<Longrightarrow> \<forall>c \<in> set cs. call_ok c \<Longrightarrow> foldE call_buffer cs b = Inr b' \<Longrightarrow> buffer_inv b'"
proof (induction cs arbitrary: b)
  case (Cons c cs)
  then obtain b1 where b1: "call_buffer c b = Inr b1" "foldE call_buffer cs b1 = Inr b'"
    by (auto simp: result_iffs)
  then have "legal c b" using call_illegal by fastforce
  then have "buffer_inv b1" using call_legal [OF Cons.prems(1)] Cons.prems(2) b1(1) by fastforce
  then show ?case using Cons.IH b1(2) Cons.prems(2) by simp
qed simp

text \<open>C24: A buffer is well-formed after every sequence of calls, and it fails loudly exactly when it must. However
  the calls of the interface were mixed since construction, the indices are in order and within the
  storage, with the eight bytes in front reachable; the next call keeps this or throws
  \<open>std::length_error\<close> if it asks for no more than the buffer has, and fails an assertion otherwise.\<close>

theorem buffer_well_formed:
  assumes "kCheapPrepend + n \<le> max_size" and "\<forall>c \<in> set cs. call_ok c"
    and "bindE (Buffer_new n) (foldE call_buffer cs) = Inr b" and "call_ok c"
  shows "buffer_inv b \<and> (if legal c b then outcome {Length_error} buffer_inv (call_buffer c b)
    else call_buffer c b = Inl Assert_fail)"
proof -
  obtain b0 where "Buffer_new n = Inr b0" "buffer_inv b0" using Buffer_new_ok [OF assms(1)] by blast
  then have "buffer_inv b" using calls_inv [of b0 cs b] assms(2,3) by simp
  then show ?thesis using call_legal [OF _ assms(4)] call_illegal by simp
qed

theorem buffer_well_formed_witness:
  "\<exists>b. bindE (Buffer_new 4) (foldE call_buffer [Append [1, 2, 3], Retrieve 1, Prepend [9]]) = Inr b \<and> buffer_inv b \<and>
       call_buffer (Retrieve 4) b = Inl Assert_fail"
proof -
  obtain b0 where b0: "Buffer_new 4 = Inr b0" "buffer_inv b0" "contents b0 = []" "writerIndex b0 = 8"
    using Buffer_new_ok [of 4] by (auto simp: Buffer_new_def Let_def kCheapPrepend_def max_size_def result_iffs)
  obtain b1 where b1: "append_b [1, 2, 3] b0 = Inr b1" "buffer_inv b1" "contents b1 = [1, 2, 3]"
    using append_ok [OF b0(2), of "[1, 2, 3]"] b0(3,4) by (auto simp: max_size_def)
  obtain b2 where b2: "retrieve 1 b1 = Inr b2" "buffer_inv b2" "contents b2 = [2, 3]" "1 \<le> readerIndex b2"
    using retrieve_ok [OF b1(2), of 1] b1(2,3) inv_bounds [OF b1(2)]
    by (auto simp: retrieve_def length_contents [symmetric] size_add_bounded max_size_def)
  obtain b where b3: "prepend [9] b2 = Inr b" "buffer_inv b" "contents b = [9, 2, 3]"
    using prepend_ok [OF b2(2), of "[9]"] b2(3,4) by auto
  have b: "bindE (Buffer_new 4) (foldE call_buffer [Append [1, 2, 3], Retrieve 1, Prepend [9]]) = Inr b"
      "readableBytes b = 3"
    using b0(1) b1(1) b2(1) b3 length_contents [OF b3(2)] by simp_all
  show ?thesis
    using buffer_well_formed [of 4 "[Append [1, 2, 3], Retrieve 1, Prepend [9]]" b "Retrieve 4"] b
    by (auto simp: kCheapPrepend_def max_size_def)
qed

end
