(* ===== verification/Channel.thy ===== *)
theory Channel
  imports Prelude
begin

text \<open>
  \<open>class Channel\<close> (include/knetlib/Channel.h, src/Channel.cpp): a descriptor, the events it wants,
  the events that arrived and the four callbacks. A channel is a member of the object that owns
  it, and its callbacks are closures over that owner; \<open>handleEvents\<close> therefore works on the
  owner's state through an accessor and an updater of the channel inside it. The locale
  \<open>channel_host\<close> is the contract of such an owner. The operations that change the registration
  (\<open>enableRead\<close> and the rest) go through \<open>EventLoop\<close> to \<open>Epoll\<close> and are in the theory Epoll.
\<close>

unbundle bit_operations_syntax

section \<open>State\<close>

definition EPOLLIN :: "32 word" where "EPOLLIN = 0x001"
definition EPOLLPRI :: "32 word" where "EPOLLPRI = 0x002"
definition EPOLLOUT :: "32 word" where "EPOLLOUT = 0x004"
definition EPOLLERR :: "32 word" where "EPOLLERR = 0x008"
definition EPOLLHUP :: "32 word" where "EPOLLHUP = 0x010"
definition EPOLLRDHUP :: "32 word" where "EPOLLRDHUP = 0x2000"

lemmas epoll_consts = EPOLLIN_def EPOLLPRI_def EPOLLOUT_def EPOLLERR_def EPOLLHUP_def EPOLLRDHUP_def

datatype callback = ReadCb | WriteCb | CloseCb | ErrorCb

text \<open>
  \<open>hasCb\<close> says which of the four \<open>std::function\<close> members are non-empty; \<open>tie\<close> is the identity of
  the object the \<open>weak_ptr\<close> points to.
\<close>

record channel =
  pooling :: bool
  chanfd :: int
  tie :: "nat option"
  tied :: bool
  events :: "32 word"
  revents :: "32 word"
  handlingEvents :: bool
  hasCb :: "callback \<Rightarrow> bool"

definition Channel_new :: "int \<Rightarrow> channel" where
  "Channel_new f =
     \<lparr>pooling = False, chanfd = f, tie = None, tied = False, events = 0, revents = 0,
      handlingEvents = False, hasCb = (\<lambda>_. False)\<rparr>"

definition Channel_delete :: "channel \<Rightarrow> unit result" where
  "Channel_delete ch = assertE (\<not> handlingEvents ch)"

definition setReadCallback :: "bool \<Rightarrow> channel \<Rightarrow> channel" where
  "setReadCallback cb ch = ch\<lparr>hasCb := (hasCb ch)(ReadCb := cb)\<rparr>"

definition setWriteCallback :: "bool \<Rightarrow> channel \<Rightarrow> channel" where
  "setWriteCallback cb ch = ch\<lparr>hasCb := (hasCb ch)(WriteCb := cb)\<rparr>"

definition setCloseCallback :: "bool \<Rightarrow> channel \<Rightarrow> channel" where
  "setCloseCallback cb ch = ch\<lparr>hasCb := (hasCb ch)(CloseCb := cb)\<rparr>"

definition setErrorCallback :: "bool \<Rightarrow> channel \<Rightarrow> channel" where
  "setErrorCallback cb ch = ch\<lparr>hasCb := (hasCb ch)(ErrorCb := cb)\<rparr>"

definition isNoneEvents :: "channel \<Rightarrow> bool" where
  "isNoneEvents ch \<longleftrightarrow> events ch = 0"

definition setRevents :: "32 word \<Rightarrow> channel \<Rightarrow> channel" where
  "setRevents r ch = ch\<lparr>revents := r\<rparr>"

definition tie_to :: "nat \<Rightarrow> channel \<Rightarrow> channel" where
  "tie_to obj ch = ch\<lparr>tie := Some obj, tied := True\<rparr>"

definition isReading :: "channel \<Rightarrow> bool" where
  "isReading ch \<longleftrightarrow> events ch AND EPOLLIN \<noteq> 0"

definition isWriting :: "channel \<Rightarrow> bool" where
  "isWriting ch \<longleftrightarrow> events ch AND EPOLLOUT \<noteq> 0"

text \<open>Both functions of the older interface are empty in the source.\<close>

definition useET :: "channel \<Rightarrow> channel" where
  "useET ch = ch"

definition setUseThreadPool :: "bool \<Rightarrow> channel \<Rightarrow> channel" where
  "setUseThreadPool use ch = ch"

section \<open>Dispatching events\<close>

text \<open>One guarded call of a callback: the condition is evaluated on the channel as it is now.\<close>

definition fire ::
  "('w \<Rightarrow> channel) \<Rightarrow> (callback \<Rightarrow> 'w \<Rightarrow> 'w result) \<Rightarrow> (32 word \<Rightarrow> bool) \<Rightarrow> callback \<Rightarrow> 'w \<Rightarrow> 'w result" where
  "fire chan call cond c w =
     (if cond (revents (chan w)) \<and> hasCb (chan w) c then call c w else Inr w)"

definition wantsClose :: "32 word \<Rightarrow> bool" where
  "wantsClose r \<longleftrightarrow> r AND EPOLLHUP \<noteq> 0 \<and> \<not> r AND EPOLLIN \<noteq> 0"

definition wantsError :: "32 word \<Rightarrow> bool" where
  "wantsError r \<longleftrightarrow> r AND EPOLLERR \<noteq> 0"

definition wantsRead :: "32 word \<Rightarrow> bool" where
  "wantsRead r \<longleftrightarrow> r AND (EPOLLIN OR EPOLLPRI OR EPOLLRDHUP) \<noteq> 0"

definition wantsWrite :: "32 word \<Rightarrow> bool" where
  "wantsWrite r \<longleftrightarrow> r AND EPOLLOUT \<noteq> 0"

definition handleEventWithGuard ::
  "('w \<Rightarrow> channel) \<Rightarrow> ((channel \<Rightarrow> channel) \<Rightarrow> 'w \<Rightarrow> 'w) \<Rightarrow> (callback \<Rightarrow> 'w \<Rightarrow> 'w result) \<Rightarrow> 'w \<Rightarrow> 'w result" where
  "handleEventWithGuard chan upd call w =
     bindE (fire chan call wantsClose CloseCb (upd (handlingEvents_update (\<lambda>_. True)) w)) (\<lambda>w.
     bindE (fire chan call wantsError ErrorCb w) (\<lambda>w.
     bindE (fire chan call wantsRead ReadCb w) (\<lambda>w.
     bindE (fire chan call wantsWrite WriteCb w) (\<lambda>w.
     Inr (upd (handlingEvents_update (\<lambda>_. False)) w)))))"

text \<open>
  \<open>inLoop\<close> is the answer of \<open>isInLoopThread()\<close>; \<open>alive\<close> says whether an object still has an owner,
  which is what \<open>weak_ptr::lock\<close> finds out.
\<close>

definition handleEvents ::
  "bool \<Rightarrow> (nat \<Rightarrow> bool) \<Rightarrow> ('w \<Rightarrow> channel) \<Rightarrow> ((channel \<Rightarrow> channel) \<Rightarrow> 'w \<Rightarrow> 'w) \<Rightarrow>
   (callback \<Rightarrow> 'w \<Rightarrow> 'w result) \<Rightarrow> 'w \<Rightarrow> 'w result" where
  "handleEvents inLoop alive chan upd call w =
     bindE (assertE inLoop) (\<lambda>_.
     if tied (chan w) then
       (case tie (chan w) of
          None \<Rightarrow> Inr w
        | Some obj \<Rightarrow> if alive obj then handleEventWithGuard chan upd call w else Inr w)
     else handleEventWithGuard chan upd call w)"

section \<open>Owners of channels\<close>

text \<open>The callbacks a set of events asks for, in the order in which they are called.\<close>

definition plan :: "32 word \<Rightarrow> (callback \<Rightarrow> bool) \<Rightarrow> callback list" where
  "plan r has = filter has
     ((if wantsClose r then [CloseCb] else []) @ (if wantsError r then [ErrorCb] else []) @
      (if wantsRead r then [ReadCb] else []) @ (if wantsWrite r then [WriteCb] else []))"

locale channel_host =
  fixes chan :: "'w \<Rightarrow> channel" and upd :: "(channel \<Rightarrow> channel) \<Rightarrow> 'w \<Rightarrow> 'w"
  assumes chan_upd: "chan (upd f w) = f (chan w)"
begin

text \<open>A callback leaves the received events and the set of callbacks of the channel alone.\<close>

definition quiet :: "(callback \<Rightarrow> 'w \<Rightarrow> 'w result) \<Rightarrow> bool" where
  "quiet call \<longleftrightarrow> (\<forall>c w w'. call c w = Inr w' \<longrightarrow>
     revents (chan w') = revents (chan w) \<and> hasCb (chan w') = hasCb (chan w))"

lemma quietD:
  "quiet call \<Longrightarrow> call c w = Inr w' \<Longrightarrow> revents (chan w') = revents (chan w) \<and> hasCb (chan w') = hasCb (chan w)"
  by (simp add: quiet_def)

lemma fire_foldE:
  assumes "quiet call" and "revents (chan w) = r" and "hasCb (chan w) = has"
    and rest: "\<And>w'. revents (chan w') = r \<Longrightarrow> hasCb (chan w') = has \<Longrightarrow> k w' = bindE (foldE call cs w') g"
  shows "bindE (fire chan call cond c w) k =
         bindE (foldE call ((if cond r \<and> has c then [c] else []) @ cs) w) g"
proof (cases "cond r \<and> has c")
  case True
  then have "fire chan call cond c w = call c w"
    using assms(2,3) by (simp add: fire_def)
  then show ?thesis
    using True rest quietD [OF assms(1), of c w] assms(2,3) by (cases "call c w") simp_all
next
  case False
  then show ?thesis using rest [of w] assms(2,3) by (auto simp: fire_def)
qed

text \<open>
  The dispatcher runs exactly the planned callbacks, in order, between setting and clearing the
  flag \<open>handlingEvents_\<close>.
\<close>

lemma dispatch_plan:
  assumes q: "quiet call"
  shows "handleEventWithGuard chan upd call w =
         bindE (foldE call (plan (revents (chan w)) (hasCb (chan w)))
                  (upd (handlingEvents_update (\<lambda>_. True)) w))
           (\<lambda>w'. Inr (upd (handlingEvents_update (\<lambda>_. False)) w'))"
proof -
  let ?r = "revents (chan w)" and ?h = "hasCb (chan w)"
  let ?w = "upd (handlingEvents_update (\<lambda>_. True)) w"
  let ?g = "\<lambda>w'. Inr (upd (handlingEvents_update (\<lambda>_. False)) w')"
  have start: "revents (chan ?w) = ?r" "hasCb (chan ?w) = ?h"
    by (simp_all add: chan_upd)
  have "handleEventWithGuard chan upd call w = bindE (foldE call
      ((if wantsClose ?r \<and> ?h CloseCb then [CloseCb] else []) @
       (if wantsError ?r \<and> ?h ErrorCb then [ErrorCb] else []) @
       (if wantsRead ?r \<and> ?h ReadCb then [ReadCb] else []) @
       (if wantsWrite ?r \<and> ?h WriteCb then [WriteCb] else []) @ []) ?w) ?g"
    unfolding handleEventWithGuard_def
    by (intro fire_foldE [OF q] start) simp_all
  moreover have "plan ?r ?h =
      (if wantsClose ?r \<and> ?h CloseCb then [CloseCb] else []) @
      (if wantsError ?r \<and> ?h ErrorCb then [ErrorCb] else []) @
      (if wantsRead ?r \<and> ?h ReadCb then [ReadCb] else []) @
      (if wantsWrite ?r \<and> ?h WriteCb then [WriteCb] else []) @ []"
    by (simp add: plan_def)
  ultimately show ?thesis by simp
qed

lemma handling_cleared:
  "handleEventWithGuard chan upd call w = Inr w' \<Longrightarrow> \<not> handlingEvents (chan w')"
  by (auto simp: handleEventWithGuard_def bindE_eq_Inr chan_upd)

text \<open>
  Assume-guarantee: if every planned callback keeps an invariant that does not look at the flag,
  the dispatch keeps it.
\<close>

lemma dispatch_outcome:
  assumes flag: "\<And>w b. I (upd (handlingEvents_update (\<lambda>_. b)) w) \<longleftrightarrow> I w" and "I w"
    and keep: "\<And>c cond w. I w \<Longrightarrow> (cond, c) \<in>
        {(wantsClose, CloseCb), (wantsError, ErrorCb), (wantsRead, ReadCb), (wantsWrite, WriteCb)} \<Longrightarrow>
        outcome E I (fire chan call cond c w)"
  shows "outcome E I (handleEventWithGuard chan upd call w)"
proof -
  have step: "outcome E I (bindE (fire chan call cond c v) k)"
    if "I v" "(cond, c) \<in> {(wantsClose, CloseCb), (wantsError, ErrorCb), (wantsRead, ReadCb),
          (wantsWrite, WriteCb)}" "\<And>v. I v \<Longrightarrow> outcome E I (k v)" for cond c v k
    using outcome_weaken [OF keep [OF that(1,2)]] that(3) by (simp add: outcome_bindE)
  show ?thesis
    unfolding handleEventWithGuard_def using \<open>I w\<close>
    by (intro step) (simp_all add: flag)
qed

end

end
