(* ===== verification/Epoll.thy ===== *)
theory Epoll
  imports Channel
begin

text \<open>
  \<open>class Epoll\<close> (src/Epoll.cpp) and the operations of \<open>Channel\<close> that change what the kernel
  watches for. The system calls are parameters: \<open>ctl\<close> is \<open>epoll_ctl\<close> over an abstract kernel
  state, \<open>wait\<close> is the answer of \<open>epoll_wait\<close>. A channel is known to the kernel by its address,
  a number here. The theory proves that the kernel's interest list always agrees with the channel
  object, and what \<open>poll\<close> returns.
\<close>

unbundle bit_operations_syntax

section \<open>Registering channels\<close>

datatype ctl_op = EPOLL_CTL_ADD | EPOLL_CTL_MOD | EPOLL_CTL_DEL

record epoll_event =
  ev_events :: "32 word"
  ev_ptr :: nat

type_synonym 'k epoll_ctl = "ctl_op \<Rightarrow> int \<Rightarrow> epoll_event \<Rightarrow> 'k \<Rightarrow> errno option \<times> 'k"

text \<open>\<open>Epoll::updateChannel(int op, Channel*)\<close>: two errors are tolerated, the others end the program.\<close>

definition updateChannel_op :: "'k epoll_ctl \<Rightarrow> ctl_op \<Rightarrow> nat \<Rightarrow> channel \<Rightarrow> 'k \<Rightarrow> 'k result" where
  "updateChannel_op ctl op p ch k =
     (case ctl op (chanfd ch) \<lparr>ev_events = events ch, ev_ptr = p\<rparr> k of
        (None, k') \<Rightarrow> Inr k'
      | (Some e, k') \<Rightarrow>
          if e = ENOENT \<and> (op = EPOLL_CTL_MOD \<or> op = EPOLL_CTL_DEL) then Inr k'
          else if e = EBADF then Inr k'
          else Inl Exit_failure)"

definition updateChannel :: "'k epoll_ctl \<Rightarrow> bool \<Rightarrow> nat \<Rightarrow> channel \<times> 'k \<Rightarrow> (channel \<times> 'k) result" where
  "updateChannel ctl inLoop p s =
     (let (ch, k) = s in
      bindE (assertE inLoop) (\<lambda>_.
      if \<not> pooling ch then
        bindE (assertE (\<not> isNoneEvents ch)) (\<lambda>_.
        let ch' = ch\<lparr>pooling := True\<rparr> in
        bindE (updateChannel_op ctl EPOLL_CTL_ADD p ch' k) (\<lambda>k'. Inr (ch', k')))
      else if \<not> isNoneEvents ch then
        bindE (updateChannel_op ctl EPOLL_CTL_MOD p ch k) (\<lambda>k'. Inr (ch, k'))
      else
        let ch' = ch\<lparr>pooling := False\<rparr> in
        bindE (updateChannel_op ctl EPOLL_CTL_DEL p ch' k) (\<lambda>k'. Inr (ch', k'))))"

definition removeChannel :: "'k epoll_ctl \<Rightarrow> bool \<Rightarrow> nat \<Rightarrow> channel \<times> 'k \<Rightarrow> (channel \<times> 'k) result" where
  "removeChannel ctl inLoop p s =
     (let (ch, k) = s in
      bindE (assertE inLoop) (\<lambda>_.
      if pooling ch then
        bindE (updateChannel_op ctl EPOLL_CTL_DEL p ch k) (\<lambda>k'. Inr (ch\<lparr>pooling := False\<rparr>, k'))
      else Inr (ch, k)))"

text \<open>
  The operations of \<open>Channel\<close> end in \<open>update()\<close>, which is \<open>EventLoop::updateChannel\<close>: it checks
  the thread and calls the poller.
\<close>

definition update :: "'k epoll_ctl \<Rightarrow> bool \<Rightarrow> nat \<Rightarrow> channel \<times> 'k \<Rightarrow> (channel \<times> 'k) result" where
  "update ctl inLoop p s = bindE (assertE inLoop) (\<lambda>_. updateChannel ctl inLoop p s)"

definition remove :: "'k epoll_ctl \<Rightarrow> bool \<Rightarrow> nat \<Rightarrow> channel \<times> 'k \<Rightarrow> (channel \<times> 'k) result" where
  "remove ctl inLoop p s =
     bindE (assertE (pooling (fst s))) (\<lambda>_.
     bindE (assertE inLoop) (\<lambda>_. removeChannel ctl inLoop p s))"

definition enableRead :: "'k epoll_ctl \<Rightarrow> bool \<Rightarrow> nat \<Rightarrow> channel \<times> 'k \<Rightarrow> (channel \<times> 'k) result" where
  "enableRead ctl inLoop p s =
     (let (ch, k) = s in update ctl inLoop p (ch\<lparr>events := events ch OR (EPOLLIN OR EPOLLPRI)\<rparr>, k))"

definition enableWrite :: "'k epoll_ctl \<Rightarrow> bool \<Rightarrow> nat \<Rightarrow> channel \<times> 'k \<Rightarrow> (channel \<times> 'k) result" where
  "enableWrite ctl inLoop p s =
     (let (ch, k) = s in update ctl inLoop p (ch\<lparr>events := events ch OR EPOLLOUT\<rparr>, k))"

definition disableRead :: "'k epoll_ctl \<Rightarrow> bool \<Rightarrow> nat \<Rightarrow> channel \<times> 'k \<Rightarrow> (channel \<times> 'k) result" where
  "disableRead ctl inLoop p s =
     (let (ch, k) = s in update ctl inLoop p (ch\<lparr>events := events ch AND NOT EPOLLIN\<rparr>, k))"

definition disableWrite :: "'k epoll_ctl \<Rightarrow> bool \<Rightarrow> nat \<Rightarrow> channel \<times> 'k \<Rightarrow> (channel \<times> 'k) result" where
  "disableWrite ctl inLoop p s =
     (let (ch, k) = s in update ctl inLoop p (ch\<lparr>events := events ch AND NOT EPOLLOUT\<rparr>, k))"

definition disableAll :: "'k epoll_ctl \<Rightarrow> bool \<Rightarrow> nat \<Rightarrow> channel \<times> 'k \<Rightarrow> (channel \<times> 'k) result" where
  "disableAll ctl inLoop p s = (let (ch, k) = s in update ctl inLoop p (ch\<lparr>events := 0\<rparr>, k))"

section \<open>Waiting for events\<close>

text \<open>
  \<open>heap\<close> holds the channel objects by address; a null entry is an address where no channel lives
  any more. \<open>poll\<close> returns the size of the event vector, the channels and the active list.
\<close>

definition Epoll_new :: "bool \<Rightarrow> nat result" where
  "Epoll_new created = (if \<not> created then Inl Exit_failure else Inr 128)"

text \<open>The destructor closes the descriptor of the poller.\<close>

definition Epoll_delete :: "int \<Rightarrow> int list" where
  "Epoll_delete epfd = (if epfd \<noteq> - 1 then [epfd] else [])"

definition note_event ::
  "epoll_event \<Rightarrow> (nat \<rightharpoonup> channel) \<times> nat list \<Rightarrow> ((nat \<rightharpoonup> channel) \<times> nat list) result" where
  "note_event ev s =
     (let (heap, active) = s in
      case heap (ev_ptr ev) of
        None \<Rightarrow> Inl Use_after_free
      | Some ch \<Rightarrow> Inr (heap(ev_ptr ev \<mapsto> setRevents (ev_events ev) ch), active @ [ev_ptr ev]))"

definition poll ::
  "(nat \<Rightarrow> int \<Rightarrow> errno + epoll_event list) \<Rightarrow> bool \<Rightarrow> int \<Rightarrow> nat \<Rightarrow> (nat \<rightharpoonup> channel) \<Rightarrow> nat list \<Rightarrow>
   (nat \<times> (nat \<rightharpoonup> channel) \<times> nat list) result" where
  "poll wait inLoop timeout maxEvents heap active =
     bindE (assertE inLoop) (\<lambda>_.
     case wait maxEvents timeout of
       Inl e \<Rightarrow> if e \<noteq> EINTR then Inl Exit_failure else Inr (maxEvents, heap, active)
     | Inr evs \<Rightarrow>
         bindE (foldE note_event evs (heap, active)) (\<lambda>(heap', active').
         Inr (if 0 < length evs \<and> length evs = maxEvents then 2 * maxEvents else maxEvents,
              heap', active')))"

section \<open>The kernel's interest list\<close>

text \<open>
  The documented behaviour of \<open>epoll_ctl\<close> on open descriptors, for a kernel whose interest list is
  read off by \<open>interest\<close>: adding a registered descriptor is EEXIST, changing or deleting an
  unregistered one is ENOENT, everything else takes effect.
\<close>

definition epoll_ctl_ok :: "'k epoll_ctl \<Rightarrow> ('k \<Rightarrow> int \<rightharpoonup> epoll_event) \<Rightarrow> bool" where
  "epoll_ctl_ok ctl interest \<longleftrightarrow> (\<forall>op f ev k.
     let (r, k') = ctl op f ev k in
     case op of
       EPOLL_CTL_ADD \<Rightarrow>
         (if interest k f = None then r = None \<and> interest k' = (interest k)(f \<mapsto> ev)
          else r = Some EEXIST \<and> interest k' = interest k)
     | EPOLL_CTL_MOD \<Rightarrow>
         (if interest k f \<noteq> None then r = None \<and> interest k' = (interest k)(f \<mapsto> ev)
          else r = Some ENOENT \<and> interest k' = interest k)
     | EPOLL_CTL_DEL \<Rightarrow>
         (if interest k f \<noteq> None then r = None \<and> interest k' = (interest k)(f := None)
          else r = Some ENOENT \<and> interest k' = interest k))"

text \<open>The kernel watches a channel's descriptor exactly if the channel thinks so, with its events.\<close>

definition agrees :: "('k \<Rightarrow> int \<rightharpoonup> epoll_event) \<Rightarrow> nat \<Rightarrow> channel \<times> 'k \<Rightarrow> bool" where
  "agrees interest p s \<longleftrightarrow>
     interest (snd s) (chanfd (fst s)) =
       (if pooling (fst s) then Some \<lparr>ev_events = events (fst s), ev_ptr = p\<rparr> else None)"

datatype chan_op = EnableRead | EnableWrite | DisableRead | DisableWrite | DisableAll

fun run_op :: "'k epoll_ctl \<Rightarrow> bool \<Rightarrow> nat \<Rightarrow> chan_op \<Rightarrow> channel \<times> 'k \<Rightarrow> (channel \<times> 'k) result" where
  "run_op ctl inLoop p EnableRead s = enableRead ctl inLoop p s"
| "run_op ctl inLoop p EnableWrite s = enableWrite ctl inLoop p s"
| "run_op ctl inLoop p DisableRead s = disableRead ctl inLoop p s"
| "run_op ctl inLoop p DisableWrite s = disableWrite ctl inLoop p s"
| "run_op ctl inLoop p DisableAll s = disableAll ctl inLoop p s"

fun new_events :: "chan_op \<Rightarrow> 32 word \<Rightarrow> 32 word" where
  "new_events EnableRead e = e OR (EPOLLIN OR EPOLLPRI)"
| "new_events EnableWrite e = e OR EPOLLOUT"
| "new_events DisableRead e = e AND NOT EPOLLIN"
| "new_events DisableWrite e = e AND NOT EPOLLOUT"
| "new_events DisableAll e = 0"

text \<open>No operation leaves an unregistered channel without events: that is what the code asserts.\<close>

fun safe_ops :: "bool \<Rightarrow> 32 word \<Rightarrow> chan_op list \<Rightarrow> bool" where
  "safe_ops reg e [] = True"
| "safe_ops reg e (x # xs) =
     ((reg \<or> new_events x e \<noteq> 0) \<and> safe_ops (new_events x e \<noteq> 0) (new_events x e) xs)"

section \<open>Lemmas\<close>

lemma run_op_update:
  "run_op ctl inLoop p x (ch, k) = update ctl inLoop p (ch\<lparr>events := new_events x (events ch)\<rparr>, k)"
  by (cases x) (simp_all add: enableRead_def enableWrite_def disableRead_def disableWrite_def disableAll_def)

lemma ctl_success:
  assumes "epoll_ctl_ok ctl interest"
    and "case op of EPOLL_CTL_ADD \<Rightarrow> interest k (chanfd ch) = None | _ \<Rightarrow> interest k (chanfd ch) \<noteq> None"
  shows "\<exists>k'. updateChannel_op ctl op p ch k = Inr k' \<and>
    interest k' = (interest k)(chanfd ch :=
      (if op = EPOLL_CTL_DEL then None else Some \<lparr>ev_events = events ch, ev_ptr = p\<rparr>))"
proof -
  obtain r k' where rk: "ctl op (chanfd ch) \<lparr>ev_events = events ch, ev_ptr = p\<rparr> k = (r, k')"
    by fastforce
  have spec: "let (r, k') = ctl op (chanfd ch) \<lparr>ev_events = events ch, ev_ptr = p\<rparr> k in
     case op of
       EPOLL_CTL_ADD \<Rightarrow>
         (if interest k (chanfd ch) = None then r = None \<and> interest k' = (interest k)(chanfd ch \<mapsto> \<lparr>ev_events = events ch, ev_ptr = p\<rparr>)
          else r = Some EEXIST \<and> interest k' = interest k)
     | EPOLL_CTL_MOD \<Rightarrow>
         (if interest k (chanfd ch) \<noteq> None then r = None \<and> interest k' = (interest k)(chanfd ch \<mapsto> \<lparr>ev_events = events ch, ev_ptr = p\<rparr>)
          else r = Some ENOENT \<and> interest k' = interest k)
     | EPOLL_CTL_DEL \<Rightarrow>
         (if interest k (chanfd ch) \<noteq> None then r = None \<and> interest k' = (interest k)(chanfd ch := None)
          else r = Some ENOENT \<and> interest k' = interest k)"
    using assms(1) unfolding epoll_ctl_ok_def by blast
  show ?thesis using spec assms(2) rk
    by (cases op) (auto simp: updateChannel_op_def)
qed

lemma update_interest:
  assumes ok: "epoll_ctl_ok ctl interest" and ag: "agrees interest p (ch, k)"
    and legal: "pooling ch \<or> e \<noteq> 0"
  shows "\<exists>k'. update ctl True p (ch\<lparr>events := e\<rparr>, k) = Inr (ch\<lparr>events := e, pooling := e \<noteq> 0\<rparr>, k') \<and>
     interest k' = (interest k)(chanfd ch := (if e \<noteq> 0 then Some \<lparr>ev_events = e, ev_ptr = p\<rparr> else None))"
proof (cases "pooling ch")
  case False
  then have "\<exists>k'. updateChannel_op ctl EPOLL_CTL_ADD p (ch\<lparr>events := e, pooling := True\<rparr>) k = Inr k' \<and>
      interest k' = (interest k)(chanfd ch \<mapsto> \<lparr>ev_events = e, ev_ptr = p\<rparr>)"
    using ctl_success [OF ok, where op = EPOLL_CTL_ADD and k = k and ch = "ch\<lparr>events := e, pooling := True\<rparr>" and p = p] ag
    by (simp add: agrees_def)
  then show ?thesis using False legal
    by (auto simp: update_def updateChannel_def isNoneEvents_def)
next
  case True
  then have reg: "interest k (chanfd ch) \<noteq> None" using ag by (simp add: agrees_def)
  show ?thesis
  proof (cases "e = 0")
    case False
    have same: "ch\<lparr>events := e, pooling := e \<noteq> 0\<rparr> = ch\<lparr>events := e\<rparr>"
      using True False by simp
    show ?thesis
      using ctl_success [OF ok, where op = EPOLL_CTL_MOD and k = k and ch = "ch\<lparr>events := e\<rparr>" and p = p] reg True False
      by (auto simp: update_def updateChannel_def isNoneEvents_def same)
  next
    case e0: True
    show ?thesis
      using ctl_success [OF ok, where op = EPOLL_CTL_DEL and k = k and ch = "ch\<lparr>events := e, pooling := False\<rparr>" and p = p] reg True e0
      by (auto simp: update_def updateChannel_def isNoneEvents_def Let_def)
  qed
qed

lemma update_agrees:
  assumes "epoll_ctl_ok ctl interest" and "agrees interest p (ch, k)" and "pooling ch \<or> e \<noteq> 0"
  shows "\<exists>k'. update ctl True p (ch\<lparr>events := e\<rparr>, k) = Inr (ch\<lparr>events := e, pooling := e \<noteq> 0\<rparr>, k') \<and>
              agrees interest p (ch\<lparr>events := e, pooling := e \<noteq> 0\<rparr>, k')"
  using update_interest [OF assms] by (auto simp: agrees_def)

lemma removeChannel_interest:
  assumes ok: "epoll_ctl_ok ctl interest" and ag: "agrees interest p (ch, k)"
  shows "\<exists>k'. removeChannel ctl True p (ch, k) = Inr (ch\<lparr>pooling := False\<rparr>, k') \<and>
              interest k' = (interest k)(chanfd ch := None)"
proof (cases "pooling ch")
  case True
  then show ?thesis
    using ctl_success [OF ok, where op = EPOLL_CTL_DEL and k = k and ch = ch and p = p] ag
    by (auto simp: removeChannel_def agrees_def)
next
  case False
  then have "(interest k)(chanfd ch := None) = interest k" using ag by (simp add: agrees_def fun_upd_idem)
  then show ?thesis using False by (simp add: removeChannel_def)
qed

lemma removeChannel_agrees:
  assumes "epoll_ctl_ok ctl interest" and "agrees interest p (ch, k)"
  shows "\<exists>k'. removeChannel ctl True p (ch, k) = Inr (ch\<lparr>pooling := False\<rparr>, k') \<and>
              agrees interest p (ch\<lparr>pooling := False\<rparr>, k')"
  using removeChannel_interest [OF assms] by (auto simp: agrees_def)

lemma note_event_Some:
  "heap (ev_ptr ev) = Some ch \<Longrightarrow>
   note_event ev (heap, active) = Inr (heap(ev_ptr ev \<mapsto> setRevents (ev_events ev) ch), active @ [ev_ptr ev])"
  by (simp add: note_event_def)

lemma note_events_ok:
  "distinct (map ev_ptr evs) \<Longrightarrow> \<forall>ev \<in> set evs. heap (ev_ptr ev) \<noteq> None \<Longrightarrow>
   foldE note_event evs (heap, active) =
     Inr (\<lambda>q. case map_of (map (\<lambda>ev. (ev_ptr ev, ev_events ev)) evs) q of
                None \<Rightarrow> heap q | Some r \<Rightarrow> map_option (setRevents r) (heap q),
          active @ map ev_ptr evs)"
proof (induction evs arbitrary: heap active)
  case Nil
  then show ?case by simp
next
  case (Cons ev evs)
  then obtain ch where ch: "heap (ev_ptr ev) = Some ch" by auto
  let ?heap = "heap(ev_ptr ev \<mapsto> setRevents (ev_events ev) ch)"
  have fresh: "map_of (map (\<lambda>ev. (ev_ptr ev, ev_events ev)) evs) (ev_ptr ev) = None"
    using Cons.prems(1) by (auto simp: map_of_eq_None_iff)
  have "foldE note_event evs (?heap, active @ [ev_ptr ev]) =
     Inr (\<lambda>q. case map_of (map (\<lambda>ev. (ev_ptr ev, ev_events ev)) evs) q of
                None \<Rightarrow> ?heap q | Some r \<Rightarrow> map_option (setRevents r) (?heap q),
          (active @ [ev_ptr ev]) @ map ev_ptr evs)"
    using Cons.prems by (intro Cons.IH) auto
  then show ?case
    using fresh by (auto simp: note_event_Some [of heap ev ch, OF ch] ch fun_eq_iff split: option.splits)
qed

lemma run_ops_agree:
  assumes ok: "epoll_ctl_ok ctl interest"
  shows "agrees interest p (ch, k) \<Longrightarrow> safe_ops (pooling ch) (events ch) ops \<Longrightarrow>
    \<exists>ch' k'. foldE (run_op ctl True p) ops (ch, k) = Inr (ch', k') \<and> agrees interest p (ch', k') \<and>
      events ch' = fold new_events ops (events ch) \<and>
      pooling ch' = (if ops = [] then pooling ch else events ch' \<noteq> 0)"
proof (induction ops arbitrary: ch k)
  case Nil
  then show ?case by simp
next
  case (Cons x ops)
  let ?e = "new_events x (events ch)"
  let ?ch = "ch\<lparr>events := ?e, pooling := ?e \<noteq> 0\<rparr>"
  have "pooling ch \<or> ?e \<noteq> 0" using Cons.prems(2) by simp
  then obtain k1 where k1: "run_op ctl True p x (ch, k) = Inr (?ch, k1)" "agrees interest p (?ch, k1)"
    using update_agrees [OF ok Cons.prems(1)] by (auto simp: run_op_update)
  have "safe_ops (pooling ?ch) (events ?ch) ops" using Cons.prems(2) by simp
  from Cons.IH [OF k1(2) this] k1(1) show ?case by (auto split: if_splits)
qed

section \<open>Properties\<close>

text \<open>C21: What the kernel watches is what the channel object says. Under the documented behaviour of
  \<open>epoll_ctl\<close>, every sequence of \<open>enableRead\<close>, \<open>enableWrite\<close>, \<open>disableRead\<close>, \<open>disableWrite\<close> and
  \<open>disableAll\<close> that never leaves an unregistered channel without events runs to the end; after it
  the interest list holds the channel exactly if \<open>pooling\<close> is set, with the mask \<open>events_\<close> and the
  channel's address, and \<open>pooling\<close> is set exactly if some event is wanted.\<close>

theorem channel_registration:
  assumes "epoll_ctl_ok ctl interest" and "agrees interest p (ch, k)"
    and "safe_ops (pooling ch) (events ch) ops" and "ops \<noteq> []"
  shows "\<exists>ch' k'. foldE (run_op ctl True p) ops (ch, k) = Inr (ch', k') \<and>
           events ch' = fold new_events ops (events ch) \<and> (pooling ch' \<longleftrightarrow> events ch' \<noteq> 0) \<and>
           interest k' (chanfd ch') =
             (if events ch' = 0 then None else Some \<lparr>ev_events = events ch', ev_ptr = p\<rparr>)"
proof -
  obtain ch' k' where "foldE (run_op ctl True p) ops (ch, k) = Inr (ch', k')"
      "agrees interest p (ch', k')" "events ch' = fold new_events ops (events ch)"
      "pooling ch' = (events ch' \<noteq> 0)"
    using run_ops_agree [OF assms(1-3)] assms(4) by auto
  then show ?thesis by (auto simp: agrees_def)
qed

text \<open>A kernel that keeps its interest list as a map, used to instantiate the system call.\<close>

fun map_ctl :: "(int \<rightharpoonup> epoll_event) epoll_ctl" where
  "map_ctl EPOLL_CTL_ADD f ev m = (if m f = None then (None, m(f \<mapsto> ev)) else (Some EEXIST, m))"
| "map_ctl EPOLL_CTL_MOD f ev m = (if m f \<noteq> None then (None, m(f \<mapsto> ev)) else (Some ENOENT, m))"
| "map_ctl EPOLL_CTL_DEL f ev m = (if m f \<noteq> None then (None, m(f := None)) else (Some ENOENT, m))"

lemma map_ctl_ok: "epoll_ctl_ok map_ctl (\<lambda>m. m)"
  unfolding epoll_ctl_ok_def
  apply (intro allI)
  subgoal for op f ev k by (cases op) auto
  done

theorem channel_registration_witness:
  "\<exists>ch' k'. foldE (run_op map_ctl True 1) [EnableRead, EnableWrite, DisableWrite] (Channel_new 5, Map.empty)
      = Inr (ch', k') \<and> events ch' = 3 \<and> pooling ch' \<and>
      k' (chanfd ch') = Some \<lparr>ev_events = 3, ev_ptr = 1\<rparr>"
  using channel_registration [OF map_ctl_ok, of 1 "Channel_new 5" Map.empty "[EnableRead, EnableWrite, DisableWrite]"]
  by (auto simp: agrees_def Channel_new_def epoll_consts)

text \<open>C22: \<open>poll\<close> hands over exactly the reported channels. For events on distinct live channels it
  appends their addresses to the active list in the order of the report, stores each channel's
  events in its \<open>revents_\<close>, leaves all other channels alone, and doubles the event vector exactly
  when the report filled it. An interrupted wait changes nothing; any other error ends the program.\<close>

theorem poll_correct:
  assumes "\<And>evs. wait maxEvents timeout = Inr evs \<Longrightarrow>
     distinct (map ev_ptr evs) \<and> (\<forall>ev \<in> set evs. heap (ev_ptr ev) \<noteq> None)"
    and "0 < maxEvents"
  shows "poll wait True timeout maxEvents heap active =
    (case wait maxEvents timeout of
       Inl e \<Rightarrow> if e = EINTR then Inr (maxEvents, heap, active) else Inl Exit_failure
     | Inr evs \<Rightarrow>
         Inr (if length evs = maxEvents then 2 * maxEvents else maxEvents,
              \<lambda>q. case map_of (map (\<lambda>ev. (ev_ptr ev, ev_events ev)) evs) q of
                    None \<Rightarrow> heap q | Some r \<Rightarrow> map_option (setRevents r) (heap q),
              active @ map ev_ptr evs))"
proof (cases "wait maxEvents timeout")
  case (Inl e)
  then show ?thesis by (simp add: poll_def)
next
  case (Inr evs)
  then show ?thesis
    using assms(2) note_events_ok [of evs heap active] assms(1) [OF Inr] by (simp add: poll_def)
qed

theorem poll_correct_witness:
  "poll (\<lambda>n t. Inr [\<lparr>ev_events = 1, ev_ptr = 7\<rparr>]) True (- 1) 1 [7 \<mapsto> Channel_new 5] [] =
     Inr (2, \<lambda>q. case [7 \<mapsto> 1] q of None \<Rightarrow> [7 \<mapsto> Channel_new 5] q
                | Some r \<Rightarrow> map_option (setRevents r) ([7 \<mapsto> Channel_new 5] q), [7])"
  using poll_correct [of "\<lambda>n t. Inr [\<lparr>ev_events = 1, ev_ptr = 7\<rparr>]" 1 "- 1" "[7 \<mapsto> Channel_new 5]" "[]"]
  by simp

end
