(* ===== verification/Event_Loop.thy ===== *)
theory Event_Loop
  imports Epoll
begin

text \<open>
  \<open>class EventLoop\<close> (include/knetlib/EventLoop.h, src/EventLoop.cpp). The first part gives the
  operations as functions: the task queue, the wake-up through an \<open>eventfd\<close>, one pass of the loop
  and the loop itself. The second part is a transition system in which the loop's thread and any
  number of other threads interleave at the points where the source releases a lock or reads an
  atomic, with the loop's own operations as the effect of each step. It shows that tasks run
  exactly once and in the order they were queued, when a queued task is sure to wake the loop, and
  two situations in which the loop misses a request. The object that holds the loop is abstract:
  \<open>loop_host\<close> is its contract.
\<close>

section \<open>State and task queue\<close>

text \<open>
  The \<open>eventfd\<close> is a kernel object and a parameter: reading and writing it return the count that
  the system call returned, and \<open>efd_readable\<close> is what \<open>epoll_wait\<close> reports.
\<close>

record 'k eventfd =
  efd_write :: "'k \<Rightarrow> int \<times> 'k"
  efd_read :: "'k \<Rightarrow> int \<times> 'k"
  efd_readable :: "'k \<Rightarrow> bool"

text \<open>Documented: after a write (or EAGAIN because the counter is full) it is readable; a read drains it.\<close>

definition eventfd_ok :: "'k eventfd \<Rightarrow> bool" where
  "eventfd_ok e \<longleftrightarrow>
     (\<forall>k. efd_readable e (snd (efd_write e k))) \<and> (\<forall>k. \<not> efd_readable e (snd (efd_read e k)))"

record ('t, 'k) eventloop =
  tid :: int
  quit_flag :: bool
  doingPendingTasks :: bool
  pendingTasks :: "'t list"
  wakeupfd :: 'k

definition isInLoopThread :: "int \<Rightarrow> ('t, 'k) eventloop \<Rightarrow> bool" where
  "isInLoopThread cur l \<longleftrightarrow> tid l = cur"

definition assertInLoopThread :: "int \<Rightarrow> ('t, 'k) eventloop \<Rightarrow> unit result" where
  "assertInLoopThread cur l = assertE (isInLoopThread cur l)"

definition assertNotInLoopThread :: "int \<Rightarrow> ('t, 'k) eventloop \<Rightarrow> unit result" where
  "assertNotInLoopThread cur l = assertE (\<not> isInLoopThread cur l)"

text \<open>Besides the write, \<open>wakeup\<close> and \<open>handleRead\<close> only log a short count.\<close>

definition wakeup :: "'k eventfd \<Rightarrow> ('t, 'k) eventloop \<Rightarrow> ('t, 'k) eventloop" where
  "wakeup e l = l\<lparr>wakeupfd := snd (efd_write e (wakeupfd l))\<rparr>"

definition handleRead_loop :: "'k eventfd \<Rightarrow> ('t, 'k) eventloop \<Rightarrow> ('t, 'k) eventloop" where
  "handleRead_loop e l = l\<lparr>wakeupfd := snd (efd_read e (wakeupfd l))\<rparr>"

text \<open>\<open>queueInLoop\<close> in its two atomic parts: the push under the mutex, and the check that may wake.\<close>

definition push_task :: "'t \<Rightarrow> ('t, 'k) eventloop \<Rightarrow> ('t, 'k) eventloop" where
  "push_task t l = l\<lparr>pendingTasks := pendingTasks l @ [t]\<rparr>"

definition wake_check :: "'k eventfd \<Rightarrow> int \<Rightarrow> ('t, 'k) eventloop \<Rightarrow> ('t, 'k) eventloop" where
  "wake_check e cur l = (if \<not> isInLoopThread cur l \<or> doingPendingTasks l then wakeup e l else l)"

definition queueInLoop :: "'k eventfd \<Rightarrow> int \<Rightarrow> 't \<Rightarrow> ('t, 'k) eventloop \<Rightarrow> ('t, 'k) eventloop" where
  "queueInLoop e cur t l = wake_check e cur (push_task t l)"

definition runInLoop ::
  "'k eventfd \<Rightarrow> int \<Rightarrow> ('w \<Rightarrow> ('t, 'k) eventloop) \<Rightarrow> ((('t, 'k) eventloop \<Rightarrow> ('t, 'k) eventloop) \<Rightarrow> 'w \<Rightarrow> 'w) \<Rightarrow>
   ('t \<Rightarrow> 'w \<Rightarrow> 'w result) \<Rightarrow> 't \<Rightarrow> 'w \<Rightarrow> 'w result" where
  "runInLoop e cur lp upd run t w =
     (if isInLoopThread cur (lp w) then run t w else Inr (upd (queueInLoop e cur t) w))"

text \<open>\<open>quit\<close>, again in two parts: the store, and the wake-up when called from another thread.\<close>

definition set_quit :: "('t, 'k) eventloop \<Rightarrow> ('t, 'k) eventloop" where
  "set_quit l = l\<lparr>quit_flag := True\<rparr>"

definition quit :: "'k eventfd \<Rightarrow> int \<Rightarrow> ('t, 'k) eventloop \<Rightarrow> ('t, 'k) eventloop" where
  "quit e cur l =
     (let l' = set_quit l in if \<not> isInLoopThread cur l' then wakeup e l' else l')"

text \<open>The beginning of \<open>doPendingTasks\<close>: the vector is swapped out under the mutex.\<close>

definition take_batch :: "('t, 'k) eventloop \<Rightarrow> 't list \<times> ('t, 'k) eventloop" where
  "take_batch l = (pendingTasks l, l\<lparr>pendingTasks := []\<rparr>)"

definition doPendingTasks ::
  "int \<Rightarrow> ('w \<Rightarrow> ('t, 'k) eventloop) \<Rightarrow> ((('t, 'k) eventloop \<Rightarrow> ('t, 'k) eventloop) \<Rightarrow> 'w \<Rightarrow> 'w) \<Rightarrow>
   ('t \<Rightarrow> 'w \<Rightarrow> 'w result) \<Rightarrow> 'w \<Rightarrow> 'w result" where
  "doPendingTasks cur lp upd run w =
     bindE (assertInLoopThread cur (lp w)) (\<lambda>_.
     let tasks = fst (take_batch (lp w));
         w1 = upd (\<lambda>l. snd (take_batch l)) w;
         w2 = upd (doingPendingTasks_update (\<lambda>_. True)) w1 in
     bindE (foldE run tasks w2) (\<lambda>w3.
     Inr (upd (doingPendingTasks_update (\<lambda>_. False)) w3)))"

section \<open>The loop\<close>

text \<open>
  One pass: wait for events, handle the active channels, run the tasks. \<open>pollf\<close> is
  \<open>poller_.poll\<close> on the owner's state and \<open>handle\<close> is \<open>handleEvents\<close> of the channel at an address.
\<close>

definition loop_body ::
  "int \<Rightarrow> ('w \<Rightarrow> ('t, 'k) eventloop) \<Rightarrow> ((('t, 'k) eventloop \<Rightarrow> ('t, 'k) eventloop) \<Rightarrow> 'w \<Rightarrow> 'w) \<Rightarrow>
   ('t \<Rightarrow> 'w \<Rightarrow> 'w result) \<Rightarrow> ('w \<Rightarrow> (nat list \<times> 'w) result) \<Rightarrow> (nat \<Rightarrow> 'w \<Rightarrow> 'w result) \<Rightarrow> 'w \<Rightarrow> 'w result" where
  "loop_body cur lp upd run pollf handle w =
     bindE (pollf w) (\<lambda>(activeChannels, w1).
     bindE (foldE handle activeChannels w1) (doPendingTasks cur lp upd run))"

text \<open>\<open>while (!quit_)\<close>, with a bound on the number of passes: \<open>None\<close> means it is still running.\<close>

fun loop_passes :: "nat \<Rightarrow> ('w \<Rightarrow> bool) \<Rightarrow> ('w \<Rightarrow> 'w result) \<Rightarrow> 'w \<Rightarrow> 'w result option" where
  "loop_passes 0 stopped body w = None"
| "loop_passes (Suc n) stopped body w =
     (if stopped w then Some (Inr w)
      else case body w of Inl f \<Rightarrow> Some (Inl f) | Inr w' \<Rightarrow> loop_passes n stopped body w')"

definition loop ::
  "nat \<Rightarrow> int \<Rightarrow> ('w \<Rightarrow> ('t, 'k) eventloop) \<Rightarrow> ((('t, 'k) eventloop \<Rightarrow> ('t, 'k) eventloop) \<Rightarrow> 'w \<Rightarrow> 'w) \<Rightarrow>
   ('t \<Rightarrow> 'w \<Rightarrow> 'w result) \<Rightarrow> ('w \<Rightarrow> (nat list \<times> 'w) result) \<Rightarrow> (nat \<Rightarrow> 'w \<Rightarrow> 'w result) \<Rightarrow>
   'w \<Rightarrow> 'w result option" where
  "loop n cur lp upd run pollf handle w =
     (if \<not> isInLoopThread cur (lp w) then Some (Inl Assert_fail)
      else loop_passes n (\<lambda>w. quit_flag (lp w)) (loop_body cur lp upd run pollf handle)
             (upd (quit_flag_update (\<lambda>_. False)) w))"

section \<open>Interleavings\<close>

text \<open>
  Where the loop's thread is. \<open>Dispatching b\<close> is the handling of active channels; \<open>b\<close> says that
  the wake-up channel is still to be handled.
\<close>

datatype loop_pc = BeforeLoop | LoopTest | AtPoll | Dispatching bool | Swapped | RunningTasks | Stopped

text \<open>Where another thread is: outside, after the push of \<open>queueInLoop\<close>, after the store of \<open>quit\<close>.\<close>

datatype ext_pc = Idle | Pushed | QuitSet

text \<open>
  \<open>batch\<close> is the local vector of \<open>doPendingTasks\<close>; \<open>executed\<close> and \<open>qlog\<close> record the tasks run and
  queued; \<open>early\<close> records that the loop's own thread queued a task before it entered \<open>loop()\<close>;
  \<open>quits\<close> counts completed calls of \<open>quit\<close>.
\<close>

record ('t, 'k) lsys =
  evl :: "('t, 'k) eventloop"
  pc :: loop_pc
  batch :: "'t list"
  ext :: "int \<Rightarrow> ext_pc"
  executed :: "'t list"
  qlog :: "'t list"
  early :: bool
  quits :: nat

definition lsys_init :: "'k eventfd \<Rightarrow> ('t, 'k) lsys \<Rightarrow> bool" where
  "lsys_init e s \<longleftrightarrow>
     pc s = BeforeLoop \<and> pendingTasks (evl s) = [] \<and> \<not> doingPendingTasks (evl s) \<and>
     \<not> quit_flag (evl s) \<and> \<not> efd_readable e (wakeupfd (evl s)) \<and> batch s = [] \<and>
     ext s = (\<lambda>_. Idle) \<and> executed s = [] \<and> qlog s = [] \<and> \<not> early s \<and> quits s = 0"

inductive loop_step :: "'k eventfd \<Rightarrow> ('t, 'k) lsys \<Rightarrow> ('t, 'k) lsys \<Rightarrow> bool" for e :: "'k eventfd" where
  ext_push: "i \<noteq> tid (evl s) \<Longrightarrow> ext s i = Idle \<Longrightarrow>
    loop_step e s (s\<lparr>evl := push_task t (evl s), ext := (ext s)(i := Pushed), qlog := qlog s @ [t]\<rparr>)"
| ext_wake: "ext s i = Pushed \<Longrightarrow>
    loop_step e s (s\<lparr>evl := wake_check e i (evl s), ext := (ext s)(i := Idle)\<rparr>)"
| ext_quit: "i \<noteq> tid (evl s) \<Longrightarrow> ext s i = Idle \<Longrightarrow>
    loop_step e s (s\<lparr>evl := set_quit (evl s), ext := (ext s)(i := QuitSet)\<rparr>)"
| ext_quit_wake: "ext s i = QuitSet \<Longrightarrow>
    loop_step e s (s\<lparr>evl := wakeup e (evl s), ext := (ext s)(i := Idle), quits := Suc (quits s)\<rparr>)"
| early_queue: "pc s = BeforeLoop \<Longrightarrow>
    loop_step e s (s\<lparr>evl := queueInLoop e (tid (evl s)) t (evl s), qlog := qlog s @ [t], early := True\<rparr>)"
| enter: "pc s = BeforeLoop \<Longrightarrow>
    loop_step e s (s\<lparr>evl := (evl s)\<lparr>quit_flag := False\<rparr>, pc := LoopTest\<rparr>)"
| test_go: "pc s = LoopTest \<Longrightarrow> \<not> quit_flag (evl s) \<Longrightarrow> loop_step e s (s\<lparr>pc := AtPoll\<rparr>)"
| test_stop: "pc s = LoopTest \<Longrightarrow> quit_flag (evl s) \<Longrightarrow> loop_step e s (s\<lparr>pc := Stopped\<rparr>)"
| poll_wake: "pc s = AtPoll \<Longrightarrow> efd_readable e (wakeupfd (evl s)) \<Longrightarrow>
    loop_step e s (s\<lparr>pc := Dispatching True\<rparr>)"
| poll_other: "pc s = AtPoll \<Longrightarrow> loop_step e s (s\<lparr>pc := Dispatching False\<rparr>)"
| drain: "pc s = Dispatching True \<Longrightarrow>
    loop_step e s (s\<lparr>evl := handleRead_loop e (evl s), pc := Dispatching False\<rparr>)"
| dispatch_queue: "pc s = Dispatching b \<Longrightarrow>
    loop_step e s (s\<lparr>evl := queueInLoop e (tid (evl s)) t (evl s), qlog := qlog s @ [t]\<rparr>)"
| dispatch_quit: "pc s = Dispatching b \<Longrightarrow>
    loop_step e s (s\<lparr>evl := quit e (tid (evl s)) (evl s), quits := Suc (quits s)\<rparr>)"
| swap: "pc s = Dispatching False \<Longrightarrow>
    loop_step e s (s\<lparr>batch := fst (take_batch (evl s)), evl := snd (take_batch (evl s)), pc := Swapped\<rparr>)"
| start_tasks: "pc s = Swapped \<Longrightarrow>
    loop_step e s (s\<lparr>evl := (evl s)\<lparr>doingPendingTasks := True\<rparr>, pc := RunningTasks\<rparr>)"
| run_task: "pc s = RunningTasks \<Longrightarrow> batch s = t # ts \<Longrightarrow>
    loop_step e s (s\<lparr>batch := ts, executed := executed s @ [t]\<rparr>)"
| task_queue: "pc s = RunningTasks \<Longrightarrow>
    loop_step e s (s\<lparr>evl := queueInLoop e (tid (evl s)) t (evl s), qlog := qlog s @ [t]\<rparr>)"
| task_quit: "pc s = RunningTasks \<Longrightarrow>
    loop_step e s (s\<lparr>evl := quit e (tid (evl s)) (evl s), quits := Suc (quits s)\<rparr>)"
| end_tasks: "pc s = RunningTasks \<Longrightarrow> batch s = [] \<Longrightarrow>
    loop_step e s (s\<lparr>evl := (evl s)\<lparr>doingPendingTasks := False\<rparr>, pc := LoopTest\<rparr>)"

text \<open>The invariant behind the properties: what is known at each point of the loop.\<close>

definition loop_inv :: "'k eventfd \<Rightarrow> ('t, 'k) lsys \<Rightarrow> bool" where
  "loop_inv e s \<longleftrightarrow>
     qlog s = executed s @ batch s @ pendingTasks (evl s) \<and>
     (pc s \<noteq> Swapped \<and> pc s \<noteq> RunningTasks \<longrightarrow> batch s = []) \<and>
     (doingPendingTasks (evl s) \<longleftrightarrow> pc s = RunningTasks) \<and>
     (\<forall>i. ext s i = Pushed \<longrightarrow> i \<noteq> tid (evl s)) \<and>
     ((\<forall>b. pc s \<noteq> Dispatching b) \<longrightarrow> pendingTasks (evl s) \<noteq> [] \<longrightarrow> \<not> early s \<longrightarrow>
        efd_readable e (wakeupfd (evl s)) \<or> (\<exists>i. ext s i = Pushed))"

section \<open>Owners of loops\<close>

locale loop_host =
  fixes lp :: "'w \<Rightarrow> ('t, 'k) eventloop"
    and upd :: "(('t, 'k) eventloop \<Rightarrow> ('t, 'k) eventloop) \<Rightarrow> 'w \<Rightarrow> 'w"
  assumes lp_upd: "lp (upd f w) = f (lp w)"
begin

text \<open>
  Assume-guarantee for a batch: if every task keeps an invariant that does not look at the queue
  or the flag, running the pending tasks keeps it.
\<close>

lemma doPendingTasks_outcome:
  assumes thread: "isInLoopThread cur (lp w)" and "I w"
    and frame: "\<And>w f. I w \<Longrightarrow> I (upd (doingPendingTasks_update f) w)"
    and batch: "\<And>w. I w \<Longrightarrow> I (upd (\<lambda>l. snd (take_batch l)) w)"
    and tasks: "\<And>t v. t \<in> set (pendingTasks (lp w)) \<Longrightarrow> I v \<Longrightarrow> outcome E I (run t v)"
  shows "outcome E I (doPendingTasks cur lp upd run w)"
proof -
  let ?w2 = "upd (doingPendingTasks_update (\<lambda>_. True)) (upd (\<lambda>l. snd (take_batch l)) w)"
  have "outcome E I (foldE run (pendingTasks (lp w)) ?w2)"
    using assms by (intro outcome_foldE) auto
  then have "outcome E (\<lambda>w. I (upd (doingPendingTasks_update (\<lambda>_. False)) w))
      (foldE run (pendingTasks (lp w)) ?w2)"
    by (rule outcome_weaken) (rule frame)
  then show ?thesis
    using thread
    by (simp add: doPendingTasks_def assertInLoopThread_def outcome_simps take_batch_def Let_def)
qed

text \<open>If the tasks queue nothing, the queue is empty afterwards and all of them ran, in order.\<close>

lemma doPendingTasks_runs:
  assumes "isInLoopThread cur (lp w)"
  shows "doPendingTasks cur lp upd run w =
         mapE (upd (doingPendingTasks_update (\<lambda>_. False)))
           (foldE run (pendingTasks (lp w))
              (upd (doingPendingTasks_update (\<lambda>_. True)) (upd (pendingTasks_update (\<lambda>_. [])) w)))"
  using assms by (simp add: doPendingTasks_def assertInLoopThread_def take_batch_def mapE_def Let_def)

end

section \<open>Lemmas\<close>

lemma eventloop_ops [simp]:
  "pendingTasks (wakeup e l) = pendingTasks l" "tid (wakeup e l) = tid l"
  "doingPendingTasks (wakeup e l) = doingPendingTasks l" "quit_flag (wakeup e l) = quit_flag l"
  "pendingTasks (handleRead_loop e l) = pendingTasks l" "tid (handleRead_loop e l) = tid l"
  "doingPendingTasks (handleRead_loop e l) = doingPendingTasks l"
  "quit_flag (handleRead_loop e l) = quit_flag l"
  "pendingTasks (push_task t l) = pendingTasks l @ [t]" "tid (push_task t l) = tid l"
  "doingPendingTasks (push_task t l) = doingPendingTasks l" "wakeupfd (push_task t l) = wakeupfd l"
  "quit_flag (push_task t l) = quit_flag l"
  "pendingTasks (set_quit l) = pendingTasks l" "tid (set_quit l) = tid l"
  "doingPendingTasks (set_quit l) = doingPendingTasks l" "wakeupfd (set_quit l) = wakeupfd l"
  "pendingTasks (wake_check e cur l) = pendingTasks l" "tid (wake_check e cur l) = tid l"
  "doingPendingTasks (wake_check e cur l) = doingPendingTasks l"
  "pendingTasks (queueInLoop e cur t l) = pendingTasks l @ [t]" "tid (queueInLoop e cur t l) = tid l"
  "doingPendingTasks (queueInLoop e cur t l) = doingPendingTasks l"
  "pendingTasks (quit e cur l) = pendingTasks l" "tid (quit e cur l) = tid l"
  "doingPendingTasks (quit e cur l) = doingPendingTasks l"
  by (simp_all add: wakeup_def handleRead_loop_def push_task_def set_quit_def wake_check_def
      queueInLoop_def quit_def Let_def)

lemma wakeup_readable: "eventfd_ok e \<Longrightarrow> efd_readable e (wakeupfd (wakeup e l))"
  by (simp add: eventfd_ok_def wakeup_def)

lemma queue_readable:
  "eventfd_ok e \<Longrightarrow> \<not> isInLoopThread cur l \<or> doingPendingTasks l \<Longrightarrow>
   efd_readable e (wakeupfd (queueInLoop e cur t l))"
  by (auto simp: queueInLoop_def wake_check_def wakeup_readable isInLoopThread_def)

lemma queue_keeps_readable:
  "eventfd_ok e \<Longrightarrow> efd_readable e (wakeupfd l) \<Longrightarrow> efd_readable e (wakeupfd (queueInLoop e cur t l))"
  by (simp add: queueInLoop_def wake_check_def wakeup_readable)

lemma quit_keeps_readable:
  "eventfd_ok e \<Longrightarrow> efd_readable e (wakeupfd l) \<Longrightarrow> efd_readable e (wakeupfd (quit e cur l))"
  by (simp add: quit_def Let_def wakeup_readable)

lemma loop_inv_init: "lsys_init e s \<Longrightarrow> loop_inv e s"
  by (auto simp: lsys_init_def loop_inv_def)

lemma loop_inv_step:
  assumes ok: "eventfd_ok e" and "loop_inv e s" and step: "loop_step e s t"
  shows "loop_inv e t"
  using step assms(2)
proof (cases rule: loop_step.cases)
  case (ext_wake i)
  then have "i \<noteq> tid (evl s)" using assms(2) by (auto simp: loop_inv_def)
  then have "efd_readable e (wakeupfd (wake_check e i (evl s)))"
    using ok by (simp add: wake_check_def isInLoopThread_def wakeup_readable)
  then show ?thesis using ext_wake assms(2) by (auto simp: loop_inv_def)
next
  case (ext_quit_wake i)
  then show ?thesis using assms(2) wakeup_readable [OF ok] by (auto simp: loop_inv_def)
next
  case (task_queue u)
  then have "efd_readable e (wakeupfd (queueInLoop e (tid (evl s)) u (evl s)))"
    using ok assms(2) by (intro queue_readable) (auto simp: loop_inv_def)
  then show ?thesis using task_queue assms(2) by (auto simp: loop_inv_def)
next
  case (task_quit)
  then show ?thesis using assms(2) quit_keeps_readable [OF ok] by (auto simp: loop_inv_def)
next
  case (ext_push i u)
  then show ?thesis using assms(2) by (auto simp: loop_inv_def)
next
  case (ext_quit i)
  then have "ext t j = Pushed \<longleftrightarrow> ext s j = Pushed" for j by simp
  then show ?thesis using ext_quit assms(2) by (simp add: loop_inv_def)
next
  case (swap)
  then show ?thesis using assms(2) by (auto simp: loop_inv_def take_batch_def)
qed (auto simp: loop_inv_def)

interpretation loop_invariant:
  inductive_invariant "lsys_init e" "loop_step e" "\<lambda>s. eventfd_ok e \<longrightarrow> loop_inv e s" for e
  by unfold_locales (auto intro: loop_inv_init loop_inv_step)

text \<open>Running the whole batch, as steps of the loop's thread.\<close>

lemma run_batch:
  "pc s = RunningTasks \<Longrightarrow>
   (loop_step e)\<^sup>*\<^sup>* s (s\<lparr>batch := [], executed := executed s @ batch s\<rparr>)"
proof (induction "batch s" arbitrary: s)
  case Nil
  then have "s\<lparr>batch := [], executed := executed s @ batch s\<rparr> = s" by simp
  then show ?case by simp
next
  case (Cons t ts)
  let ?s = "s\<lparr>batch := ts, executed := executed s @ [t]\<rparr>"
  have step: "loop_step e s ?s" using Cons by (intro loop_step.run_task) simp_all
  have rest: "(loop_step e)\<^sup>*\<^sup>* ?s (?s\<lparr>batch := [], executed := executed ?s @ batch ?s\<rparr>)"
    using Cons by (intro Cons.hyps) simp_all
  have "?s\<lparr>batch := [], executed := executed ?s @ batch ?s\<rparr> =
        s\<lparr>batch := [], executed := executed s @ batch s\<rparr>"
    by (simp add: Cons.hyps(2) [symmetric])
  then show ?case using step rest by (metis converse_rtranclp_into_rtranclp)
qed

text \<open>One pass of the loop from a readable \<open>eventfd\<close>, without interference, runs everything that is pending.\<close>

lemma one_pass:
  assumes at: "pc s = AtPoll" and rd: "efd_readable e (wakeupfd (evl s))" and empty: "batch s = []"
  shows "\<exists>t. (loop_step e)\<^sup>*\<^sup>* s t \<and> pc t = LoopTest \<and> pendingTasks (evl t) = [] \<and>
             executed t = executed s @ pendingTasks (evl s)"
proof -
  let ?s1 = "s\<lparr>pc := Dispatching True\<rparr>"
  let ?s2 = "?s1\<lparr>evl := handleRead_loop e (evl ?s1), pc := Dispatching False\<rparr>"
  let ?s3 = "?s2\<lparr>batch := fst (take_batch (evl ?s2)), evl := snd (take_batch (evl ?s2)), pc := Swapped\<rparr>"
  let ?s4 = "?s3\<lparr>evl := (evl ?s3)\<lparr>doingPendingTasks := True\<rparr>, pc := RunningTasks\<rparr>"
  let ?s5 = "?s4\<lparr>batch := [], executed := executed ?s4 @ batch ?s4\<rparr>"
  let ?s6 = "?s5\<lparr>evl := (evl ?s5)\<lparr>doingPendingTasks := False\<rparr>, pc := LoopTest\<rparr>"
  have "loop_step e s ?s1" using at rd by (rule loop_step.poll_wake)
  moreover have "loop_step e ?s1 ?s2" by (intro loop_step.drain) simp
  moreover have "loop_step e ?s2 ?s3" by (intro loop_step.swap) simp
  moreover have "loop_step e ?s3 ?s4" by (intro loop_step.start_tasks) simp
  moreover have "(loop_step e)\<^sup>*\<^sup>* ?s4 ?s5" by (intro run_batch) simp
  moreover have "loop_step e ?s5 ?s6" by (intro loop_step.end_tasks) simp_all
  ultimately have "(loop_step e)\<^sup>*\<^sup>* s ?s6"
    by (meson converse_rtranclp_into_rtranclp rtranclp.rtrancl_into_rtrancl)
  then show ?thesis
    by (intro exI [of _ ?s6]) (simp add: take_batch_def)
qed

section \<open>Properties\<close>

text \<open>C9: Tasks run exactly once and in the order they were queued. Whatever the interleaving of the loop
  with other threads, the tasks queued so far are the tasks already run, followed by the rest of
  the batch being run, followed by the pending queue.\<close>

theorem tasks_once_in_order:
  assumes "eventfd_ok e" and "reach (lsys_init e) (loop_step e) s"
  shows "qlog s = executed s @ batch s @ pendingTasks (evl s)"
  using loop_invariant.reachable_inv [OF assms(2)] assms(1) by (simp add: loop_inv_def)

text \<open>A counter as the kernel keeps it for an \<open>eventfd\<close>.\<close>

definition counter_efd :: "nat eventfd" where
  "counter_efd = \<lparr>efd_write = (\<lambda>c. (8, Suc c)), efd_read = (\<lambda>c. (8, 0)), efd_readable = (\<lambda>c. 0 < c)\<rparr>"

lemma counter_efd_ok: "eventfd_ok counter_efd"
  by (simp add: eventfd_ok_def counter_efd_def)

definition idle_loop :: "(nat, nat) lsys" where
  "idle_loop = \<lparr>evl = \<lparr>tid = 1, quit_flag = False, doingPendingTasks = False, pendingTasks = [], wakeupfd = 0\<rparr>,
     pc = BeforeLoop, batch = [], ext = (\<lambda>_. Idle), executed = [], qlog = [], early = False, quits = 0\<rparr>"

lemma idle_loop_init: "lsys_init counter_efd idle_loop"
  by (simp add: lsys_init_def idle_loop_def counter_efd_def)

lemma reach_push:
  "reach (lsys_init counter_efd) (loop_step counter_efd)
     (idle_loop\<lparr>evl := push_task 7 (evl idle_loop), ext := (ext idle_loop)(2 := Pushed), qlog := qlog idle_loop @ [7]\<rparr>)"
proof (rule reach_from)
  show "lsys_init counter_efd idle_loop" by (rule idle_loop_init)
  show "(loop_step counter_efd)\<^sup>*\<^sup>* idle_loop (idle_loop\<lparr>evl := push_task 7 (evl idle_loop),
      ext := (ext idle_loop)(2 := Pushed), qlog := qlog idle_loop @ [7]\<rparr>)"
    by (intro r_into_rtranclp loop_step.ext_push) (simp_all add: idle_loop_def)
qed

theorem tasks_once_in_order_witness:
  "[7] = executed idle_loop @ batch idle_loop @ pendingTasks (push_task 7 (evl idle_loop))"
  using tasks_once_in_order [OF counter_efd_ok reach_push] by (simp add: idle_loop_def)

text \<open>C10: No wake-up is lost. Whenever the loop is about to wait in \<open>poll\<close> while tasks are pending and no
  other thread is between its push and its wake-up, the wait returns at once and one pass of the
  loop runs all pending tasks; the only exception is a task that the loop's own thread queued
  before it entered \<open>loop()\<close>.\<close>

theorem no_lost_wakeup:
  assumes "eventfd_ok e" and "reach (lsys_init e) (loop_step e) s"
    and "pc s = AtPoll" and "pendingTasks (evl s) \<noteq> []" and "\<forall>i. ext s i \<noteq> Pushed" and "\<not> early s"
  shows "efd_readable e (wakeupfd (evl s)) \<and>
         (\<exists>t. (loop_step e)\<^sup>*\<^sup>* s t \<and> pc t = LoopTest \<and> pendingTasks (evl t) = [] \<and> executed t = qlog s)"
proof -
  have inv: "loop_inv e s"
    using loop_invariant.reachable_inv [OF assms(2)] assms(1) by simp
  then have rd: "efd_readable e (wakeupfd (evl s))" and "batch s = []"
    using assms(3-6) by (auto simp: loop_inv_def)
  then show ?thesis
    using one_pass [OF assms(3) rd] inv by (auto simp: loop_inv_def)
qed

text \<open>The state after another thread has queued a task and woken the loop, and the loop has reached \<open>poll\<close>.\<close>

definition woken_loop :: "(nat, nat) lsys" where
  "woken_loop =
     idle_loop\<lparr>evl := (wake_check counter_efd 2 (push_task 7 (evl idle_loop)))\<lparr>quit_flag := False\<rparr>,
       qlog := [7], pc := AtPoll\<rparr>"

lemma woken_loop_steps: "(loop_step counter_efd)\<^sup>*\<^sup>* idle_loop woken_loop"
proof -
  let ?s1 = "idle_loop\<lparr>evl := push_task 7 (evl idle_loop), ext := (ext idle_loop)(2 := Pushed),
               qlog := qlog idle_loop @ [7]\<rparr>"
  let ?s2 = "?s1\<lparr>evl := wake_check counter_efd 2 (evl ?s1), ext := (ext ?s1)(2 := Idle)\<rparr>"
  let ?s3 = "?s2\<lparr>evl := (evl ?s2)\<lparr>quit_flag := False\<rparr>, pc := LoopTest\<rparr>"
  have "loop_step counter_efd idle_loop ?s1"
    by (intro loop_step.ext_push) (simp_all add: idle_loop_def)
  moreover have "loop_step counter_efd ?s1 ?s2" by (intro loop_step.ext_wake) simp
  moreover have "loop_step counter_efd ?s2 ?s3" by (intro loop_step.enter) (simp add: idle_loop_def)
  moreover have "loop_step counter_efd ?s3 (?s3\<lparr>pc := AtPoll\<rparr>)" by (intro loop_step.test_go) simp_all
  ultimately have "(loop_step counter_efd)\<^sup>*\<^sup>* idle_loop (?s3\<lparr>pc := AtPoll\<rparr>)"
    by (meson converse_rtranclp_into_rtranclp rtranclp.rtrancl_refl)
  moreover have eq: "?s3\<lparr>pc := AtPoll\<rparr> = woken_loop"
    by (simp add: woken_loop_def idle_loop_def fun_upd_idem)
  ultimately show ?thesis by (simp only: eq)
qed

theorem no_lost_wakeup_witness:
  "efd_readable counter_efd (wakeupfd (evl woken_loop)) \<and>
   (\<exists>t. (loop_step counter_efd)\<^sup>*\<^sup>* woken_loop t \<and> pc t = LoopTest \<and> pendingTasks (evl t) = [] \<and> executed t = [7])"
proof -
  have "qlog woken_loop = [7]" "pc woken_loop = AtPoll" "pendingTasks (evl woken_loop) = [7]"
    "\<forall>i. ext woken_loop i \<noteq> Pushed" "\<not> early woken_loop"
    by (simp_all add: woken_loop_def idle_loop_def)
  then show ?thesis
    using no_lost_wakeup [OF counter_efd_ok reach_from [of "lsys_init counter_efd" idle_loop,
          OF idle_loop_init woken_loop_steps]] by simp
qed

text \<open>A task queued from the loop's own thread before \<open>loop()\<close> does not wake the loop. From every
  initial state there is a run in which the task is pending, the loop waits in \<open>poll\<close>, the
  \<open>eventfd\<close> is not readable and no other thread is about to wake it: the task stays where it is
  until some unrelated event arrives.\<close>

theorem early_task_waits:
  assumes "lsys_init e s0"
  shows "\<exists>s. (loop_step e)\<^sup>*\<^sup>* s0 s \<and> pc s = AtPoll \<and> pendingTasks (evl s) = [t] \<and>
             \<not> efd_readable e (wakeupfd (evl s)) \<and> (\<forall>i. ext s i = Idle)"
proof -
  let ?s1 = "s0\<lparr>evl := queueInLoop e (tid (evl s0)) t (evl s0), qlog := qlog s0 @ [t], early := True\<rparr>"
  let ?s2 = "?s1\<lparr>evl := (evl ?s1)\<lparr>quit_flag := False\<rparr>, pc := LoopTest\<rparr>"
  let ?s3 = "?s2\<lparr>pc := AtPoll\<rparr>"
  have "loop_step e s0 ?s1" using assms by (intro loop_step.early_queue) (simp add: lsys_init_def)
  moreover have "loop_step e ?s1 ?s2" using assms by (intro loop_step.enter) (simp add: lsys_init_def)
  moreover have "loop_step e ?s2 ?s3" by (intro loop_step.test_go) simp_all
  ultimately have "(loop_step e)\<^sup>*\<^sup>* s0 ?s3"
    by (meson converse_rtranclp_into_rtranclp rtranclp.rtrancl_refl)
  moreover have "wakeupfd (queueInLoop e (tid (evl s0)) t (evl s0)) = wakeupfd (evl s0)"
    using assms by (simp add: queueInLoop_def wake_check_def isInLoopThread_def lsys_init_def)
  ultimately show ?thesis
    using assms by (intro exI [of _ ?s3]) (simp add: lsys_init_def)
qed

theorem early_task_waits_witness:
  "\<exists>s. (loop_step counter_efd)\<^sup>*\<^sup>* idle_loop s \<and> pc s = AtPoll \<and> pendingTasks (evl s) = [7] \<and>
       \<not> efd_readable counter_efd (wakeupfd (evl s)) \<and> (\<forall>i. ext s i = Idle)"
  using early_task_waits [OF idle_loop_init] by blast

text \<open>A \<open>quit\<close> that comes before the thread has entered \<open>loop()\<close> is lost. From every initial state there
  is a run in which another thread has completed its call of \<open>quit\<close>, yet the loop waits in
  \<open>poll\<close> with the flag clear, nothing to do and nobody about to wake it. This is the window between
  \<open>startLoop\<close> returning and the new thread calling \<open>loop()\<close>: \<open>EventLoopThread::stop\<close> then joins a
  thread that never ends.\<close>

theorem early_quit_lost:
  assumes ok: "eventfd_ok e" and init: "lsys_init e s0" and other: "i \<noteq> tid (evl s0)"
  shows "\<exists>s. (loop_step e)\<^sup>*\<^sup>* s0 s \<and> quits s = 1 \<and> pc s = AtPoll \<and> \<not> quit_flag (evl s) \<and>
             pendingTasks (evl s) = [] \<and> \<not> efd_readable e (wakeupfd (evl s)) \<and> (\<forall>i. ext s i = Idle)"
proof -
  let ?s1 = "s0\<lparr>evl := set_quit (evl s0), ext := (ext s0)(i := QuitSet)\<rparr>"
  let ?s2 = "?s1\<lparr>evl := wakeup e (evl ?s1), ext := (ext ?s1)(i := Idle), quits := Suc (quits ?s1)\<rparr>"
  let ?s3 = "?s2\<lparr>evl := (evl ?s2)\<lparr>quit_flag := False\<rparr>, pc := LoopTest\<rparr>"
  let ?s4 = "?s3\<lparr>pc := AtPoll\<rparr>"
  have "loop_step e s0 ?s1" using init other by (intro loop_step.ext_quit) (simp_all add: lsys_init_def)
  moreover have "loop_step e ?s1 ?s2" by (intro loop_step.ext_quit_wake) simp
  moreover have "loop_step e ?s2 ?s3" using init by (intro loop_step.enter) (simp add: lsys_init_def)
  moreover have "loop_step e ?s3 ?s4" by (intro loop_step.test_go) simp_all
  ultimately have up: "(loop_step e)\<^sup>*\<^sup>* s0 ?s4"
    by (meson converse_rtranclp_into_rtranclp rtranclp.rtrancl_refl)
  let ?s5 = "?s4\<lparr>pc := Dispatching True\<rparr>"
  let ?s6 = "?s5\<lparr>evl := handleRead_loop e (evl ?s5), pc := Dispatching False\<rparr>"
  let ?s7 = "?s6\<lparr>batch := fst (take_batch (evl ?s6)), evl := snd (take_batch (evl ?s6)), pc := Swapped\<rparr>"
  let ?s8 = "?s7\<lparr>evl := (evl ?s7)\<lparr>doingPendingTasks := True\<rparr>, pc := RunningTasks\<rparr>"
  let ?s9 = "?s8\<lparr>evl := (evl ?s8)\<lparr>doingPendingTasks := False\<rparr>, pc := LoopTest\<rparr>"
  let ?s = "?s9\<lparr>pc := AtPoll\<rparr>"
  have "loop_step e ?s4 ?s5" using wakeup_readable [OF ok] by (intro loop_step.poll_wake) simp_all
  moreover have "loop_step e ?s5 ?s6" by (intro loop_step.drain) simp
  moreover have "loop_step e ?s6 ?s7" by (intro loop_step.swap) simp
  moreover have "loop_step e ?s7 ?s8" by (intro loop_step.start_tasks) simp
  moreover have "loop_step e ?s8 ?s9"
    using init by (intro loop_step.end_tasks) (simp_all add: lsys_init_def take_batch_def)
  moreover have "loop_step e ?s9 ?s" by (intro loop_step.test_go) (simp_all add: take_batch_def)
  ultimately have "(loop_step e)\<^sup>*\<^sup>* ?s4 ?s"
    by (meson converse_rtranclp_into_rtranclp rtranclp.rtrancl_refl)
  with up have "(loop_step e)\<^sup>*\<^sup>* s0 ?s" by (rule rtranclp_trans)
  moreover have "\<not> efd_readable e (wakeupfd (evl ?s))"
    using ok by (simp add: take_batch_def handleRead_loop_def eventfd_ok_def)
  ultimately show ?thesis
    using init by (intro exI [of _ ?s]) (simp add: lsys_init_def take_batch_def)
qed

theorem early_quit_lost_witness:
  "\<exists>s. (loop_step counter_efd)\<^sup>*\<^sup>* idle_loop s \<and> quits s = 1 \<and> pc s = AtPoll \<and> \<not> quit_flag (evl s) \<and>
       \<not> efd_readable counter_efd (wakeupfd (evl s))"
  using early_quit_lost [OF counter_efd_ok idle_loop_init, of 2] by (auto simp: idle_loop_def)

end
