(* ===== verification/Inet_Address.thy ===== *)
theory Inet_Address
  imports Byte_Order
begin

text \<open>
  \<open>class InetAddress\<close> (src/InetAddress.cpp): an IPv4 socket address in the form the kernel takes,
  with its fields in network byte order. The conversions of the C library that the class calls
  (\<open>htonl\<close>, \<open>htons\<close>, \<open>inet_pton\<close>, \<open>inet_ntop\<close>, \<open>std::to_string\<close>) are modelled; the host's byte
  order is a parameter. The theory proves that printing and parsing addresses are inverse.
\<close>

section \<open>Text conversions of the C library\<close>

definition digit_char :: "nat \<Rightarrow> char" where
  "digit_char d = char_of (48 + d)"

definition char_digit :: "char \<Rightarrow> nat option" where
  "char_digit c = (let n = of_char c :: nat in if 48 \<le> n \<and> n \<le> 57 then Some (n - 48) else None)"

fun to_string :: "nat \<Rightarrow> string" where
  "to_string n = (if n < 10 then [digit_char n] else to_string (n div 10) @ [digit_char (n mod 10)])"

declare to_string.simps [simp del]

text \<open>
  \<open>inet_pton(AF_INET, ...)\<close> reads the text once: \<open>done\<close> holds the finished octets, last first,
  \<open>cur\<close> the octet being read. It accepts exactly four decimal octets without leading zeros.
\<close>

fun pton :: "nat list \<Rightarrow> nat option \<Rightarrow> string \<Rightarrow> nat list option" where
  "pton fin cur [] =
     (case cur of None \<Rightarrow> None | Some v \<Rightarrow> if length fin = 3 then Some (rev (v # fin)) else None)"
| "pton fin cur (c # cs) =
     (case char_digit c of
        Some d \<Rightarrow>
          (case cur of
             None \<Rightarrow> if 4 \<le> length fin then None else pton fin (Some d) cs
           | Some v \<Rightarrow> if v = 0 then None else if 255 < v * 10 + d then None
                       else pton fin (Some (v * 10 + d)) cs)
      | None \<Rightarrow>
          if c = CHR ''.'' then
            (case cur of
               None \<Rightarrow> None
             | Some v \<Rightarrow> if length fin = 3 then None else pton (v # fin) None cs)
          else None)"

definition inet_pton :: "string \<Rightarrow> byte list option" where
  "inet_pton s = map_option (map word_of_nat) (pton [] None s)"

fun inet_ntop :: "byte list \<Rightarrow> string" where
  "inet_ntop [] = []"
| "inet_ntop [b] = to_string (unat b)"
| "inet_ntop (b # bs) = to_string (unat b) @ CHR ''.'' # inet_ntop bs"

section \<open>The class\<close>

record sockaddr_in =
  sin_family :: nat
  sin_addr :: "32 word"
  sin_port :: "16 word"

definition AF_INET :: nat where
  "AF_INET = 2"

definition InetAddress_port :: "endian \<Rightarrow> 16 word \<Rightarrow> bool \<Rightarrow> sockaddr_in" where
  "InetAddress_port host port loopback =
     (let ip = (if loopback then 0x7f000001 else 0) in
      \<lparr>sin_family = AF_INET, sin_addr = htobe host ip, sin_port = htobe host port\<rparr>)"

definition InetAddress_ip :: "endian \<Rightarrow> string \<Rightarrow> 16 word \<Rightarrow> sockaddr_in result" where
  "InetAddress_ip host ip port =
     (case inet_pton ip of
        None \<Rightarrow> Inl Exit_failure
      | Some bs \<Rightarrow>
          Inr \<lparr>sin_family = AF_INET, sin_addr = word_of_obj host bs, sin_port = htobe host port\<rparr>)"

definition InetAddress_any :: sockaddr_in where
  "InetAddress_any = \<lparr>sin_family = AF_INET, sin_addr = 0, sin_port = 0\<rparr>"

definition setAddress :: "sockaddr_in \<Rightarrow> sockaddr_in \<Rightarrow> sockaddr_in" where
  "setAddress addr a = addr"

definition getSocklen :: "sockaddr_in \<Rightarrow> nat" where
  "getSocklen a = 16"

definition toIp :: "endian \<Rightarrow> sockaddr_in \<Rightarrow> string" where
  "toIp host a = inet_ntop (obj_bytes host (sin_addr a))"

definition toPort :: "endian \<Rightarrow> sockaddr_in \<Rightarrow> 16 word" where
  "toPort host a = betoh host (sin_port a)"

definition toIpPort :: "endian \<Rightarrow> sockaddr_in \<Rightarrow> string" where
  "toIpPort host a = toIp host a @ CHR '':'' # to_string (unat (toPort host a))"

definition setInetAddr :: "sockaddr_in \<Rightarrow> nat \<Rightarrow> sockaddr_in \<Rightarrow> sockaddr_in" where
  "setInetAddr addr addr_len a = addr"

section \<open>Printing and parsing\<close>

lemma char_digit_digit_char [simp]: "d < 10 \<Longrightarrow> char_digit (digit_char d) = Some d"
  by (simp add: char_digit_def digit_char_def)

lemma char_digit_dot [simp]: "char_digit (CHR ''.'') = None"
  by (simp add: char_digit_def)

lemma to_string_length: "0 < k \<Longrightarrow> n < 10 ^ k \<Longrightarrow> length (to_string n) \<le> k"
proof (induction k arbitrary: n)
  case (Suc k)
  show ?case
  proof (cases "n < 10")
    case True
    then show ?thesis by (simp add: to_string.simps [of n])
  next
    case False
    then have "0 < k" using Suc.prems(2) by (cases k) auto
    moreover have "n div 10 < 10 ^ k" using Suc.prems(2) by (simp add: less_mult_imp_div_less mult.commute)
    ultimately show ?thesis using Suc.IH False by (simp add: to_string.simps [of n])
  qed
qed simp

lemma to_string_digits: "c \<in> set (to_string n) \<Longrightarrow> 48 \<le> (of_char c :: nat) \<and> of_char c \<le> (57 :: nat)"
proof (induction n rule: to_string.induct)
  case (1 n)
  have "48 \<le> (of_char (digit_char d) :: nat) \<and> of_char (digit_char d) \<le> (57 :: nat)" if "d < 10" for d
    using that by (simp add: digit_char_def)
  then show ?case using 1 by (auto simp: to_string.simps [of n] split: if_splits)
qed

lemma to_string_octet:
  assumes "n \<le> 255"
  shows "to_string n =
    (if n < 10 then [digit_char n]
     else if n < 100 then [digit_char (n div 10), digit_char (n mod 10)]
     else [digit_char (n div 100), digit_char (n div 10 mod 10), digit_char (n mod 10)])"
proof -
  have "n div 10 < 10" if "n < 100" using that by linarith
  moreover have "\<not> n div 10 < 10" if "\<not> n < 100" using that by linarith
  moreover have "n div 10 div 10 = n div 100" by (simp add: div_mult2_eq [symmetric])
  moreover have "n div 100 < 10" using assms by linarith
  ultimately show ?thesis
    by (simp add: to_string.simps [of n] to_string.simps [of "n div 10"] to_string.simps [of "n div 100"])
qed

lemma octet_digits:
  fixes n :: nat
  shows "n div 10 * 10 + n mod 10 = n" "n div 100 * 10 + n div 10 mod 10 = n div 10"
proof -
  show "n div 10 * 10 + n mod 10 = n" by (rule div_mult_mod_eq)
  have "n div 100 = n div 10 div 10" by (simp add: div_mult2_eq [symmetric])
  then show "n div 100 * 10 + n div 10 mod 10 = n div 10" by (simp only: div_mult_mod_eq)
qed

text \<open>Reading a printed octet.\<close>

lemma pton_octet:
  assumes n: "n \<le> 255" and fin: "length fin < 4"
  shows "pton fin None (to_string n @ rest) = pton fin (Some n) rest"
proof -
  consider (one) "n < 10" | (two) "10 \<le> n" "n < 100" | (three) "100 \<le> n" by linarith
  then show ?thesis
  proof cases
    case one
    then show ?thesis using assms by (simp add: to_string_octet)
  next
    case two
    then have "0 < n div 10" "n div 10 < 10" by linarith+
    then show ?thesis using two assms
      by (simp add: to_string_octet octet_digits)
  next
    case three
    have "0 < n div 100" "n div 100 < 10" "n div 10 \<le> 255" "0 < n div 10"
      using three n by linarith+
    then show ?thesis using three assms
      by (simp add: to_string_octet octet_digits)
  qed
qed

lemma pton_ntop4:
  "pton [] None (inet_ntop [a, b, c, d]) = Some [unat a, unat b, unat c, unat d]"
proof -
  have byte: "unat (x :: byte) \<le> 255" for x using unsigned_less [of x, where 'a = nat] by simp
  show ?thesis
    by (simp add: pton_octet byte pton_octet [where rest = "[]", simplified])
qed

lemma inet_pton_ntop: "length bs = 4 \<Longrightarrow> inet_pton (inet_ntop bs) = Some bs"
proof -
  assume "length bs = 4"
  then obtain a b c d where "bs = [a, b, c, d]"
    by (auto simp: numeral_eq_Suc length_Suc_conv)
  then show ?thesis by (simp add: inet_pton_def pton_ntop4 del: inet_ntop.simps)
qed

lemma pton_length: "pton fin cur s = Some vs \<Longrightarrow> length vs = 4"
  by (induction fin cur s rule: pton.induct) (auto split: option.splits if_splits)

lemma word_of_obj_obj_bytes:
  "8 dvd LENGTH('a) \<Longrightarrow> word_of_obj host (obj_bytes host (w :: 'a::len word)) = w"
  by (cases host) (simp_all add: word_of_obj_def obj_bytes_def)

lemma betoh_htobe: "8 dvd LENGTH('a) \<Longrightarrow> betoh host (htobe host (w :: 'a::len word)) = w"
  by (cases host) (simp_all add: betoh_def htobe_def bswap_def)

lemma htobe_betoh: "8 dvd LENGTH('a) \<Longrightarrow> htobe host (betoh host (w :: 'a::len word)) = w"
  by (cases host) (simp_all add: betoh_def htobe_def bswap_def)

lemma length_obj_bytes: "length (obj_bytes host (w :: 'a::len word)) = LENGTH('a) div 8"
  by (cases host) (simp_all add: obj_bytes_def)

section \<open>Properties\<close>

text \<open>C24: An address survives being printed and parsed. The text and the port that \<open>toIp\<close> and \<open>toPort\<close>
  give for any IPv4 address are accepted by the constructor, which rebuilds the same address, on
  hosts of either byte order; the constructor's port is what \<open>toPort\<close> returns.\<close>

theorem inet_address_roundtrip:
  assumes "sin_family a = AF_INET"
  shows "InetAddress_ip host (toIp host a) (toPort host a) = Inr a \<and>
         toPort host (InetAddress_port host port loopback) = port"
proof -
  have "inet_pton (toIp host a) = Some (obj_bytes host (sin_addr a))"
    by (simp add: toIp_def inet_pton_ntop length_obj_bytes)
  then show ?thesis
    using assms
    by (simp add: InetAddress_ip_def toPort_def InetAddress_port_def word_of_obj_obj_bytes
        htobe_betoh betoh_htobe)
qed

theorem inet_address_roundtrip_witness:
  "InetAddress_ip Little (toIp Little (InetAddress_port Little 8888 True)) (toPort Little (InetAddress_port Little 8888 True))
     = Inr (InetAddress_port Little 8888 True) \<and> toPort Little (InetAddress_port Little 8888 True) = 8888"
proof -
  have "sin_family (InetAddress_port Little 8888 True) = AF_INET"
    by (simp add: InetAddress_port_def)
  then show ?thesis by (rule inet_address_roundtrip)
qed

end
