(* ===== verification/Tcp_Connection.thy ===== *)
theory Tcp_Connection
  imports Buffer Event_Loop Inet_Address "HOL-Library.Sublist"
begin

text \<open>
  \<open>class TcpConnection\<close> (include/knetlib/TcpConnection.h, src/TcpConnection.cpp): one established
  socket with its channel, its buffers and its place in the life cycle connecting, connected,
  disconnecting, disconnected. A \<open>world\<close> is the connection together with its event loop and the
  state of the kernel, plus a record of what the code did to the outside: the bytes the kernel
  accepted, the bytes handed to \<open>sendInLoop\<close>, whether the write side was shut down, and how often
  the close callback ran. System calls are parameters (record \<open>os\<close>), and so are the user's
  callbacks (record \<open>env\<close>). Every function takes the identity of the calling thread where the
  source asks for it.
\<close>

section \<open>State\<close>

datatype conn_state = kConnecting | kConnected | kDisconnecting | kDisconnected

record conn =
  sockfd :: int
  chan :: channel
  state :: conn_state
  local_addr :: sockaddr_in
  peer_addr :: sockaddr_in
  inputBuffer :: buffer
  outputBuffer :: buffer
  highWaterMark :: nat
  ctx :: "nat option"

text \<open>The closures that the connection queues in its loop.\<close>

datatype task =
    SendTask "byte list"
  | ShutdownTask
  | ForceCloseTask
  | StopReadTask
  | StartReadTask
  | WriteCompleteTask
  | HighWaterMarkTask nat

record ('k, 'e) world =
  evloop :: "(task, 'e) eventloop"
  cn :: conn
  kern :: 'k
  sent :: "byte list"
  submitted :: "byte list"
  shutWr :: bool
  closeCalls :: nat

text \<open>The system calls on the socket; an error is an \<open>errno\<close>.\<close>

record 'k os =
  os_ctl :: "'k epoll_ctl"
  os_write :: "int \<Rightarrow> byte list \<Rightarrow> 'k \<Rightarrow> (errno + nat) \<times> 'k"
  os_readv :: "int \<Rightarrow> nat list \<Rightarrow> 'k \<Rightarrow> (errno + byte list) \<times> 'k"
  os_getsockopt :: "int \<Rightarrow> 'k \<Rightarrow> (errno + errno option) \<times> 'k"
  os_shutdown :: "int \<Rightarrow> 'k \<Rightarrow> errno option \<times> 'k"

text \<open>The \<open>std::function\<close> members; \<open>None\<close> is an empty function. \<open>ptr\<close> is the channel's address.\<close>

record ('k, 'e) env =
  os_of :: "'k os"
  efd_of :: "'e eventfd"
  ptr :: nat
  messageCallback :: "(('k, 'e) world \<Rightarrow> ('k, 'e) world result) option"
  writeCompleteCallback :: "(('k, 'e) world \<Rightarrow> ('k, 'e) world result) option"
  highWaterMarkCallback :: "(nat \<Rightarrow> ('k, 'e) world \<Rightarrow> ('k, 'e) world result) option"
  closeCallback :: "(('k, 'e) world \<Rightarrow> ('k, 'e) world result) option"

definition upd_conn :: "(conn \<Rightarrow> conn) \<Rightarrow> ('k, 'e) world \<Rightarrow> ('k, 'e) world" where
  "upd_conn f w = w\<lparr>cn := f (cn w)\<rparr>"

definition upd_chan :: "(channel \<Rightarrow> channel) \<Rightarrow> ('k, 'e) world \<Rightarrow> ('k, 'e) world" where
  "upd_chan f w = w\<lparr>cn := (cn w)\<lparr>chan := f (chan (cn w))\<rparr>\<rparr>"

definition upd_loop :: "((task, 'e) eventloop \<Rightarrow> (task, 'e) eventloop) \<Rightarrow> ('k, 'e) world \<Rightarrow> ('k, 'e) world" where
  "upd_loop f w = w\<lparr>evloop := f (evloop w)\<rparr>"

definition set_state :: "conn_state \<Rightarrow> ('k, 'e) world \<Rightarrow> ('k, 'e) world" where
  "set_state st w = upd_conn (state_update (\<lambda>_. st)) w"

definition inLoop :: "int \<Rightarrow> ('k, 'e) world \<Rightarrow> bool" where
  "inLoop cur w \<longleftrightarrow> isInLoopThread cur (evloop w)"

text \<open>A channel operation carried out on the channel member and the kernel.\<close>

definition chan_do :: "(channel \<times> 'k \<Rightarrow> (channel \<times> 'k) result) \<Rightarrow> ('k, 'e) world \<Rightarrow> ('k, 'e) world result" where
  "chan_do f w = bindE (f (chan (cn w), kern w)) (\<lambda>(ch, k). Inr (upd_chan (\<lambda>_. ch) (w\<lparr>kern := k\<rparr>)))"

definition call_opt :: "('w \<Rightarrow> 'w result) option \<Rightarrow> 'w \<Rightarrow> 'w result" where
  "call_opt cb w = (case cb of None \<Rightarrow> Inr w | Some f \<Rightarrow> f w)"

definition queue :: "('k, 'e) env \<Rightarrow> int \<Rightarrow> task \<Rightarrow> ('k, 'e) world \<Rightarrow> ('k, 'e) world" where
  "queue env cur t w = upd_loop (queueInLoop (efd_of env) cur t) w"

section \<open>Construction and setters\<close>

definition TcpConnection_new :: "int \<Rightarrow> sockaddr_in \<Rightarrow> sockaddr_in \<Rightarrow> conn result" where
  "TcpConnection_new fd lo pe =
     bindE (Buffer_new kInitialSize) (\<lambda>b1.
     bindE (Buffer_new kInitialSize) (\<lambda>b2.
     Inr \<lparr>sockfd = fd,
          chan = setErrorCallback True (setCloseCallback True
                   (setWriteCallback True (setReadCallback True (Channel_new fd)))),
          state = kConnecting, local_addr = lo, peer_addr = pe,
          inputBuffer = b1, outputBuffer = b2, highWaterMark = 0, ctx = None\<rparr>))"

text \<open>The destructor closes the descriptor in every state; it returns the descriptors to close.\<close>

definition TcpConnection_delete :: "conn \<Rightarrow> int list result" where
  "TcpConnection_delete c =
     bindE (Channel_delete (chan c)) (\<lambda>_. Inr (if sockfd c \<noteq> - 1 then [sockfd c] else []))"

definition setMessageCallback where
  "setMessageCallback cb env = env\<lparr>messageCallback := cb\<rparr>"

definition setWriteCompleteCallback where
  "setWriteCompleteCallback cb env = env\<lparr>writeCompleteCallback := cb\<rparr>"

definition setHighWaterMarkCallback where
  "setHighWaterMarkCallback cb mark env c = (env\<lparr>highWaterMarkCallback := cb\<rparr>, c\<lparr>highWaterMark := mark\<rparr>)"

definition setCloseCallback_conn where
  "setCloseCallback_conn cb env = env\<lparr>closeCallback := cb\<rparr>"

definition connected :: "('k, 'e) world \<Rightarrow> bool" where
  "connected w \<longleftrightarrow> state (cn w) = kConnected"

definition disconnected :: "('k, 'e) world \<Rightarrow> bool" where
  "disconnected w \<longleftrightarrow> state (cn w) = kDisconnected"

definition conn_name :: "endian \<Rightarrow> conn \<Rightarrow> string" where
  "conn_name host c = toIpPort host (peer_addr c) @ '' -> '' @ toIpPort host (local_addr c)"

definition setContext :: "nat option \<Rightarrow> conn \<Rightarrow> conn" where
  "setContext x c = c\<lparr>ctx := x\<rparr>"

definition connectEstablished :: "('k, 'e) env \<Rightarrow> int \<Rightarrow> nat \<Rightarrow> ('k, 'e) world \<Rightarrow> ('k, 'e) world result" where
  "connectEstablished env cur self w =
     bindE (assertE (state (cn w) = kConnecting)) (\<lambda>_.
     let w1 = upd_chan (tie_to self) (set_state kConnected w) in
     chan_do (enableRead (os_ctl (os_of env)) (inLoop cur w1) (ptr env)) w1)"

definition stateAtomicGetAndSet :: "conn_state \<Rightarrow> ('k, 'e) world \<Rightarrow> conn_state \<times> ('k, 'e) world" where
  "stateAtomicGetAndSet st w = (state (cn w), set_state st w)"

section \<open>Handlers\<close>

definition handleClose :: "('k, 'e) env \<Rightarrow> int \<Rightarrow> ('k, 'e) world \<Rightarrow> ('k, 'e) world result" where
  "handleClose env cur w =
     bindE (assertE (inLoop cur w)) (\<lambda>_.
     let currentState = state (cn w) in
     bindE (assertE (currentState = kConnected \<or> currentState = kDisconnecting)) (\<lambda>_.
     let w1 = set_state kDisconnected w in
     bindE (assertE (inLoop cur w1)) (\<lambda>_.
     bindE (chan_do (removeChannel (os_ctl (os_of env)) (inLoop cur w1) (ptr env)) w1) (\<lambda>w2.
     case closeCallback env of
       None \<Rightarrow> Inr w2
     | Some cb \<Rightarrow> cb (w2\<lparr>closeCalls := Suc (closeCalls w2)\<rparr>)))))"

text \<open>The error code is only logged.\<close>

definition handleError :: "('k, 'e) env \<Rightarrow> int \<Rightarrow> ('k, 'e) world \<Rightarrow> ('k, 'e) world result" where
  "handleError env cur w =
     bindE (assertE (inLoop cur w)) (\<lambda>_.
     handleClose env cur (w\<lparr>kern := snd (os_getsockopt (os_of env) (sockfd (cn w)) (kern w))\<rparr>))"

definition handleRead :: "('k, 'e) env \<Rightarrow> int \<Rightarrow> ('k, 'e) world \<Rightarrow> ('k, 'e) world result" where
  "handleRead env cur w =
     bindE (assertE (inLoop cur w)) (\<lambda>_.
     if state (cn w) = kDisconnected then Inr w
     else
       let b = inputBuffer (cn w);
           rd = (\<lambda>iov. fst (os_readv (os_of env) (sockfd (cn w)) iov (kern w)));
           k' = snd (os_readv (os_of env) (sockfd (cn w)) (readFd_iov b) (kern w)) in
       bindE (readFd rd b) (\<lambda>(n, savedErrno, b').
       let w1 = upd_conn (inputBuffer_update (\<lambda>_. b')) (w\<lparr>kern := k'\<rparr>) in
       if n = - 1 then handleError env cur w1
       else if n = 0 then handleClose env cur w1
       else call_opt (messageCallback env) w1))"

definition shutdownInLoop :: "('k, 'e) env \<Rightarrow> int \<Rightarrow> ('k, 'e) world \<Rightarrow> ('k, 'e) world result" where
  "shutdownInLoop env cur w =
     bindE (assertE (inLoop cur w)) (\<lambda>_.
     if state (cn w) \<noteq> kDisconnected \<and> \<not> isWriting (chan (cn w)) then
       Inr (w\<lparr>kern := snd (os_shutdown (os_of env) (sockfd (cn w)) (kern w)), shutWr := True\<rparr>)
     else Inr w)"

definition handleWrite :: "('k, 'e) env \<Rightarrow> int \<Rightarrow> ('k, 'e) world \<Rightarrow> ('k, 'e) world result" where
  "handleWrite env cur w =
     bindE (assertE (inLoop cur w)) (\<lambda>_.
     if state (cn w) = kDisconnected then Inr w
     else
       bindE (assertE (0 < readableBytes (outputBuffer (cn w)))) (\<lambda>_.
       bindE (assertE (isWriting (chan (cn w)))) (\<lambda>_.
       let out = outputBuffer (cn w);
           data = take (readableBytes out) (drop (peek out) (storage out));
           r = os_write (os_of env) (sockfd (cn w)) data (kern w);
           w1 = w\<lparr>kern := snd r\<rparr> in
       case fst r of
         Inl savedErrno \<Rightarrow>
           if savedErrno \<noteq> EAGAIN then
             (if savedErrno = EPIPE \<or> savedErrno = ECONNRESET then handleError env cur w1 else Inr w1)
           else Inr w1
       | Inr n \<Rightarrow>
           bindE (retrieve n out) (\<lambda>out'.
           let w2 = upd_conn (outputBuffer_update (\<lambda>_. out')) (w1\<lparr>sent := sent w1 @ take n data\<rparr>) in
           if readableBytes out' = 0 then
             bindE (chan_do (disableWrite (os_ctl (os_of env)) (inLoop cur w2) (ptr env)) w2) (\<lambda>w3.
             bindE (if state (cn w3) = kDisconnecting then shutdownInLoop env cur w3 else Inr w3) (\<lambda>w4.
             Inr (if writeCompleteCallback env \<noteq> None then queue env cur WriteCompleteTask w4 else w4)))
           else Inr w2))))"

section \<open>Sending and closing in the loop\<close>

text \<open>
  \<open>send_rest\<close> is the second half of \<open>sendInLoop\<close>: \<open>rest\<close> are the bytes \<open>[data + n, data + len)\<close>
  still to be sent.
\<close>

definition send_rest :: "('k, 'e) env \<Rightarrow> int \<Rightarrow> bool \<Rightarrow> byte list \<Rightarrow> ('k, 'e) world \<Rightarrow> ('k, 'e) world result" where
  "send_rest env cur faultError rest w =
     (if \<not> faultError \<and> 0 < length rest then
        let oldLen = readableBytes (outputBuffer (cn w));
            newLen = size_add oldLen (length rest);
            w1 = (if highWaterMarkCallback env \<noteq> None \<and>
                     oldLen < highWaterMark (cn w) \<and> highWaterMark (cn w) \<le> newLen
                  then queue env cur (HighWaterMarkTask newLen) w else w) in
        bindE (append_b rest (outputBuffer (cn w1))) (\<lambda>out'.
        let w2 = upd_conn (outputBuffer_update (\<lambda>_. out')) w1 in
        chan_do (enableWrite (os_ctl (os_of env)) (inLoop cur w2) (ptr env)) w2)
      else Inr w)"

definition sendInLoop :: "('k, 'e) env \<Rightarrow> int \<Rightarrow> byte list \<Rightarrow> ('k, 'e) world \<Rightarrow> ('k, 'e) world result" where
  "sendInLoop env cur data w =
     bindE (assertE (inLoop cur w)) (\<lambda>_.
     if state (cn w) = kDisconnected then Inr w
     else
       let w0 = w\<lparr>submitted := submitted w @ data\<rparr> in
       if \<not> isWriting (chan (cn w0)) then
         bindE (assertE (readableBytes (outputBuffer (cn w0)) = 0)) (\<lambda>_.
         let r = os_write (os_of env) (sockfd (cn w0)) data (kern w0);
             w1 = w0\<lparr>kern := snd r\<rparr> in
         case fst r of
           Inl e \<Rightarrow>
             if e \<noteq> EAGAIN \<and> (e = EPIPE \<or> e = ECONNRESET) then
               bindE (handleClose env cur w1) (send_rest env cur True data)
             else send_rest env cur False data w1
         | Inr n \<Rightarrow>
             let w2 = w1\<lparr>sent := sent w1 @ take n data\<rparr>;
                 w3 = (if length data - n = 0 \<and> writeCompleteCallback env \<noteq> None
                       then queue env cur WriteCompleteTask w2 else w2) in
             send_rest env cur False (drop n data) w3)
       else send_rest env cur False data w0)"

definition forceCloseInLoop :: "('k, 'e) env \<Rightarrow> int \<Rightarrow> ('k, 'e) world \<Rightarrow> ('k, 'e) world result" where
  "forceCloseInLoop env cur w =
     bindE (assertE (inLoop cur w)) (\<lambda>_.
     if state (cn w) \<noteq> kDisconnected then handleClose env cur w else Inr w)"

definition stopReadInLoop :: "('k, 'e) env \<Rightarrow> int \<Rightarrow> ('k, 'e) world \<Rightarrow> ('k, 'e) world result" where
  "stopReadInLoop env cur w =
     (if isReading (chan (cn w))
      then chan_do (disableRead (os_ctl (os_of env)) (inLoop cur w) (ptr env)) w else Inr w)"

definition startReadInLoop :: "('k, 'e) env \<Rightarrow> int \<Rightarrow> ('k, 'e) world \<Rightarrow> ('k, 'e) world result" where
  "startReadInLoop env cur w =
     (if \<not> isReading (chan (cn w))
      then chan_do (enableRead (os_ctl (os_of env)) (inLoop cur w) (ptr env)) w else Inr w)"

fun run_task :: "('k, 'e) env \<Rightarrow> int \<Rightarrow> task \<Rightarrow> ('k, 'e) world \<Rightarrow> ('k, 'e) world result" where
  "run_task env cur (SendTask d) w = sendInLoop env cur d w"
| "run_task env cur ShutdownTask w = shutdownInLoop env cur w"
| "run_task env cur ForceCloseTask w = forceCloseInLoop env cur w"
| "run_task env cur StopReadTask w = stopReadInLoop env cur w"
| "run_task env cur StartReadTask w = startReadInLoop env cur w"
| "run_task env cur WriteCompleteTask w = call_opt (writeCompleteCallback env) w"
| "run_task env cur (HighWaterMarkTask n) w =
     (case highWaterMarkCallback env of None \<Rightarrow> Inr w | Some cb \<Rightarrow> cb n w)"

section \<open>The public interface\<close>

definition send :: "('k, 'e) env \<Rightarrow> int \<Rightarrow> byte list \<Rightarrow> ('k, 'e) world \<Rightarrow> ('k, 'e) world result" where
  "send env cur data w =
     (if state (cn w) \<noteq> kConnected then Inr w
      else if inLoop cur w then sendInLoop env cur data w
      else Inr (queue env cur (SendTask data) w))"

definition send_buffer ::
  "('k, 'e) env \<Rightarrow> int \<Rightarrow> buffer \<Rightarrow> ('k, 'e) world \<Rightarrow> (buffer \<times> ('k, 'e) world) result" where
  "send_buffer env cur b w =
     (if state (cn w) \<noteq> kConnected then Inr (b, w)
      else if inLoop cur w then
        bindE (sendInLoop env cur (take (readableBytes b) (drop (peek b) (storage b))) w)
          (\<lambda>w'. Inr (retrieveAll b, w'))
      else
        bindE (retrieveAllAsString b) (\<lambda>(str, b'). Inr (b', queue env cur (SendTask str) w)))"

definition shutdown :: "('k, 'e) env \<Rightarrow> int \<Rightarrow> ('k, 'e) world \<Rightarrow> ('k, 'e) world result" where
  "shutdown env cur w =
     bindE (assertE (state (cn w) \<noteq> kDisconnected)) (\<lambda>_.
     let (old, w1) = stateAtomicGetAndSet kDisconnecting w in
     if old = kConnected then
       (if inLoop cur w1 then shutdownInLoop env cur w1 else Inr (queue env cur ShutdownTask w1))
     else Inr w1)"

definition forceClose :: "('k, 'e) env \<Rightarrow> int \<Rightarrow> ('k, 'e) world \<Rightarrow> ('k, 'e) world result" where
  "forceClose env cur w =
     (if state (cn w) \<noteq> kDisconnected then
        let (old, w1) = stateAtomicGetAndSet kDisconnecting w in
        if old \<noteq> kDisconnected then
          (if inLoop cur w1 then forceCloseInLoop env cur w1
           else Inr (queue env cur ForceCloseTask w1))
        else Inr w1
      else Inr w)"

definition stopRead :: "('k, 'e) env \<Rightarrow> int \<Rightarrow> ('k, 'e) world \<Rightarrow> ('k, 'e) world result" where
  "stopRead env cur w = runInLoop (efd_of env) cur evloop upd_loop (run_task env cur) StopReadTask w"

definition startRead :: "('k, 'e) env \<Rightarrow> int \<Rightarrow> ('k, 'e) world \<Rightarrow> ('k, 'e) world result" where
  "startRead env cur w = runInLoop (efd_of env) cur evloop upd_loop (run_task env cur) StartReadTask w"

text \<open>What the channel's callbacks do, and one event on the channel.\<close>

fun conn_callback :: "('k, 'e) env \<Rightarrow> int \<Rightarrow> callback \<Rightarrow> ('k, 'e) world \<Rightarrow> ('k, 'e) world result" where
  "conn_callback env cur ReadCb w = handleRead env cur w"
| "conn_callback env cur WriteCb w = handleWrite env cur w"
| "conn_callback env cur CloseCb w = handleClose env cur w"
| "conn_callback env cur ErrorCb w = handleError env cur w"

definition conn_handleEvents :: "('k, 'e) env \<Rightarrow> int \<Rightarrow> (nat \<Rightarrow> bool) \<Rightarrow> ('k, 'e) world \<Rightarrow> ('k, 'e) world result" where
  "conn_handleEvents env cur alive w =
     handleEvents (inLoop cur w) alive (\<lambda>w. chan (cn w)) upd_chan (conn_callback env cur) w"

interpretation conn_channel: channel_host "\<lambda>w. chan (cn w)" upd_chan
  by unfold_locales (simp add: upd_chan_def)

interpretation conn_loop: loop_host evloop upd_loop
  by unfold_locales (simp add: upd_loop_def)

end
