(* ===== verification/Tcp_Connection_Safety.thy ===== *)
theory Tcp_Connection_Safety
  imports Tcp_Connection
begin

text \<open>
  What the life of a \<open>TcpConnection\<close> guarantees. \<open>conn_inv\<close> ties the state of the connection to
  its channel, its buffers, the kernel's interest list and the record of what was sent. The locale
  \<open>conn_client\<close> is the contract with the code around the connection: the system calls behave as
  documented and each user callback keeps the invariant when it is entered with it, which every
  callback built from the public operations does. Inside it each handler and operation is shown to
  keep the invariant, with \<open>std::length_error\<close> as the only way to stop.
\<close>

unbundle bit_operations_syntax

section \<open>Invariant and contract\<close>

definition os_ok :: "'k os \<Rightarrow> ('k \<Rightarrow> int \<rightharpoonup> epoll_event) \<Rightarrow> bool" where
  "os_ok os interest \<longleftrightarrow>
     epoll_ctl_ok (os_ctl os) interest \<and>
     (\<forall>f d k. interest (snd (os_write os f d k)) = interest k) \<and>
     (\<forall>f d k n. fst (os_write os f d k) = Inr n \<longrightarrow> n \<le> length d) \<and>
     (\<forall>f v k. interest (snd (os_readv os f v k)) = interest k) \<and>
     (\<forall>f k. readv_ok (\<lambda>v. fst (os_readv os f v k))) \<and>
     (\<forall>f k. interest (snd (os_getsockopt os f k)) = interest k) \<and>
     (\<forall>f k. interest (snd (os_shutdown os f k)) = interest k)"

text \<open>
  Tasks queued so far: data fits a string, and \<open>stopRead\<close> and \<open>startRead\<close> are not deferred
  (a deferred one can run after the connection was closed, see \<open>read_switch_revives\<close>).
\<close>

fun task_ok :: "task \<Rightarrow> bool" where
  "task_ok (SendTask d) \<longleftrightarrow> length d \<le> max_size"
| "task_ok StopReadTask \<longleftrightarrow> False"
| "task_ok StartReadTask \<longleftrightarrow> False"
| "task_ok _ \<longleftrightarrow> True"

definition conn_base :: "('k \<Rightarrow> int \<rightharpoonup> epoll_event) \<Rightarrow> ('k, 'e) env \<Rightarrow> int \<Rightarrow> ('k, 'e) world \<Rightarrow> bool" where
  "conn_base interest env cur w \<longleftrightarrow>
     tid (evloop w) = cur \<and> list_all task_ok (pendingTasks (evloop w)) \<and>
     buffer_inv (inputBuffer (cn w)) \<and> buffer_inv (outputBuffer (cn w)) \<and>
     agrees interest (ptr env) (chan (cn w), kern w) \<and> prefix (sent w) (submitted w)"

definition registered :: "('k, 'e) world \<Rightarrow> bool" where
  "registered w \<longleftrightarrow> pooling (chan (cn w)) \<and> events (chan (cn w)) AND EPOLLPRI \<noteq> 0 \<and> closeCalls w = 0"

definition live :: "('k, 'e) world \<Rightarrow> bool" where
  "live w \<longleftrightarrow> registered w \<and>
     sent w @ contents (outputBuffer (cn w)) = submitted w \<and>
     (isWriting (chan (cn w)) \<longleftrightarrow> contents (outputBuffer (cn w)) \<noteq> [])"

definition dead :: "('k, 'e) env \<Rightarrow> ('k, 'e) world \<Rightarrow> bool" where
  "dead env w \<longleftrightarrow> \<not> pooling (chan (cn w)) \<and> closeCalls w = (if closeCallback env = None then 0 else 1)"

definition conn_inv :: "('k \<Rightarrow> int \<rightharpoonup> epoll_event) \<Rightarrow> ('k, 'e) env \<Rightarrow> int \<Rightarrow> ('k, 'e) world \<Rightarrow> bool" where
  "conn_inv interest env cur w \<longleftrightarrow>
     conn_base interest env cur w \<and> state (cn w) \<noteq> kConnecting \<and>
     (state (cn w) = kDisconnected \<longrightarrow> dead env w) \<and> (state (cn w) \<noteq> kDisconnected \<longrightarrow> live w)"

text \<open>
  What an operation may do to a connection: never revive it, never stop a pending write, never touch
  what the dispatch of events looks at.
\<close>

definition follows :: "('k, 'e) world \<Rightarrow> ('k, 'e) world \<Rightarrow> bool" where
  "follows w w' \<longleftrightarrow>
     revents (chan (cn w')) = revents (chan (cn w)) \<and> hasCb (chan (cn w')) = hasCb (chan (cn w)) \<and>
     handlingEvents (chan (cn w')) = handlingEvents (chan (cn w)) \<and>
     (state (cn w) = kDisconnected \<longrightarrow> state (cn w') = kDisconnected) \<and>
     (isWriting (chan (cn w)) \<longrightarrow> isWriting (chan (cn w')) \<or> state (cn w') = kDisconnected)"

definition safe_from ::
  "('k \<Rightarrow> int \<rightharpoonup> epoll_event) \<Rightarrow> ('k, 'e) env \<Rightarrow> int \<Rightarrow> ('k, 'e) world \<Rightarrow> ('k, 'e) world result \<Rightarrow> bool" where
  "safe_from interest env cur w r \<longleftrightarrow>
     outcome {Length_error} (\<lambda>w'. conn_inv interest env cur w' \<and> follows w w') r"

definition hooks_ok :: "('k \<Rightarrow> int \<rightharpoonup> epoll_event) \<Rightarrow> ('k, 'e) env \<Rightarrow> int \<Rightarrow> bool" where
  "hooks_ok interest env cur \<longleftrightarrow> (\<forall>w. conn_inv interest env cur w \<longrightarrow>
     safe_from interest env cur w (call_opt (messageCallback env) w) \<and>
     safe_from interest env cur w (call_opt (writeCompleteCallback env) w) \<and>
     (\<forall>n. safe_from interest env cur w (call_opt (map_option (\<lambda>cb. cb n) (highWaterMarkCallback env)) w)) \<and>
     (state (cn w) = kDisconnected \<longrightarrow> safe_from interest env cur w (call_opt (closeCallback env) w)))"

section \<open>Runs of a connection\<close>

datatype api = Send "byte list" | Shutdown | ForceClose | StopRead | StartRead

fun call_api :: "('k, 'e) env \<Rightarrow> int \<Rightarrow> api \<Rightarrow> ('k, 'e) world \<Rightarrow> ('k, 'e) world result" where
  "call_api env c (Send d) w = send env c d w"
| "call_api env c Shutdown w = shutdown env c w"
| "call_api env c ForceClose w = forceClose env c w"
| "call_api env c StopRead w = stopRead env c w"
| "call_api env c StartRead w = startRead env c w"

text \<open>
  When a client may call an operation from thread \<open>c\<close>; \<open>cur\<close> is the loop's thread. \<open>shutdown\<close>
  asserts that the connection is not closed, and switching reading is meant for the loop's thread
  while the connection is not closed.
\<close>

fun api_allowed :: "int \<Rightarrow> int \<Rightarrow> api \<Rightarrow> ('k, 'e) world \<Rightarrow> bool" where
  "api_allowed cur c (Send d) w \<longleftrightarrow> length d \<le> max_size"
| "api_allowed cur c Shutdown w \<longleftrightarrow> state (cn w) \<noteq> kDisconnected"
| "api_allowed cur c ForceClose w \<longleftrightarrow> True"
| "api_allowed cur c StopRead w \<longleftrightarrow> c = cur \<and> state (cn w) \<noteq> kDisconnected"
| "api_allowed cur c StartRead w \<longleftrightarrow> c = cur \<and> state (cn w) \<noteq> kDisconnected"

text \<open>
  What the kernel may report for a registered channel: writability only if it was asked for. The
  combination of a hang-up without readable data and an error is left out, see \<open>hup_err_asserts\<close>.
\<close>

definition deliverable :: "channel \<Rightarrow> 32 word \<Rightarrow> bool" where
  "deliverable ch r \<longleftrightarrow> pooling ch \<and> (wantsWrite r \<longrightarrow> isWriting ch) \<and> \<not> (wantsClose r \<and> wantsError r)"

datatype conn_event = Events "32 word" | Tasks | Call int api

fun run_event ::
  "('k, 'e) env \<Rightarrow> int \<Rightarrow> (nat \<Rightarrow> bool) \<Rightarrow> conn_event \<Rightarrow> ('k, 'e) world \<Rightarrow> ('k, 'e) world result" where
  "run_event env cur alive (Events r) w = conn_handleEvents env cur alive (upd_chan (setRevents r) w)"
| "run_event env cur alive Tasks w = doPendingTasks cur evloop upd_loop (run_task env cur) w"
| "run_event env cur alive (Call c op) w = call_api env c op w"

fun enabled :: "int \<Rightarrow> conn_event \<Rightarrow> ('k, 'e) world \<Rightarrow> bool" where
  "enabled cur (Events r) w \<longleftrightarrow> deliverable (chan (cn w)) r"
| "enabled cur Tasks w \<longleftrightarrow> True"
| "enabled cur (Call c op) w \<longleftrightarrow> api_allowed cur c op w"

inductive conn_step :: "('k, 'e) env \<Rightarrow> int \<Rightarrow> (nat \<Rightarrow> bool) \<Rightarrow> ('k, 'e) world \<Rightarrow> ('k, 'e) world \<Rightarrow> bool"
  for env cur alive where
  conn_stepI: "enabled cur ev w \<Longrightarrow> run_event env cur alive ev w = Inr w' \<Longrightarrow> conn_step env cur alive w w'"

inductive_cases conn_stepE: "conn_step env cur alive w w'"

text \<open>A connection that was just constructed on a descriptor unknown to the poller and established.\<close>

definition conn_start :: "('k \<Rightarrow> int \<rightharpoonup> epoll_event) \<Rightarrow> ('k, 'e) env \<Rightarrow> int \<Rightarrow> ('k, 'e) world \<Rightarrow> bool" where
  "conn_start interest env cur w \<longleftrightarrow> (\<exists>f lo pe c mark w0 self.
     TcpConnection_new f lo pe = Inr c \<and> cn w0 = c\<lparr>highWaterMark := mark\<rparr> \<and>
     tid (evloop w0) = cur \<and> pendingTasks (evloop w0) = [] \<and> interest (kern w0) f = None \<and>
     sent w0 = [] \<and> submitted w0 = [] \<and> \<not> shutWr w0 \<and> closeCalls w0 = 0 \<and>
     connectEstablished env cur self w0 = Inr w)"

section \<open>The echo server's callback\<close>

text \<open>
  The message callback of examples/server.cpp: it empties the input buffer and sends the text back
  behind a prefix; concatenating beyond the size of a string throws.
\<close>

definition echo_prefix :: "byte list" where
  "echo_prefix = [69, 99, 104, 111, 58, 32]"

definition echo_message :: "('k, 'e) env \<Rightarrow> int \<Rightarrow> ('k, 'e) world \<Rightarrow> ('k, 'e) world result" where
  "echo_message env cur w =
     bindE (retrieveAllAsString (inputBuffer (cn w))) (\<lambda>(msg, b').
     if max_size < length (echo_prefix @ msg) then Inl Length_error
     else send env cur (echo_prefix @ msg) (upd_conn (inputBuffer_update (\<lambda>_. b')) w))"

text \<open>The callbacks of the example on top of the system calls and the server's close callback.\<close>

definition echo_env :: "('k, 'e) env \<Rightarrow> int \<Rightarrow> ('k, 'e) env" where
  "echo_env env cur = env\<lparr>messageCallback := Some (echo_message env cur), writeCompleteCallback := None,
     highWaterMarkCallback := None\<rparr>"

section \<open>Event masks\<close>

lemma event_bits:
  "e AND EPOLLIN \<noteq> 0 \<longleftrightarrow> bit e 0" "e AND EPOLLPRI \<noteq> 0 \<longleftrightarrow> bit e 1" "e AND EPOLLOUT \<noteq> 0 \<longleftrightarrow> bit e 2"
  using and_exp_eq_0_iff_not_bit [of e 0] and_exp_eq_0_iff_not_bit [of e 1] and_exp_eq_0_iff_not_bit [of e 2]
  by (simp_all add: epoll_consts)

lemma new_events_bits:
  "bit (new_events EnableRead e) 1" "bit (new_events EnableRead e) 2 \<longleftrightarrow> bit e 2"
  "bit (new_events EnableWrite e) 1 \<longleftrightarrow> bit e 1" "bit (new_events EnableWrite e) 2"
  "bit (new_events DisableRead e) 1 \<longleftrightarrow> bit e 1" "bit (new_events DisableRead e) 2 \<longleftrightarrow> bit e 2"
  "bit (new_events DisableWrite e) 1 \<longleftrightarrow> bit e 1" "\<not> bit (new_events DisableWrite e) 2"
  by (simp_all add: epoll_consts bit_or_iff bit_and_iff bit_not_iff)


lemma some_event: "bit (e :: 32 word) n \<Longrightarrow> e \<noteq> 0"
  by auto

section \<open>Frames\<close>

lemmas world_defs = upd_conn_def upd_chan_def upd_loop_def set_state_def inLoop_def isInLoopThread_def

lemma queue_frame [simp]:
  "cn (queue env c t w) = cn w" "kern (queue env c t w) = kern w" "sent (queue env c t w) = sent w"
  "submitted (queue env c t w) = submitted w" "shutWr (queue env c t w) = shutWr w"
  "closeCalls (queue env c t w) = closeCalls w" "tid (evloop (queue env c t w)) = tid (evloop w)"
  "pendingTasks (evloop (queue env c t w)) = pendingTasks (evloop w) @ [t]"
  by (simp_all add: queue_def upd_loop_def)

lemma follows_refl [simp]: "follows w w"
  by (simp add: follows_def)

lemma follows_trans: "follows u v \<Longrightarrow> follows v w \<Longrightarrow> follows u w"
  by (auto simp: follows_def)

lemma follows_cn: "cn w' = cn w \<Longrightarrow> follows w w'"
  by (simp add: follows_def)

lemma conn_inv_queue:
  "conn_inv interest env cur w \<Longrightarrow> task_ok t \<Longrightarrow>
   conn_inv interest env cur (queue env c t w) \<and> follows w (queue env c t w)"
  by (simp add: conn_inv_def conn_base_def live_def dead_def registered_def follows_cn)

text \<open>A system call that leaves the interest list alone leaves the invariant alone.\<close>

lemma kern_frame:
  "interest k = interest (kern w) \<Longrightarrow>
   conn_inv interest env cur (w\<lparr>kern := k\<rparr>) = conn_inv interest env cur w"
  by (simp add: conn_inv_def conn_base_def live_def dead_def registered_def agrees_def)

lemma kern_frame_shut:
  "interest k = interest (kern w) \<Longrightarrow>
   conn_inv interest env cur (w\<lparr>kern := k, shutWr := b\<rparr>) = conn_inv interest env cur w"
  by (simp add: conn_inv_def conn_base_def live_def dead_def registered_def agrees_def)

lemma flag_frame [simp]:
  "conn_inv interest env cur (upd_chan (handlingEvents_update f) w) = conn_inv interest env cur w"
  by (simp add: conn_inv_def conn_base_def live_def dead_def registered_def agrees_def world_defs isWriting_def)

lemma revents_frame [simp]:
  "conn_inv interest env cur (upd_chan (setRevents r) w) = conn_inv interest env cur w"
  by (simp add: conn_inv_def conn_base_def live_def dead_def registered_def agrees_def world_defs
      isWriting_def setRevents_def)

lemma conn_inv_inLoop: "conn_inv interest env cur w \<Longrightarrow> inLoop cur w"
  by (simp add: conn_inv_def conn_base_def world_defs)

text \<open>A live connection sends: what is left after the kernel took \<open>n\<close> bytes, and the branches of \<open>sendInLoop\<close>.\<close>

definition wrote :: "('k, 'e) env \<Rightarrow> int \<Rightarrow> byte list \<Rightarrow> nat \<Rightarrow> ('k, 'e) world \<Rightarrow> ('k, 'e) world" where
  "wrote env cur data n w =
     (let w2 = w\<lparr>sent := sent w @ take n data\<rparr> in
      if length data - n = 0 \<and> writeCompleteCallback env \<noteq> None then queue env cur WriteCompleteTask w2 else w2)"

lemma wrote_frame [simp]:
  "cn (wrote env cur data n w) = cn w" "kern (wrote env cur data n w) = kern w" "sent (wrote env cur data n w) = sent w @ take n data"
  "submitted (wrote env cur data n w) = submitted w" "closeCalls (wrote env cur data n w) = closeCalls w"
  "tid (evloop (wrote env cur data n w)) = tid (evloop w)"
  "pendingTasks (evloop (wrote env cur data n w)) =
     pendingTasks (evloop w) @ (if length data - n = 0 \<and> writeCompleteCallback env \<noteq> None then [WriteCompleteTask] else [])"
  by (simp_all add: wrote_def Let_def)

lemma idle_output:
  assumes "conn_inv interest env cur w" and "state (cn w) \<noteq> kDisconnected" and "\<not> isWriting (chan (cn w))"
  shows "contents (outputBuffer (cn w)) = []" "readableBytes (outputBuffer (cn w)) = 0"
proof -
  show c: "contents (outputBuffer (cn w)) = []" using assms by (simp add: conn_inv_def live_def)
  have "buffer_inv (outputBuffer (cn w))" using assms(1) by (simp add: conn_inv_def conn_base_def)
  from length_contents [OF this] show "readableBytes (outputBuffer (cn w)) = 0" using c by simp
qed

lemma sendInLoop_cases:
  assumes "conn_inv interest env cur w" and "state (cn w) \<noteq> kDisconnected"
  shows "sendInLoop env cur data w =
     (let w0 = w\<lparr>submitted := submitted w @ data\<rparr>;
          r = os_write (os_of env) (sockfd (cn w)) data (kern w);
          w1 = w0\<lparr>kern := snd r\<rparr> in
      if isWriting (chan (cn w)) then send_rest env cur False data w0
      else case fst r of
        Inl e \<Rightarrow> if e = EPIPE \<or> e = ECONNRESET then bindE (handleClose env cur w1) (send_rest env cur True data)
                 else send_rest env cur False data w1
      | Inr n \<Rightarrow> send_rest env cur False (drop n data) (wrote env cur data n w1))"
  using assms idle_output(2) [OF assms]
  by (auto simp: sendInLoop_def conn_inv_inLoop wrote_def Let_def split: sum.splits)

lemma safe_fromI:
  "outcome {Length_error} (\<lambda>w'. conn_inv interest env cur w' \<and> follows w w') r \<Longrightarrow> safe_from interest env cur w r"
  by (simp add: safe_from_def)

lemma safe_from_trans:
  "follows u w \<Longrightarrow> safe_from interest env cur w r \<Longrightarrow> safe_from interest env cur u r"
  unfolding safe_from_def by (erule outcome_weaken) (auto intro: follows_trans)

lemma run_op_fun:
  "run_op ctl b p EnableRead = enableRead ctl b p" "run_op ctl b p EnableWrite = enableWrite ctl b p"
  "run_op ctl b p DisableRead = disableRead ctl b p" "run_op ctl b p DisableWrite = disableWrite ctl b p"
  by (simp_all add: fun_eq_iff)

text \<open>A registration operation on the channel of a live connection.\<close>

lemma chan_op:
  assumes "epoll_ctl_ok ctl interest" and "agrees interest p (chan (cn w), kern w)"
    and "pooling (chan (cn w)) \<or> new_events x (events (chan (cn w))) \<noteq> 0"
  shows "\<exists>k. chan_do (run_op ctl True p x) w =
      Inr (upd_chan (\<lambda>ch. ch\<lparr>events := new_events x (events ch), pooling := new_events x (events ch) \<noteq> 0\<rparr>) (w\<lparr>kern := k\<rparr>)) \<and>
      agrees interest p ((chan (cn w))\<lparr>events := new_events x (events (chan (cn w))),
        pooling := new_events x (events (chan (cn w))) \<noteq> 0\<rparr>, k)"
  using update_agrees [OF assms] by (auto simp: chan_do_def run_op_update upd_chan_def)

section \<open>The handlers keep the invariant\<close>

locale conn_client =
  fixes interest :: "'k \<Rightarrow> int \<rightharpoonup> epoll_event" and env :: "('k, 'e) env" and cur :: int
  assumes os: "os_ok (os_of env) interest"
    and hooks: "hooks_ok interest env cur"
begin

abbreviation inv :: "('k, 'e) world \<Rightarrow> bool" where
  "inv \<equiv> conn_inv interest env cur"

abbreviation safe :: "('k, 'e) world \<Rightarrow> ('k, 'e) world result \<Rightarrow> bool" where
  "safe \<equiv> safe_from interest env cur"

lemma ctl: "epoll_ctl_ok (os_ctl (os_of env)) interest"
  using os by (simp add: os_ok_def)

lemma sys_interest [simp]:
  "interest (snd (os_write (os_of env) f d k)) = interest k"
  "interest (snd (os_readv (os_of env) f v k)) = interest k"
  "interest (snd (os_getsockopt (os_of env) f k)) = interest k"
  "interest (snd (os_shutdown (os_of env) f k)) = interest k"
  using os by (simp_all add: os_ok_def)

lemma write_count: "fst (os_write (os_of env) f d k) = Inr n \<Longrightarrow> n \<le> length d"
  using os by (simp add: os_ok_def)

lemma hook_safe:
  assumes "inv w"
  shows "safe w (call_opt (messageCallback env) w)" "safe w (call_opt (writeCompleteCallback env) w)"
    "safe w (call_opt (map_option (\<lambda>cb. cb n) (highWaterMarkCallback env)) w)"
    "state (cn w) = kDisconnected \<Longrightarrow> safe w (call_opt (closeCallback env) w)"
  using hooks assms by (simp_all add: hooks_ok_def)

text \<open>Closing needs less than the invariant: data may be neither sent nor stored.\<close>

definition closable :: "('k, 'e) world \<Rightarrow> bool" where
  "closable w \<longleftrightarrow> conn_base interest env cur w \<and> closeCalls w = 0 \<and>
     (state (cn w) = kConnected \<or> state (cn w) = kDisconnecting)"

lemma inv_closable: "inv w \<Longrightarrow> state (cn w) \<noteq> kDisconnected \<Longrightarrow> closable w"
  by (cases "state (cn w)") (auto simp: conn_inv_def closable_def live_def registered_def)

lemma close_result:
  assumes "closable w"
  shows "\<exists>k. chan_do (removeChannel (os_ctl (os_of env)) True (ptr env)) (set_state kDisconnected w) =
           Inr (upd_chan (pooling_update (\<lambda>_. False)) (set_state kDisconnected (w\<lparr>kern := k\<rparr>))) \<and>
         inv (upd_chan (pooling_update (\<lambda>_. False)) (set_state kDisconnected (w\<lparr>kern := k\<rparr>))
                \<lparr>closeCalls := (if closeCallback env = None then closeCalls w else Suc (closeCalls w))\<rparr>)"
proof -
  have "agrees interest (ptr env) (chan (cn w), kern w)"
    using assms by (simp add: closable_def conn_base_def)
  from removeChannel_agrees [OF ctl this] obtain k where
    k: "removeChannel (os_ctl (os_of env)) True (ptr env) (chan (cn w), kern w) =
          Inr ((chan (cn w))\<lparr>pooling := False\<rparr>, k)"
      "agrees interest (ptr env) ((chan (cn w))\<lparr>pooling := False\<rparr>, k)" by blast
  then show ?thesis using assms
    by (intro exI [of _ k])
      (simp add: chan_do_def world_defs closable_def conn_inv_def conn_base_def dead_def)
qed

lemma handleClose_outcome:
  assumes "closable w"
  shows "outcome {Length_error} (\<lambda>w'. inv w' \<and> follows w w' \<and> state (cn w') = kDisconnected) (handleClose env cur w)"
proof -
  obtain k where k: "chan_do (removeChannel (os_ctl (os_of env)) True (ptr env)) (set_state kDisconnected w) =
           Inr (upd_chan (pooling_update (\<lambda>_. False)) (set_state kDisconnected (w\<lparr>kern := k\<rparr>)))"
      "inv (upd_chan (pooling_update (\<lambda>_. False)) (set_state kDisconnected (w\<lparr>kern := k\<rparr>))
                \<lparr>closeCalls := (if closeCallback env = None then closeCalls w else Suc (closeCalls w))\<rparr>)"
      (is "inv ?w1")
    using close_result [OF assms] by blast
  have thread: "inLoop cur w" "inLoop cur (set_state kDisconnected w)"
    using assms by (simp_all add: closable_def conn_base_def world_defs)
  have f: "follows w ?w1" "state (cn ?w1) = kDisconnected"
    by (simp_all add: follows_def world_defs isWriting_def)
  have "handleClose env cur w = call_opt (closeCallback env) ?w1"
    using assms thread k(1)
    by (cases "closeCallback env") (simp_all add: closable_def handleClose_def call_opt_def world_defs)
  moreover have "safe ?w1 (call_opt (closeCallback env) ?w1)"
    using k(2) f(2) by (rule hook_safe)
  ultimately show ?thesis
    using f unfolding safe_from_def by (auto elim!: outcome_weaken intro: follows_trans simp: follows_def)
qed

lemma closable_safe: "closable w \<Longrightarrow> safe w (handleClose env cur w)"
  unfolding safe_from_def by (drule handleClose_outcome) (auto elim: outcome_weaken)

lemma handleClose_safe_from:
  "inv w \<Longrightarrow> state (cn w) \<noteq> kDisconnected \<Longrightarrow> safe w (handleClose env cur w)"
  by (intro closable_safe inv_closable)

lemma handleError_safe:
  assumes "inv w" and "state (cn w) \<noteq> kDisconnected"
  shows "safe w (handleError env cur w)"
proof -
  let ?w = "w\<lparr>kern := snd (os_getsockopt (os_of env) (sockfd (cn w)) (kern w))\<rparr>"
  have "inv ?w" using assms(1) by (simp add: kern_frame)
  then have "safe ?w (handleClose env cur ?w)" using assms(2) by (simp add: handleClose_safe_from)
  then have "safe w (handleClose env cur ?w)" by (rule safe_from_trans [rotated]) (simp add: follows_cn)
  then show ?thesis using assms(1) by (simp add: handleError_def conn_inv_inLoop)
qed

lemma shutdownInLoop_result:
  "inv w \<Longrightarrow> \<exists>w'. shutdownInLoop env cur w = Inr w' \<and> inv w' \<and> follows w w' \<and> cn w' = cn w"
  by (simp add: shutdownInLoop_def conn_inv_inLoop kern_frame_shut follows_cn)

lemma forceCloseInLoop_safe: "inv w \<Longrightarrow> safe w (forceCloseInLoop env cur w)"
  by (auto simp: forceCloseInLoop_def conn_inv_inLoop handleClose_safe_from intro: safe_fromI)

lemma handleRead_safe:
  assumes "inv w" shows "safe w (handleRead env cur w)"
proof (cases "state (cn w) = kDisconnected")
  case True
  then show ?thesis using assms by (auto simp: handleRead_def conn_inv_inLoop intro: safe_fromI)
next
  case False
  let ?b = "inputBuffer (cn w)" and ?fd = "sockfd (cn w)"
  let ?rd = "\<lambda>iov. fst (os_readv (os_of env) ?fd iov (kern w))"
  let ?w1 = "\<lambda>b'. upd_conn (inputBuffer_update (\<lambda>_. b'))
     (w\<lparr>kern := snd (os_readv (os_of env) ?fd (readFd_iov ?b) (kern w))\<rparr>)"
  have inv1: "inv (?w1 b')" "follows w (?w1 b')" "state (cn (?w1 b')) \<noteq> kDisconnected" if "buffer_inv b'" for b'
    using assms that False
    by (simp_all add: conn_inv_def conn_base_def live_def registered_def dead_def agrees_def follows_def world_defs)
  have next_safe: "safe w (if n = - 1 then handleError env cur (?w1 b') else if n = 0 then handleClose env cur (?w1 b')
       else call_opt (messageCallback env) (?w1 b'))" if "buffer_inv b'" for n b'
    using inv1 [OF that] by (auto intro: safe_from_trans handleError_safe handleClose_safe_from hook_safe)
  have binv: "buffer_inv ?b" using assms by (simp add: conn_inv_def conn_base_def)
  have "outcome {Length_error} (\<lambda>(n, e, b'). buffer_inv b') (readFd ?rd ?b)"
  proof (cases "?rd (readFd_iov ?b)")
    case (Inl e)
    then show ?thesis using binv by (simp add: readFd_def)
  next
    case (Inr bs)
    moreover have "length bs \<le> sum_list (readFd_iov ?b)"
      using os Inr by (simp add: os_ok_def readv_ok_def)
    ultimately show ?thesis
      using readFd_outcome [of ?b ?rd bs, OF binv] by (auto elim!: outcome_weaken)
  qed
  then have "outcome {Length_error} (\<lambda>(n, e, b'). outcome {Length_error} (\<lambda>w'. inv w' \<and> follows w w')
      (if n = - 1 then handleError env cur (?w1 b') else if n = 0 then handleClose env cur (?w1 b')
       else call_opt (messageCallback env) (?w1 b'))) (readFd ?rd ?b)"
    by (rule outcome_weaken) (simp only: case_prod_beta, rule next_safe [unfolded safe_from_def])
  then show ?thesis
    using assms False by (simp add: handleRead_def conn_inv_inLoop safe_from_def outcome_bindE Let_def split_def split del: if_split)
qed

lemma enableWrite_live:
  assumes base: "conn_base interest env cur w" and reg: "registered w"
    and st: "state (cn w) = kConnected \<or> state (cn w) = kDisconnecting"
    and data: "sent w @ contents (outputBuffer (cn w)) = submitted w" "contents (outputBuffer (cn w)) \<noteq> []"
  shows "\<exists>w'. chan_do (enableWrite (os_ctl (os_of env)) True (ptr env)) w = Inr w' \<and> inv w' \<and> follows w w'"
proof -
  let ?e = "new_events EnableWrite (events (chan (cn w)))"
  have bits: "?e AND EPOLLOUT \<noteq> 0" "?e AND EPOLLPRI \<noteq> 0"
    using reg by (simp_all only: registered_def event_bits new_events_bits)
  then have "?e \<noteq> 0" by auto
  obtain k where k: "chan_do (run_op (os_ctl (os_of env)) True (ptr env) EnableWrite) w =
      Inr (upd_chan (\<lambda>ch. ch\<lparr>events := new_events EnableWrite (events ch),
             pooling := new_events EnableWrite (events ch) \<noteq> 0\<rparr>) (w\<lparr>kern := k\<rparr>))" (is "_ = Inr ?w'")
    "agrees interest (ptr env) ((chan (cn w))\<lparr>events := ?e, pooling := ?e \<noteq> 0\<rparr>, k)"
    using chan_op [OF ctl, where w = w and p = "ptr env" and x = EnableWrite] base \<open>?e \<noteq> 0\<close>
    unfolding conn_base_def by blast
  have "inv ?w'"
    using base reg st data k(2) bits \<open>?e \<noteq> 0\<close>
    by (auto simp del: new_events.simps simp: conn_inv_def conn_base_def live_def registered_def isWriting_def upd_chan_def)
  moreover have "follows w ?w'"
    using bits st by (auto simp del: new_events.simps simp: follows_def upd_chan_def isWriting_def)
  ultimately show ?thesis using k(1) by (simp only: run_op_fun) blast
qed

text \<open>
  The second half of \<open>sendInLoop\<close>, entered with the bytes \<open>rest\<close> neither sent nor stored: they go
  to the end of the output buffer.
\<close>

lemma send_rest_safe:
  assumes base: "conn_base interest env cur w" and reg: "registered w"
    and st: "state (cn w) = kConnected \<or> state (cn w) = kDisconnecting"
    and data: "sent w @ contents (outputBuffer (cn w)) @ rest = submitted w" and len: "length rest \<le> max_size"
    and wr: "isWriting (chan (cn w)) \<longleftrightarrow> contents (outputBuffer (cn w)) \<noteq> []"
  shows "safe w (send_rest env cur False rest w)"
proof (cases "rest = []")
  case True
  then have "inv w" using assms by (auto simp: conn_inv_def live_def)
  then show ?thesis using True by (auto simp: send_rest_def intro: safe_fromI)
next
  case False
  define w1 where "w1 = (let n = size_add (readableBytes (outputBuffer (cn w))) (length rest) in
    if highWaterMarkCallback env \<noteq> None \<and> readableBytes (outputBuffer (cn w)) < highWaterMark (cn w) \<and>
      highWaterMark (cn w) \<le> n then queue env cur (HighWaterMarkTask n) w else w)"
  have w1: "cn w1 = cn w" "kern w1 = kern w" "sent w1 = sent w" "submitted w1 = submitted w"
      "closeCalls w1 = closeCalls w" "tid (evloop w1) = cur" "list_all task_ok (pendingTasks (evloop w1))"
    using base by (simp_all add: conn_base_def w1_def Let_def)
  have buf: "outcome {Length_error} (\<lambda>b'. buffer_inv b' \<and> contents b' = contents (outputBuffer (cn w)) @ rest)
      (append_b rest (outputBuffer (cn w)))"
    using base len by (intro append_outcome) (simp_all add: conn_base_def)
  have tail: "safe w (chan_do (enableWrite (os_ctl (os_of env)) True (ptr env))
      (upd_conn (outputBuffer_update (\<lambda>_. b')) w1))"
    if b': "buffer_inv b'" "contents b' = contents (outputBuffer (cn w)) @ rest" for b'
  proof -
    let ?w2 = "upd_conn (outputBuffer_update (\<lambda>_. b')) w1"
    have "\<exists>w'. chan_do (enableWrite (os_ctl (os_of env)) True (ptr env)) ?w2 = Inr w' \<and> inv w' \<and> follows ?w2 w'"
      using base reg st data False b' w1
      by (intro enableWrite_live) (auto simp: conn_base_def registered_def upd_conn_def)
    moreover have "follows w ?w2" by (simp add: follows_def upd_conn_def w1)
    ultimately show ?thesis by (auto simp: safe_from_def intro: follows_trans)
  qed
  have thread: "inLoop cur (upd_conn f w1)" for f using w1(6) by (simp add: world_defs)
  have "outcome {Length_error} (\<lambda>b'. outcome {Length_error} (\<lambda>w'. inv w' \<and> follows w w')
      (chan_do (enableWrite (os_ctl (os_of env)) True (ptr env)) (upd_conn (outputBuffer_update (\<lambda>_. b')) w1)))
      (append_b rest (outputBuffer (cn w)))"
    using buf by (rule outcome_weaken) (use tail in \<open>auto simp: safe_from_def\<close>)
  moreover have "send_rest env cur False rest w = bindE (append_b rest (outputBuffer (cn w1)))
      (\<lambda>out'. chan_do (enableWrite (os_ctl (os_of env)) (inLoop cur (upd_conn (outputBuffer_update (\<lambda>_. out')) w1)) (ptr env))
         (upd_conn (outputBuffer_update (\<lambda>_. out')) w1))"
    using False unfolding send_rest_def w1_def Let_def by simp
  ultimately show ?thesis
    using thread by (simp add: safe_from_def outcome_bindE w1(1))
qed

lemma send_rest_open:
  assumes inv: "inv w" and st: "state (cn w) \<noteq> kDisconnected" and len: "length rest \<le> max_size"
    and w': "cn w' = cn w" "interest (kern w') = interest (kern w)" "closeCalls w' = closeCalls w"
      "tid (evloop w') = tid (evloop w)" "list_all task_ok (pendingTasks (evloop w'))"
    and data: "sent w' @ contents (outputBuffer (cn w)) @ rest = submitted w'"
  shows "safe w (send_rest env cur False rest w')"
proof -
  have "state (cn w) = kConnected \<or> state (cn w) = kDisconnecting"
    using inv st by (cases "state (cn w)") (auto simp: conn_inv_def)
  moreover have "prefix (sent w') (submitted w')" using data by (metis prefixI)
  ultimately have "safe w' (send_rest env cur False rest w')"
    using inv st w' data len
    by (intro send_rest_safe) (auto simp: conn_inv_def live_def conn_base_def registered_def agrees_def)
  then show ?thesis by (rule safe_from_trans [rotated]) (simp add: follows_cn w')
qed

lemma sendInLoop_safe:
  assumes "inv w" and len: "length data \<le> max_size"
  shows "safe w (sendInLoop env cur data w)"
proof (cases "state (cn w) = kDisconnected")
  case True
  then show ?thesis using assms by (auto simp: sendInLoop_def conn_inv_inLoop intro: safe_fromI)
next
  case live: False
  let ?w0 = "w\<lparr>submitted := submitted w @ data\<rparr>"
  let ?r = "os_write (os_of env) (sockfd (cn w)) data (kern w)"
  let ?w1 = "?w0\<lparr>kern := snd ?r\<rparr>"
  have base: "conn_base interest env cur w" "sent w @ contents (outputBuffer (cn w)) = submitted w"
    using assms(1) live by (simp_all add: conn_inv_def live_def)
  note rest = send_rest_open [OF assms(1) live]
  have writing: "safe w (send_rest env cur False data ?w0)" using base len by (intro rest) (auto simp: conn_base_def)
  have again: "safe w (send_rest env cur False data ?w1)" using base len by (intro rest) (auto simp: conn_base_def)
  have "closable ?w1"
    using inv_closable [OF assms(1) live] by (auto simp: closable_def conn_base_def agrees_def prefix_prefix)
  then have "safe w (handleClose env cur ?w1)"
    by (intro safe_from_trans [OF _ closable_safe]) (simp_all add: follows_cn)
  then have close: "safe w (bindE (handleClose env cur ?w1) (send_rest env cur True data))"
    by (simp add: safe_from_def outcome_bindE send_rest_def)
  have wrote: "safe w (send_rest env cur False (drop n data) (wrote env cur data n ?w1))" if "\<not> isWriting (chan (cn w))" for n
    using base len idle_output(1) [OF assms(1) live that] by (intro rest) (auto simp: conn_base_def)
  show ?thesis
    using writing again close wrote
    by (auto simp: sendInLoop_cases [OF assms(1) live] Let_def split: sum.splits)
qed

text \<open>The switches of \<open>stopRead\<close> and \<open>startRead\<close>, on a connection that is not closed.\<close>

lemma read_switch_live:
  assumes "inv w" and "state (cn w) \<noteq> kDisconnected" and x: "x = EnableRead \<or> x = DisableRead"
  shows "\<exists>w'. chan_do (run_op (os_ctl (os_of env)) True (ptr env) x) w = Inr w' \<and> inv w' \<and> follows w w'"
proof -
  let ?e = "new_events x (events (chan (cn w)))"
  have reg: "registered w" "agrees interest (ptr env) (chan (cn w), kern w)"
    using assms by (simp_all add: conn_inv_def conn_base_def live_def)
  have bits: "?e AND EPOLLOUT \<noteq> 0 \<longleftrightarrow> events (chan (cn w)) AND EPOLLOUT \<noteq> 0" "?e AND EPOLLPRI \<noteq> 0"
    using reg x new_events_bits [of "events (chan (cn w))"]
    unfolding registered_def event_bits by (auto simp del: new_events.simps)
  then have ne: "?e \<noteq> 0" by auto
  obtain k where k: "chan_do (run_op (os_ctl (os_of env)) True (ptr env) x) w =
      Inr (upd_chan (\<lambda>ch. ch\<lparr>events := new_events x (events ch),
             pooling := new_events x (events ch) \<noteq> 0\<rparr>) (w\<lparr>kern := k\<rparr>))" (is "_ = Inr ?w'")
    "agrees interest (ptr env) ((chan (cn w))\<lparr>events := ?e, pooling := ?e \<noteq> 0\<rparr>, k)"
    using chan_op [OF ctl reg(2)] ne by blast
  have "inv ?w'"
    using assms(1,2) reg k(2) bits ne
    by (auto simp del: new_events.simps simp: conn_inv_def conn_base_def live_def registered_def isWriting_def upd_chan_def)
  moreover have "follows w ?w'"
    using bits assms(2) by (auto simp del: new_events.simps simp: follows_def upd_chan_def isWriting_def)
  ultimately show ?thesis using k(1) by blast
qed

lemma stopReadInLoop_safe:
  "inv w \<Longrightarrow> state (cn w) \<noteq> kDisconnected \<Longrightarrow> safe w (stopReadInLoop env cur w)"
  using read_switch_live [of w DisableRead]
  by (auto simp: stopReadInLoop_def conn_inv_inLoop run_op_fun safe_from_def)

lemma startReadInLoop_safe:
  "inv w \<Longrightarrow> state (cn w) \<noteq> kDisconnected \<Longrightarrow> safe w (startReadInLoop env cur w)"
  using read_switch_live [of w EnableRead]
  by (auto simp: startReadInLoop_def conn_inv_inLoop run_op_fun safe_from_def)

text \<open>Writing: the part of the output buffer the kernel accepted moves to \<open>sent\<close>.\<close>

lemma disableWrite_live:
  assumes "conn_base interest env cur w" and "registered w" and "state (cn w) \<noteq> kDisconnected"
    and "state (cn w) \<noteq> kConnecting" and "sent w = submitted w" and "contents (outputBuffer (cn w)) = []"
  shows "\<exists>w'. chan_do (disableWrite (os_ctl (os_of env)) True (ptr env)) w = Inr w' \<and> inv w' \<and>
              state (cn w') = state (cn w) \<and> sent w' = sent w \<and> submitted w' = submitted w \<and> shutWr w' = shutWr w"
proof -
  let ?e = "new_events DisableWrite (events (chan (cn w)))"
  have bits: "\<not> ?e AND EPOLLOUT \<noteq> 0" "?e AND EPOLLPRI \<noteq> 0"
    using assms(2) by (simp_all only: registered_def event_bits new_events_bits not_False_eq_True)
  then have ne: "?e \<noteq> 0" by auto
  obtain k where k: "chan_do (run_op (os_ctl (os_of env)) True (ptr env) DisableWrite) w =
      Inr (upd_chan (\<lambda>ch. ch\<lparr>events := new_events DisableWrite (events ch),
             pooling := new_events DisableWrite (events ch) \<noteq> 0\<rparr>) (w\<lparr>kern := k\<rparr>))" (is "_ = Inr ?w'")
    "agrees interest (ptr env) ((chan (cn w))\<lparr>events := ?e, pooling := ?e \<noteq> 0\<rparr>, k)"
    using chan_op [OF ctl, where w = w and p = "ptr env" and x = DisableWrite] assms(1) ne
    unfolding conn_base_def by blast
  have "inv ?w' \<and> state (cn ?w') = state (cn w) \<and> sent ?w' = sent w \<and> submitted ?w' = submitted w \<and> shutWr ?w' = shutWr w"
    using assms k(2) bits ne
    by (auto simp del: new_events.simps simp: conn_inv_def conn_base_def live_def registered_def isWriting_def upd_chan_def)
  then show ?thesis using k(1) by (simp only: run_op_fun) blast
qed

text \<open>The state after the kernel took \<open>n\<close> bytes of the output buffer, which is \<open>out'\<close> then.\<close>

abbreviation flushed :: "nat \<Rightarrow> buffer \<Rightarrow> ('k, 'e) world \<Rightarrow> ('k, 'e) world" where
  "flushed n out' w \<equiv> upd_conn (outputBuffer_update (\<lambda>_. out'))
     (w\<lparr>kern := snd (os_write (os_of env) (sockfd (cn w)) (contents (outputBuffer (cn w))) (kern w)),
        sent := sent w @ take n (contents (outputBuffer (cn w)))\<rparr>)"

lemma handleWrite_unfold:
  assumes inv: "inv w" and st: "state (cn w) \<noteq> kDisconnected" and wr: "isWriting (chan (cn w))"
    and ok: "fst (os_write (os_of env) (sockfd (cn w)) (contents (outputBuffer (cn w))) (kern w)) = Inr n"
  obtains out' where "buffer_inv out'" "contents out' = drop n (contents (outputBuffer (cn w)))"
    "handleWrite env cur w =
      (if n = length (contents (outputBuffer (cn w))) then
         bindE (chan_do (disableWrite (os_ctl (os_of env)) True (ptr env)) (flushed n out' w)) (\<lambda>w3.
         bindE (if state (cn w3) = kDisconnecting then shutdownInLoop env cur w3 else Inr w3) (\<lambda>w4.
         Inr (if writeCompleteCallback env \<noteq> None then queue env cur WriteCompleteTask w4 else w4)))
       else Inr (flushed n out' w))"
proof -
  let ?out = "outputBuffer (cn w)" and ?data = "contents (outputBuffer (cn w))"
  have binv: "buffer_inv ?out" and ne: "?data \<noteq> []" using inv st wr by (simp_all add: conn_inv_def live_def conn_base_def)
  have rb: "readableBytes ?out = length ?data" using binv by (simp add: length_contents)
  have d: "take (readableBytes ?out) (drop (peek ?out) (storage ?out)) = ?data"
    using readable_prefix [OF binv order_refl] rb by simp
  have n: "n \<le> length ?data" using ok by (rule write_count)
  obtain out' where out': "retrieve n ?out = Inr out'" "buffer_inv out'" "contents out' = drop n ?data"
    using retrieve_ok [OF binv n] by blast
  have rb': "readableBytes out' = 0 \<longleftrightarrow> n = length ?data" using length_contents [OF out'(2)] out'(3) n by auto
  show ?thesis
  proof (rule that [OF out'(2,3)])
    show "handleWrite env cur w = (if n = length ?data then
         bindE (chan_do (disableWrite (os_ctl (os_of env)) True (ptr env)) (flushed n out' w)) (\<lambda>w3.
         bindE (if state (cn w3) = kDisconnecting then shutdownInLoop env cur w3 else Inr w3) (\<lambda>w4.
         Inr (if writeCompleteCallback env \<noteq> None then queue env cur WriteCompleteTask w4 else w4)))
       else Inr (flushed n out' w))"
      using inv st wr ok ne rb d out'(1) rb'
      by (simp add: handleWrite_def conn_inv_inLoop Let_def)
         (simp add: conn_inv_def conn_base_def world_defs)
  qed
qed

text \<open>Everything is written: a shutdown that was waiting for it happens now.\<close>

lemma drained_shutdown:
  assumes "inv w" and "state (cn w) \<noteq> kDisconnected" and "sent w = submitted w"
  shows "\<exists>w'. (if state (cn w) = kDisconnecting then shutdownInLoop env cur w else Inr w) = Inr w' \<and> inv w' \<and> cn w' = cn w \<and>
     sent w' = sent w \<and> submitted w' = submitted w \<and> (shutWr w' \<longleftrightarrow> shutWr w \<or> state (cn w) = kDisconnecting)"
proof -
  have "\<not> isWriting (chan (cn w))" using assms by (auto simp: conn_inv_def live_def)
  then show ?thesis
    using assms shutdownInLoop_result [OF assms(1)]
    by (auto simp: shutdownInLoop_def conn_inv_inLoop kern_frame_shut)
qed

lemma handleWrite_writes:
  assumes inv: "inv w" and st: "state (cn w) \<noteq> kDisconnected" and wr: "isWriting (chan (cn w))"
    and ok: "fst (os_write (os_of env) (sockfd (cn w)) (contents (outputBuffer (cn w))) (kern w)) = Inr n"
  shows "\<exists>w'. handleWrite env cur w = Inr w' \<and> inv w' \<and> state (cn w') = state (cn w) \<and>
    sent w' = sent w @ take n (contents (outputBuffer (cn w))) \<and> submitted w' = submitted w \<and>
    (shutWr w' \<longleftrightarrow> shutWr w \<or> n = length (contents (outputBuffer (cn w))) \<and> state (cn w) = kDisconnecting)"
proof -
  let ?data = "contents (outputBuffer (cn w))"
  obtain out' where out': "buffer_inv out'" "contents out' = drop n ?data" and run: "handleWrite env cur w =
      (if n = length ?data then
         bindE (chan_do (disableWrite (os_ctl (os_of env)) True (ptr env)) (flushed n out' w)) (\<lambda>w3.
         bindE (if state (cn w3) = kDisconnecting then shutdownInLoop env cur w3 else Inr w3) (\<lambda>w4.
         Inr (if writeCompleteCallback env \<noteq> None then queue env cur WriteCompleteTask w4 else w4)))
       else Inr (flushed n out' w))"
    using handleWrite_unfold [OF assms] by blast
  let ?w2 = "flushed n out' w"
  have base: "conn_base interest env cur w" "registered w" "sent w @ ?data = submitted w" "state (cn w) \<noteq> kConnecting"
    using inv st wr by (simp_all add: conn_inv_def live_def)
  have n: "n \<le> length ?data" using ok by (rule write_count)
  have pre: "prefix (sent w @ take n ?data) (submitted w)" by (metis base(3) same_prefix_prefix take_is_prefix)
  have mid: "conn_base interest env cur ?w2" "registered ?w2" "sent ?w2 @ contents (outputBuffer (cn ?w2)) = submitted ?w2"
      "state (cn ?w2) = state (cn w)" "shutWr ?w2 = shutWr w" "isWriting (chan (cn ?w2))"
      "contents (outputBuffer (cn ?w2)) = drop n ?data" "sent ?w2 = sent w @ take n ?data" "submitted ?w2 = submitted w"
    using base out' wr pre by (auto simp: conn_base_def registered_def agrees_def upd_conn_def)
  show ?thesis
  proof (cases "n = length ?data")
    case False
    then have "inv ?w2" using mid base st n by (simp add: conn_inv_def live_def)
    then show ?thesis using run False mid by simp
  next
    case True
    then obtain w3 where w3: "chan_do (disableWrite (os_ctl (os_of env)) True (ptr env)) ?w2 = Inr w3" "inv w3"
        "state (cn w3) = state (cn w)" "sent w3 = sent w @ take n ?data" "submitted w3 = submitted w" "shutWr w3 = shutWr w"
      using disableWrite_live [of ?w2] mid base st by auto
    with drained_shutdown [OF w3(2)] st base(3) True obtain w4 where
        w4: "(if state (cn w3) = kDisconnecting then shutdownInLoop env cur w3 else Inr w3) = Inr w4" "inv w4"
        "cn w4 = cn w3" "sent w4 = sent w3" "submitted w4 = submitted w3"
        "shutWr w4 \<longleftrightarrow> shutWr w \<or> state (cn w) = kDisconnecting"
      by auto
    show ?thesis
      using run True w3 w4 conn_inv_queue [OF w4(2), of WriteCompleteTask cur] by auto
  qed
qed

lemma handleWrite_outcome:
  assumes inv: "inv w" and wr: "state (cn w) \<noteq> kDisconnected \<Longrightarrow> isWriting (chan (cn w))"
  shows "outcome {Length_error} inv (handleWrite env cur w)"
proof (cases "state (cn w) = kDisconnected")
  case True
  then show ?thesis using inv by (simp add: handleWrite_def conn_inv_inLoop)
next
  case st: False
  let ?out = "outputBuffer (cn w)" and ?data = "contents (outputBuffer (cn w))"
  let ?r = "os_write (os_of env) (sockfd (cn w)) ?data (kern w)"
  let ?w1 = "w\<lparr>kern := snd ?r\<rparr>"
  have binv: "buffer_inv ?out" and ne: "?data \<noteq> []"
    using inv st wr by (simp_all add: conn_inv_def conn_base_def live_def)
  show ?thesis
  proof (cases "fst ?r")
    case (Inr n)
    then show ?thesis using handleWrite_writes [OF inv st wr [OF st] Inr] by auto
  next
    case (Inl e)
    have d: "take (readableBytes ?out) (drop (peek ?out) (storage ?out)) = ?data" "0 < readableBytes ?out"
      using readable_prefix [OF binv order_refl] length_contents [OF binv] ne
      by (metis order_refl take_all, metis length_greater_0_conv)
    have inv1: "inv ?w1" using inv by (simp add: kern_frame)
    have "safe ?w1 (handleError env cur ?w1)" using inv1 st by (intro handleError_safe) simp_all
    then have "outcome {Length_error} inv (handleError env cur ?w1)"
      unfolding safe_from_def by (auto elim: outcome_weaken)
    then show ?thesis
      using inv st wr [OF st] Inl d inv1 by (simp add: handleWrite_def conn_inv_inLoop Let_def)
  qed
qed

section \<open>Tasks, calls and events\<close>

lemma safe_outcome: "safe w r \<Longrightarrow> outcome {Length_error} inv r"
  unfolding safe_from_def by (auto elim: outcome_weaken)

lemma run_task_safe:
  assumes "inv w" and "task_ok t" shows "safe w (run_task env cur t w)"
proof (cases t)
  case (HighWaterMarkTask n)
  then show ?thesis using hook_safe(3) [OF assms(1), of n] assms(1)
    by (simp add: call_opt_def safe_from_def split: option.splits)
next
  case ShutdownTask
  then show ?thesis using shutdownInLoop_result [OF assms(1)] by (auto simp: safe_from_def)
qed (use assms in \<open>auto intro!: sendInLoop_safe forceCloseInLoop_safe hook_safe\<close>)

lemma run_task_outcome:
  "inv w \<Longrightarrow> task_ok t \<Longrightarrow> outcome {Length_error} inv (run_task env cur t w)"
  by (rule safe_outcome [OF run_task_safe])

lemma Tasks_outcome:
  assumes "inv w" shows "outcome {Length_error} inv (doPendingTasks cur evloop upd_loop (run_task env cur) w)"
proof (rule conn_loop.doPendingTasks_outcome)
  show "isInLoopThread cur (evloop w)" using conn_inv_inLoop [OF assms] by (simp add: inLoop_def)
  show "inv w" by (rule assms)
  show "inv v \<Longrightarrow> inv (upd_loop (doingPendingTasks_update f) v)" for v f
    by (simp add: conn_inv_def conn_base_def live_def dead_def registered_def upd_loop_def)
  show "inv v \<Longrightarrow> inv (upd_loop (\<lambda>l. snd (take_batch l)) v)" for v
    by (simp add: conn_inv_def conn_base_def live_def dead_def registered_def upd_loop_def take_batch_def)
  show "t \<in> set (pendingTasks (evloop w)) \<Longrightarrow> inv v \<Longrightarrow> outcome {Length_error} inv (run_task env cur t v)" for t v
    using assms by (intro run_task_outcome) (auto simp: conn_inv_def conn_base_def list_all_iff)
qed

lemma disconnecting_inv:
  "inv w \<Longrightarrow> state (cn w) \<noteq> kDisconnected \<Longrightarrow>
   inv (set_state kDisconnecting w) \<and> follows w (set_state kDisconnecting w)"
  by (simp add: conn_inv_def conn_base_def live_def dead_def registered_def follows_def world_defs)

lemma queue_safe: "inv w \<Longrightarrow> task_ok t \<Longrightarrow> safe w (Inr (queue env c t w))"
  by (simp add: safe_from_def conn_inv_queue)

lemma inLoop_iff: "inv w \<Longrightarrow> inLoop c w \<longleftrightarrow> c = cur"
  by (auto simp: conn_inv_def conn_base_def world_defs)

lemma send_safe:
  assumes "inv w" and "length d \<le> max_size" shows "safe w (send env c d w)"
  using assms by (auto simp: send_def inLoop_iff sendInLoop_safe queue_safe intro: safe_fromI)

lemma shutdown_safe:
  assumes "inv w" and "state (cn w) \<noteq> kDisconnected" shows "safe w (shutdown env c w)"
proof -
  let ?w = "set_state kDisconnecting w"
  have inv1: "inv ?w" and f: "follows w ?w" using disconnecting_inv [OF assms] by simp_all
  have "safe ?w (if inLoop c ?w then shutdownInLoop env c ?w else Inr (queue env c ShutdownTask ?w))"
    using inv1 shutdownInLoop_result [OF inv1] by (auto simp: inLoop_iff conn_inv_queue safe_from_def)
  moreover have "safe ?w (Inr ?w)" using inv1 by (simp add: safe_from_def)
  ultimately show ?thesis
    using assms(2) safe_from_trans [OF f] by (simp add: shutdown_def stateAtomicGetAndSet_def Let_def)
qed

lemma forceClose_safe:
  assumes "inv w" shows "safe w (forceClose env c w)"
proof (cases "state (cn w) = kDisconnected")
  case True
  then show ?thesis using assms by (simp add: forceClose_def safe_from_def)
next
  case False
  let ?w = "set_state kDisconnecting w"
  have inv1: "inv ?w" and f: "follows w ?w" using disconnecting_inv [OF assms False] by simp_all
  have "safe ?w (if inLoop c ?w then forceCloseInLoop env c ?w else Inr (queue env c ForceCloseTask ?w))"
    using inv1 forceCloseInLoop_safe [OF inv1] by (simp add: inLoop_iff queue_safe)
  then show ?thesis
    using False safe_from_trans [OF f] by (simp add: forceClose_def stateAtomicGetAndSet_def Let_def)
qed

lemma call_api_safe:
  assumes "inv w" and "api_allowed cur c op w" shows "safe w (call_api env c op w)"
  using assms
  by (cases op) (auto simp: send_safe shutdown_safe forceClose_safe stopRead_def startRead_def runInLoop_def
      stopReadInLoop_safe startReadInLoop_safe conn_inv_def conn_base_def isInLoopThread_def)

text \<open>
  One event on the channel, callback by callback. Between the callbacks the received events stay,
  the write callback is still wanted or the connection is closed, and only the close and error
  callbacks need a connection that is not closed.
\<close>

definition between :: "32 word \<Rightarrow> bool \<Rightarrow> ('k, 'e) world \<Rightarrow> bool" where
  "between r opened w \<longleftrightarrow> inv w \<and> revents (chan (cn w)) = r \<and>
     (opened \<longrightarrow> state (cn w) \<noteq> kDisconnected) \<and>
     (wantsWrite r \<and> state (cn w) \<noteq> kDisconnected \<longrightarrow> isWriting (chan (cn w)))"

lemma between_safe:
  assumes "between r opened w" and "safe w x" shows "outcome {Length_error} (between r False) x"
  using assms(2) unfolding safe_from_def
  by (rule outcome_weaken) (use assms(1) in \<open>auto simp: between_def follows_def\<close>)

lemma fire_between:
  assumes "between r opened w" and "opened \<or> c = ReadCb" and "c \<noteq> WriteCb"
  shows "outcome {Length_error} (between r (opened \<and> \<not> cond r)) (fire (\<lambda>w. chan (cn w)) (conn_callback env cur) cond c w)"
proof (cases "cond r \<and> hasCb (chan (cn w)) c")
  case True
  have "safe w (conn_callback env cur c w)"
    using assms by (cases c) (auto simp: between_def handleRead_safe handleClose_safe_from handleError_safe)
  then show ?thesis
    using True assms(1) between_safe [OF assms(1)] by (simp add: fire_def between_def)
next
  case False
  then show ?thesis using assms(1) by (auto simp: fire_def between_def)
qed

lemma fire_write:
  assumes "between r opened w"
  shows "outcome {Length_error} inv (fire (\<lambda>w. chan (cn w)) (conn_callback env cur) wantsWrite WriteCb w)"
  using assms handleWrite_outcome [of w] by (auto simp: fire_def between_def)

lemma dispatch_safe:
  assumes "inv w" and "state (cn w) \<noteq> kDisconnected"
    and d: "deliverable (chan (cn w)) (revents (chan (cn w)))"
  shows "outcome {Length_error} inv (handleEventWithGuard (\<lambda>w. chan (cn w)) upd_chan (conn_callback env cur) w)"
proof -
  let ?r = "revents (chan (cn w))" and ?f = "fire (\<lambda>w. chan (cn w)) (conn_callback env cur)"
  have s0: "between ?r True (upd_chan (handlingEvents_update (\<lambda>_. True)) w)"
    using assms by (auto simp: between_def deliverable_def) (auto simp: upd_chan_def isWriting_def)
  have close: "outcome {Length_error} (between ?r (\<not> wantsClose ?r)) (?f wantsClose CloseCb v)" if "between ?r True v" for v
    using fire_between [OF that, of CloseCb wantsClose] by simp
  have err: "outcome {Length_error} (between ?r False) (?f wantsError ErrorCb v)" if b: "between ?r (\<not> wantsClose ?r) v" for v
  proof (cases "wantsError ?r")
    case True
    then have "\<not> wantsClose ?r" using d by (simp add: deliverable_def)
    then show ?thesis using fire_between [OF b, of ErrorCb wantsError] True by simp
  next
    case False
    then show ?thesis using b by (auto simp: fire_def between_def)
  qed
  have read: "outcome {Length_error} (between ?r False) (?f wantsRead ReadCb v)" if "between ?r False v" for v
    using fire_between [OF that, of ReadCb wantsRead] by simp
  show ?thesis
    unfolding handleEventWithGuard_def outcome_bindE outcome_Inr flag_frame
    by (rule outcome_weaken [OF close [OF s0]], rule outcome_weaken [OF err], assumption,
        rule outcome_weaken [OF read], assumption, rule fire_write)
qed

lemma run_event_outcome:
  assumes "inv w" and "enabled cur ev w" shows "outcome {Length_error} inv (run_event env cur alive ev w)"
proof (cases ev)
  case (Events r)
  let ?w = "upd_chan (setRevents r) w"
  have st: "state (cn w) \<noteq> kDisconnected" and d: "deliverable (chan (cn ?w)) (revents (chan (cn ?w)))"
    using assms Events by (auto simp: deliverable_def conn_inv_def dead_def upd_chan_def setRevents_def isWriting_def)
  have "inv ?w" using assms(1) by simp
  moreover have "state (cn ?w) \<noteq> kDisconnected" using st by (simp add: upd_chan_def)
  ultimately show ?thesis
    using Events dispatch_safe [of ?w] d conn_inv_inLoop [of interest env cur ?w]
    by (auto simp: conn_handleEvents_def handleEvents_def split: option.splits)
next
  case (Call c op)
  then show ?thesis using assms by (auto intro: safe_outcome call_api_safe)
qed (simp add: Tasks_outcome assms)

lemma start_inv:
  assumes "conn_start interest env cur w" shows "inv w"
proof -
  obtain f lo pe c mark w0 self where s: "TcpConnection_new f lo pe = Inr c" "cn w0 = c\<lparr>highWaterMark := mark\<rparr>"
     "tid (evloop w0) = cur" "pendingTasks (evloop w0) = []" "interest (kern w0) f = None"
     "sent w0 = []" "submitted w0 = []" "closeCalls w0 = 0" "connectEstablished env cur self w0 = Inr w"
    using assms by (auto simp: conn_start_def)
  obtain b where b: "Buffer_new kInitialSize = Inr b" "buffer_inv b" "contents b = []"
    using Buffer_new_ok [of kInitialSize] by (auto simp: kInitialSize_def kCheapPrepend_def max_size_def)
  let ?w1 = "upd_chan (tie_to self) (set_state kConnected w0)"
  let ?e = "new_events EnableRead (events (chan (cn ?w1)))"
  have c: "inputBuffer c = b" "outputBuffer c = b" "chanfd (chan c) = f" "pooling (chan c) = False" "events (chan c) = 0"
      "state c = kConnecting"
    using s(1) b by (auto simp: TcpConnection_new_def setErrorCallback_def setCloseCallback_def
        setWriteCallback_def setReadCallback_def Channel_new_def)
  have ag: "agrees interest (ptr env) (chan (cn ?w1), kern ?w1)" and ev0: "events (chan (cn ?w1)) = 0"
    using s c by (simp_all add: agrees_def world_defs tie_to_def)
  have bits: "?e AND EPOLLPRI \<noteq> 0" "\<not> ?e AND EPOLLOUT \<noteq> 0"
    using new_events_bits(1,2) [of 0] by (simp_all only: ev0 event_bits) simp
  then have ne: "?e \<noteq> 0" by auto
  have "chan_do (run_op (os_ctl (os_of env)) True (ptr env) EnableRead) ?w1 = Inr w"
    using s(9) c(6) s(2,3) by (simp add: connectEstablished_def run_op_fun Let_def) (simp add: world_defs)
  then obtain k where k: "w = upd_chan (\<lambda>ch. ch\<lparr>events := new_events EnableRead (events ch),
        pooling := new_events EnableRead (events ch) \<noteq> 0\<rparr>) (?w1\<lparr>kern := k\<rparr>)"
    "agrees interest (ptr env) ((chan (cn ?w1))\<lparr>events := ?e, pooling := ?e \<noteq> 0\<rparr>, k)"
    using chan_op [OF ctl ag, of EnableRead] ne by auto
  show ?thesis
    using k(2) s(2-8) c b bits ne ev0 unfolding k(1)
    by (auto simp del: new_events.simps simp: conn_inv_def conn_base_def live_def registered_def isWriting_def world_defs)
qed

end

interpretation conn_run: inductive_invariant "conn_start interest env cur" "conn_step env cur alive"
    "\<lambda>w. conn_client interest env cur \<longrightarrow> conn_inv interest env cur w" for interest env cur alive
proof
  fix w
  assume "conn_start interest env cur w"
  then show "conn_client interest env cur \<longrightarrow> conn_inv interest env cur w"
    by (auto intro: conn_client.start_inv)
next
  fix w w'
  assume inv: "conn_client interest env cur \<longrightarrow> conn_inv interest env cur w" and "conn_step env cur alive w w'"
  then obtain ev where ev: "enabled cur ev w" "run_event env cur alive ev w = Inr w'" by (auto elim: conn_stepE)
  show "conn_client interest env cur \<longrightarrow> conn_inv interest env cur w'"
    using conn_client.run_event_outcome [of interest env cur w ev alive] inv ev by auto
qed

section \<open>The echo server meets the contract\<close>

lemma conn_inv_env:
  "ptr env' = ptr env \<Longrightarrow> closeCallback env' = closeCallback env \<Longrightarrow> conn_inv interest env' cur = conn_inv interest env cur"
  by (simp add: fun_eq_iff conn_inv_def conn_base_def dead_def)

context conn_client
begin

text \<open>A message callback that takes the whole input, computes an answer from it and sends the answer.\<close>

lemma answer_safe:
  assumes "inv w" and "\<And>msg. outcome {Length_error} (\<lambda>out. length out \<le> max_size) (f msg)"
  shows "safe w (bindE (retrieveAllAsString (inputBuffer (cn w))) (\<lambda>(msg, b').
    bindE (f msg) (\<lambda>out. send env cur out (upd_conn (inputBuffer_update (\<lambda>_. b')) w))))"
proof -
  let ?b = "inputBuffer (cn w)"
  have binv: "buffer_inv ?b" using assms by (simp add: conn_inv_def conn_base_def)
  then obtain b' where b': "retrieveAllAsString ?b = Inr (contents ?b, b')" "buffer_inv b'"
    using retrieveAsString_ok [OF binv order_refl] by (auto simp: retrieveAllAsString_def length_contents)
  let ?w = "upd_conn (inputBuffer_update (\<lambda>_. b')) w"
  have "inv ?w" and f: "follows w ?w"
    using assms(1) b'(2)
    by (simp_all add: conn_inv_def conn_base_def live_def registered_def dead_def follows_def world_defs)
  then have "safe ?w (send env cur out ?w)" if "length out \<le> max_size" for out
    using that by (intro send_safe) simp_all
  then have "outcome {Length_error} (\<lambda>out. safe w (send env cur out ?w)) (f (contents ?b))"
    using safe_from_trans [OF f] by (intro outcome_weaken [OF assms(2)]) blast
  then show ?thesis
    using b'(1) by (cases "f (contents ?b)") (auto simp: safe_from_def)
qed

lemma echo_safe:
  assumes "inv w" shows "safe w (echo_message env cur w)"
proof -
  let ?f = "\<lambda>msg. if max_size < length (echo_prefix @ msg) then Inl Length_error else Inr (echo_prefix @ msg)"
  have "echo_message env cur w = bindE (retrieveAllAsString (inputBuffer (cn w))) (\<lambda>(msg, b').
      bindE (?f msg) (\<lambda>out. send env cur out (upd_conn (inputBuffer_update (\<lambda>_. b')) w)))"
    unfolding echo_message_def by (rule arg_cong [where f = "bindE _"]) (auto simp: fun_eq_iff)
  then show ?thesis using answer_safe [OF assms, of ?f] by simp
qed

end

text \<open>
  Whatever the close callback of the server does, if it meets its part of the contract, so does the
  connection with a message callback that does.
\<close>

abbreviation only_close :: "('k, 'e) env \<Rightarrow> ('k, 'e) env" where
  "only_close env \<equiv> env\<lparr>messageCallback := None, writeCompleteCallback := None, highWaterMarkCallback := None\<rparr>"

lemma message_client:
  assumes "conn_client interest (only_close env) cur"
    and "\<And>w. conn_inv interest (only_close env) cur w \<Longrightarrow> safe_from interest (only_close env) cur w (m w)"
  shows "conn_client interest (env\<lparr>messageCallback := Some m, writeCompleteCallback := None, highWaterMarkCallback := None\<rparr>) cur"
    (is "conn_client interest ?env cur")
proof -
  have same: "conn_inv interest ?env cur = conn_inv interest (only_close env) cur"
    by (intro conn_inv_env) simp_all
  have safe: "safe_from interest ?env cur w r = safe_from interest (only_close env) cur w r" for w r
    by (simp only: safe_from_def same)
  have "os_ok (os_of ?env) interest"
    using conn_client.os [OF assms(1)] by simp
  moreover have "hooks_ok interest ?env cur"
    using assms(2) conn_client.hook_safe(4) [OF assms(1)]
    unfolding hooks_ok_def safe same by (auto simp: call_opt_def safe_from_def)
  ultimately show ?thesis by (rule conn_client.intro)
qed

lemma echo_client:
  assumes "conn_client interest (only_close env) cur"
  shows "conn_client interest (echo_env (only_close env) cur) cur"
  using message_client [OF assms conn_client.echo_safe [OF assms]] by (simp add: echo_env_def)

text \<open>A kernel that accepts four bytes at a time and delivers two, with a close callback that does nothing.\<close>

definition demo_os :: "(int \<rightharpoonup> epoll_event) os" where
  "demo_os = \<lparr>os_ctl = map_ctl, os_write = (\<lambda>f d k. (Inr (min (length d) 4), k)),
     os_readv = (\<lambda>f iov k. (Inr (take (sum_list iov) [104, 105]), k)), os_getsockopt = (\<lambda>f k. (Inr None, k)),
     os_shutdown = (\<lambda>f k. (None, k))\<rparr>"

definition demo_env :: "(int \<rightharpoonup> epoll_event, nat) env" where
  "demo_env = echo_env \<lparr>os_of = demo_os, efd_of = counter_efd, ptr = 7, messageCallback = None,
     writeCompleteCallback = None, highWaterMarkCallback = None, closeCallback = Some (\<lambda>w. Inr w)\<rparr> 1"

lemma demo_os_ok: "os_ok demo_os (\<lambda>k. k)"
  by (simp add: os_ok_def demo_os_def map_ctl_ok readv_ok_def)

interpretation echo_server: conn_client "\<lambda>k. k" demo_env 1
proof -
  let ?env = "\<lparr>os_of = demo_os, efd_of = counter_efd, ptr = 7, messageCallback = None,
     writeCompleteCallback = None, highWaterMarkCallback = None, closeCallback = Some (\<lambda>w. Inr w)\<rparr>
     :: (int \<rightharpoonup> epoll_event, nat) env"
  have "conn_client (\<lambda>k. k) ?env 1"
    using demo_os_ok by (intro conn_client.intro) (simp_all add: hooks_ok_def call_opt_def safe_from_def)
  then show "conn_client (\<lambda>k. k) demo_env 1"
    using echo_client [of "\<lambda>k. k" ?env 1] by (simp add: demo_env_def)
qed

text \<open>A connection of the example on descriptor 5, just established.\<close>

definition fresh_buffer :: buffer where
  "fresh_buffer = \<lparr>storage = replicate 1032 0, readerIndex = 8, writerIndex = 8\<rparr>"

definition demo_world :: "(int \<rightharpoonup> epoll_event, nat) world" where
  "demo_world =
     \<lparr>evloop = \<lparr>tid = 1, quit_flag = False, doingPendingTasks = False, pendingTasks = [], wakeupfd = 0\<rparr>,
      cn = \<lparr>sockfd = 5, chan = \<lparr>pooling = True, chanfd = 5, tie = Some 9, tied = True, events = 3, revents = 0,
               handlingEvents = False, hasCb = (\<lambda>_. False)(ReadCb := True, WriteCb := True, CloseCb := True, ErrorCb := True)\<rparr>,
            state = kConnected, local_addr = InetAddress_any, peer_addr = InetAddress_any,
            inputBuffer = fresh_buffer, outputBuffer = fresh_buffer, highWaterMark = 0, ctx = None\<rparr>,
      kern = [5 \<mapsto> \<lparr>ev_events = 3, ev_ptr = 7\<rparr>], sent = [], submitted = [], shutWr = False, closeCalls = 0\<rparr>"

lemma fresh_buffer_new: "Buffer_new kInitialSize = Inr fresh_buffer"
  by (simp add: Buffer_new_def fresh_buffer_def kInitialSize_def kCheapPrepend_def readableBytes_def
      writableBytes_def prependableBytes_def max_size_def)

lemma demo_start_env:
  assumes "os_ctl (os_of env) = map_ctl" and "ptr env = 7"
  shows "conn_start (\<lambda>k. k) env 1 (demo_world\<lparr>cn := (cn demo_world)\<lparr>highWaterMark := m\<rparr>\<rparr>)"
proof -
  let ?c = "\<lparr>sockfd = 5, chan = \<lparr>pooling = False, chanfd = 5, tie = None, tied = False, events = 0, revents = 0,
       handlingEvents = False, hasCb = (\<lambda>_. False)(ReadCb := True, WriteCb := True, CloseCb := True, ErrorCb := True)\<rparr>,
     state = kConnecting, local_addr = InetAddress_any, peer_addr = InetAddress_any,
     inputBuffer = fresh_buffer, outputBuffer = fresh_buffer, highWaterMark = 0, ctx = None\<rparr>"
  let ?w0 = "\<lparr>evloop = \<lparr>tid = 1, quit_flag = False, doingPendingTasks = False, pendingTasks = [], wakeupfd = 0\<rparr>,
     cn = ?c\<lparr>highWaterMark := m\<rparr>, kern = Map.empty, sent = [], submitted = [], shutWr = False, closeCalls = 0\<rparr>
     :: (int \<rightharpoonup> epoll_event, nat) world"
  have "TcpConnection_new 5 InetAddress_any InetAddress_any = Inr ?c"
    by (simp add: TcpConnection_new_def fresh_buffer_new Channel_new_def setErrorCallback_def setCloseCallback_def
        setWriteCallback_def setReadCallback_def)
  moreover have "connectEstablished env 1 9 ?w0 = Inr (demo_world\<lparr>cn := (cn demo_world)\<lparr>highWaterMark := m\<rparr>\<rparr>)"
    by (simp add: assms connectEstablished_def chan_do_def enableRead_def update_def updateChannel_def updateChannel_op_def
        isNoneEvents_def world_defs tie_to_def demo_world_def epoll_consts)
  ultimately show ?thesis
    unfolding conn_start_def
    by (intro exI [of _ 5] exI [of _ InetAddress_any] exI [of _ ?c] exI [of _ m] exI [of _ ?w0] exI [of _ 9]) simp
qed

lemma demo_start: "conn_start (\<lambda>k. k) demo_env 1 demo_world"
  using demo_start_env [of demo_env 0] by (simp add: demo_env_def echo_env_def demo_os_def) (simp add: demo_world_def)

lemmas demo_reach = reach_init [of "conn_start (\<lambda>k. k) demo_env 1" demo_world "conn_step demo_env 1 (\<lambda>_. True)", OF demo_start]

lemma demo_inv: "conn_inv (\<lambda>k. k) demo_env 1 demo_world"
  using demo_start by (rule echo_server.start_inv)

section \<open>What a send leaves behind\<close>

lemma chan_do_frame:
  assumes "chan_do f w = Inr w'"
  shows "evloop w' = evloop w" "sent w' = sent w" "submitted w' = submitted w" "shutWr w' = shutWr w"
    "closeCalls w' = closeCalls w" "state (cn w') = state (cn w)" "sockfd (cn w') = sockfd (cn w)"
    "outputBuffer (cn w') = outputBuffer (cn w)" "inputBuffer (cn w') = inputBuffer (cn w)"
    "highWaterMark (cn w') = highWaterMark (cn w)"
  using assms by (auto simp: chan_do_def upd_chan_def result_iffs)

definition mark_tasks :: "('k, 'e) env \<Rightarrow> nat \<Rightarrow> nat \<Rightarrow> nat \<Rightarrow> task list" where
  "mark_tasks env mark old new =
     (if highWaterMarkCallback env \<noteq> None \<and> old < mark \<and> mark \<le> new then [HighWaterMarkTask new] else [])"

lemma send_rest_result:
  assumes run: "send_rest env cur False rest w = Inr w'" and inv: "buffer_inv (outputBuffer (cn w))"
    and len: "length rest \<le> max_size"
  shows "contents (outputBuffer (cn w')) = contents (outputBuffer (cn w)) @ rest \<and>
    sent w' = sent w \<and> submitted w' = submitted w \<and> state (cn w') = state (cn w) \<and>
    inputBuffer (cn w') = inputBuffer (cn w) \<and>
    pendingTasks (evloop w') = pendingTasks (evloop w) @ mark_tasks env (highWaterMark (cn w))
      (length (contents (outputBuffer (cn w)))) (length (contents (outputBuffer (cn w))) + length rest)"
proof (cases "rest = []")
  case True
  then show ?thesis using run by (auto simp: send_rest_def mark_tasks_def)
next
  case False
  let ?old = "readableBytes (outputBuffer (cn w))"
  let ?new = "size_add ?old (length rest)"
  define w1 where "w1 = (if highWaterMarkCallback env \<noteq> None \<and> ?old < highWaterMark (cn w) \<and>
      highWaterMark (cn w) \<le> ?new then queue env cur (HighWaterMarkTask ?new) w else w)"
  have "?old \<le> max_size" using inv inv_bounds [OF inv] by (simp add: readableBytes_eq)
  then have new: "?new = ?old + length rest" using len by (intro size_add_eq) (simp add: max_size_def)
  have tasks: "pendingTasks (evloop w1) = pendingTasks (evloop w) @ mark_tasks env (highWaterMark (cn w))
      (length (contents (outputBuffer (cn w)))) (length (contents (outputBuffer (cn w))) + length rest)"
    and w1: "cn w1 = cn w" "sent w1 = sent w" "submitted w1 = submitted w"
    using inv by (simp_all add: w1_def mark_tasks_def new length_contents)
  obtain b where b: "append_b rest (outputBuffer (cn w)) = Inr b"
      "chan_do (enableWrite (os_ctl (os_of env)) (inLoop cur (upd_conn (outputBuffer_update (\<lambda>_. b)) w1)) (ptr env))
         (upd_conn (outputBuffer_update (\<lambda>_. b)) w1) = Inr w'"
    using run False w1(1) unfolding send_rest_def w1_def [symmetric] Let_def by (auto simp: result_iffs)
  have "contents b = contents (outputBuffer (cn w)) @ rest"
    using append_outcome [OF inv len] b(1) by simp
  then show ?thesis using chan_do_frame [OF b(2)] w1 tasks by (simp add: upd_conn_def)
qed

lemma sendInLoop_result:
  assumes "conn_client interest env cur" and "conn_inv interest env cur w"
    and "state (cn w) \<noteq> kDisconnected" and "data \<noteq> []" and "length data \<le> max_size"
    and "fst (os_write (os_of env) (sockfd (cn w)) data (kern w)) \<notin> {Inl EPIPE, Inl ECONNRESET}"
    and "sendInLoop env cur data w = Inr w'"
  shows "submitted w' = submitted w @ data \<and> inputBuffer (cn w') = inputBuffer (cn w) \<and> state (cn w') = state (cn w) \<and>
    pendingTasks (evloop w') = pendingTasks (evloop w) @
      (if \<not> isWriting (chan (cn w)) \<and> sent w' = submitted w' \<and> writeCompleteCallback env \<noteq> None
       then [WriteCompleteTask] else []) @
      mark_tasks env (highWaterMark (cn w)) (length (contents (outputBuffer (cn w))))
        (length (contents (outputBuffer (cn w'))))"
proof -
  note c = assms(1) and inv = assms(2)
  have base: "buffer_inv (outputBuffer (cn w))" "sent w @ contents (outputBuffer (cn w)) = submitted w"
    using inv assms(3) by (simp_all add: conn_inv_def conn_base_def live_def)
  let ?w0 = "w\<lparr>submitted := submitted w @ data\<rparr>"
  let ?r = "os_write (os_of env) (sockfd (cn w)) data (kern w)"
  note run = assms(7) [unfolded sendInLoop_cases [OF inv assms(3)] Let_def]
  show ?thesis
  proof (cases "isWriting (chan (cn w))")
    case True
    then have "send_rest env cur False data ?w0 = Inr w'" using run by simp
    from send_rest_result [OF this] show ?thesis using base assms(5) True by simp
  next
    case idle: False
    note out = idle_output [OF inv assms(3) idle]
    show ?thesis
    proof (cases "fst ?r")
      case (Inl e)
      then have "send_rest env cur False data (?w0\<lparr>kern := snd ?r\<rparr>) = Inr w'" using run idle assms(6) by auto
      from send_rest_result [OF this] show ?thesis using base assms(4,5) idle out by simp
    next
      case (Inr n)
      let ?w3 = "wrote env cur data n (?w0\<lparr>kern := snd ?r\<rparr>)"
      have send: "send_rest env cur False (drop n data) ?w3 = Inr w'" using run idle Inr by simp
      have all: "sent w @ take n data = submitted w @ data \<longleftrightarrow> length data - n = 0"
        using base(2) out conn_client.write_count [OF c Inr] by auto
      have len: "length (drop n data) \<le> max_size" using assms(5) by simp
      have "contents (outputBuffer (cn w')) = drop n data" "sent w' = sent w @ take n data"
          "submitted w' = submitted w @ data" "inputBuffer (cn w') = inputBuffer (cn w)" "state (cn w') = state (cn w)"
          "pendingTasks (evloop w') = pendingTasks (evloop ?w3) @ mark_tasks env (highWaterMark (cn w)) 0 (length (drop n data))"
        using send_rest_result [OF send _ len] base(1) out(1) by (simp_all del: length_drop)
      then show ?thesis
        by (simp add: all out(1) idle del: length_drop diff_is_0_eq)
    qed
  qed
qed

section \<open>Properties\<close>

text \<open>C2: No reachable state lets an assertion fail. Whatever sequence of socket events, queued tasks and calls
  of \<open>send\<close>, \<open>shutdown\<close>, \<open>forceClose\<close>, \<open>stopRead\<close> and \<open>startRead\<close> a connection has been through,
  the next permitted one returns or throws \<open>std::length_error\<close>: no assertion of the connection, its
  channel, its buffers or the poller fails and the program is not ended.\<close>

theorem connection_never_asserts:
  assumes "os_ok (os_of env) interest" and "hooks_ok interest env cur"
    and "reach (conn_start interest env cur) (conn_step env cur alive) w" and "enabled cur ev w"
  shows "outcome {Length_error} (\<lambda>_. True) (run_event env cur alive ev w)"
proof -
  have c: "conn_client interest env cur" using assms(1,2) by (rule conn_client.intro)
  then have "conn_inv interest env cur w" using conn_run.reachable_inv [OF assms(3)] by simp
  from conn_client.run_event_outcome [OF c this assms(4)] show ?thesis by (rule outcome_weaken) simp
qed

theorem connection_never_asserts_witness:
  "outcome {Length_error} (\<lambda>_. True) (run_event demo_env 1 (\<lambda>_. True) (Events EPOLLIN) demo_world)"
proof (rule connection_never_asserts [OF echo_server.os echo_server.hooks demo_reach])
  show "enabled 1 (Events EPOLLIN) demo_world"
    by (simp add: deliverable_def demo_world_def wantsWrite_def wantsClose_def epoll_consts)
qed

text \<open>C1: Nothing that was handed to \<open>sendInLoop\<close> is lost, repeated or reordered. In every reachable state
  the bytes the kernel accepted are a prefix of the bytes submitted; as long as the connection is
  not closed, what is missing is exactly the content of the output buffer, and the channel waits
  for writability exactly if something is missing.\<close>

theorem stream_integrity:
  assumes "os_ok (os_of env) interest" and "hooks_ok interest env cur"
    and "reach (conn_start interest env cur) (conn_step env cur alive) w"
  shows "prefix (sent w) (submitted w) \<and>
    (state (cn w) \<noteq> kDisconnected \<longrightarrow>
       sent w @ contents (outputBuffer (cn w)) = submitted w \<and>
       (isWriting (chan (cn w)) \<longleftrightarrow> sent w \<noteq> submitted w))"
proof -
  have "conn_client interest env cur" using assms(1,2) by (rule conn_client.intro)
  then have "conn_inv interest env cur w" using conn_run.reachable_inv [OF assms(3)] by simp
  then show ?thesis by (auto simp: conn_inv_def conn_base_def live_def)
qed

text \<open>After sending six bytes, of which the kernel accepted four.\<close>

lemma demo_send:
  "\<exists>w. reach (conn_start (\<lambda>k. k) demo_env 1) (conn_step demo_env 1 (\<lambda>_. True)) w \<and>
       state (cn w) = kConnected \<and> sent w = [1, 2, 3, 4] \<and> submitted w = [1, 2, 3, 4, 5, 6] \<and>
       \<not> shutWr w \<and> contents (outputBuffer (cn w)) = [5, 6]"
proof -
  obtain w where w: "run_event demo_env 1 (\<lambda>_. True) (Call 1 (Send [1, 2, 3, 4, 5, 6])) demo_world = Inr w"
      "state (cn w) = kConnected" "sent w = [1, 2, 3, 4]" "submitted w = [1, 2, 3, 4, 5, 6]" "\<not> shutWr w"
      "contents (outputBuffer (cn w)) = [5, 6]"
    by (simp add: contents_def slice_def blit_def send_def sendInLoop_def send_rest_def chan_do_def enableWrite_def update_def updateChannel_def
        updateChannel_op_def isNoneEvents_def isWriting_def world_defs demo_env_def echo_env_def demo_os_def
        demo_world_def epoll_consts fresh_buffer_def readableBytes_def writableBytes_def append_b_def
        ensureWritableBytes_def hasWritten_def beginWrite_def Let_def)
  have "enabled 1 (Call 1 (Send [1, 2, 3, 4, 5, 6])) demo_world" by (simp add: max_size_def)
  then have "conn_step demo_env 1 (\<lambda>_. True) demo_world w" using w(1) by (rule conn_stepI)
  then show ?thesis using reach_step [OF demo_reach] w(2-6) by blast
qed

theorem stream_integrity_witness:
  "\<exists>w. sent w = [1, 2, 3, 4] \<and> submitted w = [1, 2, 3, 4, 5, 6] \<and>
       contents (outputBuffer (cn w)) = [5, 6] \<and> isWriting (chan (cn w)) \<and>
       reach (conn_start (\<lambda>k. k) demo_env 1) (conn_step demo_env 1 (\<lambda>_. True)) w"
  using demo_send stream_integrity [OF echo_server.os echo_server.hooks] by fastforce

text \<open>C3: A connection is reported closed exactly once. In every reachable state the close callback has run
  once if the connection is closed and not at all otherwise, and the kernel watches the descriptor
  exactly if the connection is not closed.\<close>

theorem close_reported_once:
  assumes "os_ok (os_of env) interest" and "hooks_ok interest env cur"
    and "reach (conn_start interest env cur) (conn_step env cur alive) w"
  shows "closeCalls w = (if state (cn w) = kDisconnected \<and> closeCallback env \<noteq> None then 1 else 0) \<and>
    (interest (kern w) (chanfd (chan (cn w))) \<noteq> None \<longleftrightarrow> state (cn w) \<noteq> kDisconnected)"
proof -
  have "conn_client interest env cur" using assms(1,2) by (rule conn_client.intro)
  then have "conn_inv interest env cur w" using conn_run.reachable_inv [OF assms(3)] by simp
  then show ?thesis
    by (cases "state (cn w) = kDisconnected")
      (auto simp: conn_inv_def conn_base_def live_def dead_def registered_def agrees_def)
qed

lemma demo_close:
  "\<exists>w. reach (conn_start (\<lambda>k. k) demo_env 1) (conn_step demo_env 1 (\<lambda>_. True)) w \<and>
       state (cn w) = kDisconnected \<and> chanfd (chan (cn w)) = 5"
proof -
  obtain w where w: "run_event demo_env 1 (\<lambda>_. True) (Call 1 ForceClose) demo_world = Inr w"
      "state (cn w) = kDisconnected" "chanfd (chan (cn w)) = 5"
    by (simp add: forceClose_def stateAtomicGetAndSet_def forceCloseInLoop_def handleClose_def chan_do_def
        removeChannel_def updateChannel_op_def world_defs demo_env_def echo_env_def demo_os_def demo_world_def Let_def)
  have "conn_step demo_env 1 (\<lambda>_. True) demo_world w" using w(1) by (rule conn_stepI [rotated]) simp
  then show ?thesis using reach_step [OF demo_reach] w(2,3) by blast
qed

theorem close_reported_once_witness:
  "\<exists>w. reach (conn_start (\<lambda>k. k) demo_env 1) (conn_step demo_env 1 (\<lambda>_. True)) w \<and>
       state (cn w) = kDisconnected \<and> closeCalls w = 1 \<and> kern w 5 = None"
proof -
  obtain w where w: "reach (conn_start (\<lambda>k. k) demo_env 1) (conn_step demo_env 1 (\<lambda>_. True)) w"
      "state (cn w) = kDisconnected" "chanfd (chan (cn w)) = 5"
    using demo_close by blast
  have "closeCallback demo_env \<noteq> None" by (simp add: demo_env_def echo_env_def)
  then show ?thesis
    using w close_reported_once [OF echo_server.os echo_server.hooks w(1)] by auto
qed

text \<open>C4: \<open>shutdown\<close> closes the write side only after everything submitted has been sent. Called on a connected
  connection it closes it at once exactly if nothing is pending; otherwise the write handler sends
  what the kernel accepts and closes it exactly when the output buffer becomes empty.\<close>

theorem graceful_shutdown:
  assumes "os_ok (os_of env) interest" and "hooks_ok interest env cur"
    and "reach (conn_start interest env cur) (conn_step env cur alive) w"
    and "state (cn w) = kConnected" and "\<not> shutWr w"
  shows "\<exists>w1. shutdown env cur w = Inr w1 \<and> state (cn w1) = kDisconnecting \<and>
    sent w1 = sent w \<and> submitted w1 = submitted w \<and> outputBuffer (cn w1) = outputBuffer (cn w) \<and> (shutWr w1 \<longleftrightarrow> sent w = submitted w) \<and>
    (sent w \<noteq> submitted w \<longrightarrow>
      (\<forall>n. fst (os_write (os_of env) (sockfd (cn w1)) (contents (outputBuffer (cn w1))) (kern w1)) = Inr n \<longrightarrow>
        (\<exists>w2. handleWrite env cur w1 = Inr w2 \<and> submitted w2 = submitted w \<and>
              sent w2 = sent w @ take n (contents (outputBuffer (cn w1))) \<and>
              (shutWr w2 \<longleftrightarrow> sent w2 = submitted w2))))"
proof -
  have c: "conn_client interest env cur" using assms(1,2) by (rule conn_client.intro)
  then have inv: "conn_inv interest env cur w" using conn_run.reachable_inv [OF assms(3)] by simp
  let ?w = "set_state kDisconnecting w"
  have inv1: "conn_inv interest env cur ?w"
    using conn_client.disconnecting_inv [OF c inv] assms(4) by simp
  have pend: "sent w @ contents (outputBuffer (cn w)) = submitted w"
      "isWriting (chan (cn w)) \<longleftrightarrow> contents (outputBuffer (cn w)) \<noteq> []"
    using inv assms(4) by (simp_all add: conn_inv_def live_def)
  have run: "shutdown env cur w = shutdownInLoop env cur ?w"
    using assms(4) conn_inv_inLoop [OF inv1] by (simp add: shutdown_def stateAtomicGetAndSet_def Let_def)
  show ?thesis
  proof (cases "contents (outputBuffer (cn w)) = []")
    case True
    then show ?thesis
      using run pend conn_inv_inLoop [OF inv1] by (simp add: shutdownInLoop_def) (simp add: world_defs)
  next
    case False
    then have w1: "shutdown env cur w = Inr ?w"
      using run pend conn_inv_inLoop [OF inv1] by (simp add: shutdownInLoop_def) (simp add: world_defs)
    have f: "state (cn ?w) = kDisconnecting" "sent ?w = sent w" "submitted ?w = submitted w" "shutWr ?w = shutWr w"
        "outputBuffer (cn ?w) = outputBuffer (cn w)" "isWriting (chan (cn ?w))"
      using pend False by (simp_all add: world_defs)
    have drained: "n = length (contents (outputBuffer (cn w))) \<longleftrightarrow>
        sent w @ take n (contents (outputBuffer (cn w))) = submitted w"
      if "n \<le> length (contents (outputBuffer (cn w)))" for n
      using pend(1) that by (metis append_eq_append_conv length_take min.absorb2 order_refl take_all)
    have "sent w \<noteq> submitted w" using pend False by (metis append_self_conv)
    then show ?thesis
      using w1 f assms(5) conn_client.handleWrite_writes [OF c inv1] conn_client.write_count [OF c] drained
      by (intro exI [of _ ?w]) fastforce
  qed
qed

theorem graceful_shutdown_witness:
  "\<exists>w w1 w2. shutdown demo_env 1 w = Inr w1 \<and> \<not> shutWr w1 \<and> sent w1 = [1, 2, 3, 4] \<and>
     handleWrite demo_env 1 w1 = Inr w2 \<and> shutWr w2 \<and> sent w2 = [1, 2, 3, 4, 5, 6]"
proof -
  obtain w where w: "reach (conn_start (\<lambda>k. k) demo_env 1) (conn_step demo_env 1 (\<lambda>_. True)) w"
      "state (cn w) = kConnected" "sent w = [1, 2, 3, 4]" "submitted w = [1, 2, 3, 4, 5, 6]"
      "\<not> shutWr w" "contents (outputBuffer (cn w)) = [5, 6]"
    using demo_send by blast
  have wr: "fst (os_write (os_of demo_env) f d k) = Inr (min (length d) 4)" for f d k
    by (simp add: demo_env_def echo_env_def demo_os_def)
  show ?thesis
    using graceful_shutdown [OF echo_server.os echo_server.hooks w(1,2,5)] w(3,4,6) by (fastforce simp: wr)
qed

text \<open>C23: What a send announces. Sending a non-empty block on an open connection queues the write-complete
  callback exactly if nothing was pending and the kernel took everything, and the high-water-mark
  callback, with the new length, exactly if the length of the output buffer went from below the
  mark to the mark or beyond; nothing else is queued.\<close>

theorem send_notifications:
  assumes "os_ok (os_of env) interest" and "hooks_ok interest env cur"
    and "reach (conn_start interest env cur) (conn_step env cur alive) w"
    and "state (cn w) \<noteq> kDisconnected" and "data \<noteq> []" and "length data \<le> max_size"
    and "fst (os_write (os_of env) (sockfd (cn w)) data (kern w)) \<notin> {Inl EPIPE, Inl ECONNRESET}"
    and "sendInLoop env cur data w = Inr w'"
  shows "submitted w' = submitted w @ data \<and>
    pendingTasks (evloop w') = pendingTasks (evloop w) @
      (if \<not> isWriting (chan (cn w)) \<and> sent w' = submitted w' \<and> writeCompleteCallback env \<noteq> None
       then [WriteCompleteTask] else []) @
      mark_tasks env (highWaterMark (cn w)) (length (contents (outputBuffer (cn w))))
        (length (contents (outputBuffer (cn w'))))"
proof -
  have c: "conn_client interest env cur" using assms(1,2) by (rule conn_client.intro)
  then have "conn_inv interest env cur w" using conn_run.reachable_inv [OF assms(3)] by simp
  from sendInLoop_result [OF c this assms(4-8)] show ?thesis by simp
qed

text \<open>A client that wants both notifications, with the mark at two bytes.\<close>

definition notify_env :: "(int \<rightharpoonup> epoll_event, nat) env" where
  "notify_env = \<lparr>os_of = demo_os, efd_of = counter_efd, ptr = 7, messageCallback = None,
     writeCompleteCallback = Some Inr, highWaterMarkCallback = Some (\<lambda>_. Inr), closeCallback = Some Inr\<rparr>"

interpretation notified: conn_client "\<lambda>k. k" notify_env 1
  by unfold_locales (simp_all add: notify_env_def demo_os_ok hooks_ok_def call_opt_def safe_from_def)

theorem send_notifications_witness:
  "\<exists>w'. sendInLoop notify_env 1 [1, 2, 3, 4, 5, 6] (demo_world\<lparr>cn := (cn demo_world)\<lparr>highWaterMark := 2\<rparr>\<rparr>) = Inr w' \<and>
        submitted w' = [1, 2, 3, 4, 5, 6] \<and> pendingTasks (evloop w') = [HighWaterMarkTask 2]"
proof -
  let ?w = "demo_world\<lparr>cn := (cn demo_world)\<lparr>highWaterMark := 2\<rparr>\<rparr>" and ?d = "[1, 2, 3, 4, 5, 6] :: byte list"
  have start: "conn_start (\<lambda>k. k) notify_env 1 ?w"
    by (rule demo_start_env) (simp_all add: notify_env_def demo_os_def)
  obtain w' where w': "sendInLoop notify_env 1 ?d ?w = Inr w'" "sent w' = [1, 2, 3, 4]"
      "contents (outputBuffer (cn w')) = [5, 6]"
    by (simp add: contents_def slice_def blit_def sendInLoop_def send_rest_def chan_do_def enableWrite_def update_def
        updateChannel_def updateChannel_op_def isNoneEvents_def isWriting_def world_defs notify_env_def demo_os_def
        demo_world_def epoll_consts fresh_buffer_def readableBytes_def writableBytes_def append_b_def
        ensureWritableBytes_def hasWritten_def beginWrite_def Let_def queue_def)
  have facts: "state (cn ?w) \<noteq> kDisconnected" "submitted ?w = []" "pendingTasks (evloop ?w) = []"
      "highWaterMark (cn ?w) = 2" "length (contents (outputBuffer (cn ?w))) = 0"
    by (simp_all add: demo_world_def fresh_buffer_def contents_def)
  have "fst (os_write (os_of notify_env) (sockfd (cn ?w)) ?d (kern ?w)) \<notin> {Inl EPIPE, Inl ECONNRESET}"
    by (simp add: notify_env_def demo_os_def)
  with send_notifications [OF notified.os notified.hooks reach_init [of "conn_start (\<lambda>k. k) notify_env 1", OF start]
      facts(1) _ _ _ w'(1)] w' facts
  show ?thesis by (auto simp: mark_tasks_def notify_env_def max_size_def)
qed

text \<open>C39: A hang-up and an error reported together end the program. On an open connection, an event with
  EPOLLHUP and EPOLLERR but without EPOLLIN (a reset while reading is switched off) runs the close
  callback and then the error callback, whose \<open>handleClose\<close> asserts that the connection is not closed
  yet: the assertion fails.\<close>

theorem hup_err_asserts:
  assumes "os_ok (os_of env) interest" and "hooks_ok interest env cur"
    and "reach (conn_start interest env cur) (conn_step env cur alive) w"
    and "state (cn w) \<noteq> kDisconnected" and "wantsClose r" and "wantsError r"
    and "hasCb (chan (cn w)) CloseCb" and "hasCb (chan (cn w)) ErrorCb"
    and "tied (chan (cn w))" and "tie (chan (cn w)) = Some obj" and "alive obj"
  shows "outcome {Length_error, Assert_fail} (\<lambda>_. False) (run_event env cur alive (Events r) w)"
proof -
  have c: "conn_client interest env cur" using assms(1,2) by (rule conn_client.intro)
  then have inv: "conn_inv interest env cur w" using conn_run.reachable_inv [OF assms(3)] by simp
  let ?w = "upd_chan (handlingEvents_update (\<lambda>_. True)) (upd_chan (setRevents r) w)"
  let ?f = "fire (\<lambda>w. chan (cn w)) (conn_callback env cur)"
  have inv1: "conn_inv interest env cur ?w" using inv by simp
  have r1: "revents (chan (cn ?w)) = r" "hasCb (chan (cn ?w)) = hasCb (chan (cn w))" "state (cn ?w) \<noteq> kDisconnected"
    using assms(4) by (simp_all add: upd_chan_def setRevents_def)
  have close: "outcome {Length_error} (\<lambda>v. conn_inv interest env cur v \<and> follows ?w v \<and> state (cn v) = kDisconnected)
      (?f wantsClose CloseCb ?w)"
    using conn_client.handleClose_outcome [OF c conn_client.inv_closable [OF c inv1 r1(3)]] assms(5,7) r1(1,2)
    by (simp add: fire_def)
  have err: "?f wantsError ErrorCb v = Inl Assert_fail"
    if "conn_inv interest env cur v" "follows ?w v" "state (cn v) = kDisconnected" for v
  proof -
    have "revents (chan (cn v)) = r" "hasCb (chan (cn v)) ErrorCb" using that(2) r1 assms(8) by (simp_all add: follows_def)
    then have "?f wantsError ErrorCb v = handleError env cur v" using assms(6) by (simp add: fire_def)
    also have "\<dots> = Inl Assert_fail"
      using that conn_inv_inLoop [OF that(1)] by (simp add: handleError_def handleClose_def) (simp add: world_defs)
    finally show ?thesis .
  qed
  have thread: "inLoop cur (upd_chan (setRevents r) w)"
    using conn_inv_inLoop [OF inv] by (simp add: world_defs)
  have "run_event env cur alive (Events r) w =
      handleEventWithGuard (\<lambda>w. chan (cn w)) upd_chan (conn_callback env cur) (upd_chan (setRevents r) w)"
    using assms(9-11) thread by (simp add: conn_handleEvents_def handleEvents_def upd_chan_def setRevents_def)
  moreover have "outcome {Length_error, Assert_fail} (\<lambda>_. False) (bindE (?f wantsClose CloseCb ?w) (\<lambda>v. bindE (?f wantsError ErrorCb v) k))" for k
    unfolding outcome_bindE using close by (rule outcome_mono) (auto simp: err)
  ultimately show ?thesis by (simp add: handleEventWithGuard_def)
qed

theorem hup_err_asserts_witness:
  "outcome {Length_error, Assert_fail} (\<lambda>_. False)
     (run_event demo_env 1 (\<lambda>_. True) (Events (EPOLLHUP OR EPOLLERR)) demo_world)"
  by (rule hup_err_asserts [OF echo_server.os echo_server.hooks demo_reach, where obj = 9])
    (simp_all add: demo_world_def wantsClose_def wantsError_def epoll_consts)

text \<open>Switching reading on a closed connection puts its descriptor back into the poller. \<open>handleClose\<close> takes
  the channel out but leaves its event mask, so a later \<open>stopRead\<close> (for instance one that another
  thread queued before) finds the channel reading, clears EPOLLIN and registers the rest of the mask
  again, on a connection that is closed.\<close>

theorem read_switch_revives:
  assumes "os_ok (os_of env) interest" and "conn_inv interest env cur w"
    and "state (cn w) = kDisconnected" and "isReading (chan (cn w))" and "events (chan (cn w)) AND EPOLLPRI \<noteq> 0"
  shows "\<exists>w'. stopRead env cur w = Inr w' \<and> state (cn w') = kDisconnected \<and>
              interest (kern w') (chanfd (chan (cn w'))) \<noteq> None"
proof -
  let ?e = "new_events DisableRead (events (chan (cn w)))"
  have "?e AND EPOLLPRI \<noteq> 0" using assms(5) by (simp only: event_bits new_events_bits)
  then have ne: "?e \<noteq> 0" by auto
  have ctl: "epoll_ctl_ok (os_ctl (os_of env)) interest" using assms(1) by (simp add: os_ok_def)
  have ag: "agrees interest (ptr env) (chan (cn w), kern w)" using assms(2) by (simp add: conn_inv_def conn_base_def)
  obtain k where k: "chan_do (run_op (os_ctl (os_of env)) True (ptr env) DisableRead) w =
      Inr (upd_chan (\<lambda>ch. ch\<lparr>events := new_events DisableRead (events ch),
             pooling := new_events DisableRead (events ch) \<noteq> 0\<rparr>) (w\<lparr>kern := k\<rparr>))" (is "_ = Inr ?w'")
    "agrees interest (ptr env) ((chan (cn w))\<lparr>events := ?e, pooling := ?e \<noteq> 0\<rparr>, k)"
    using chan_op [OF ctl ag, of DisableRead] ne by blast
  have "stopRead env cur w = Inr ?w'"
    using k(1) assms(4) conn_inv_inLoop [OF assms(2)]
    by (simp add: stopRead_def runInLoop_def stopReadInLoop_def run_op_fun inLoop_def)
  moreover have "state (cn ?w') = kDisconnected" "interest (kern ?w') (chanfd (chan (cn ?w'))) \<noteq> None"
    using assms(3) k(2) ne by (auto simp del: new_events.simps simp: upd_chan_def agrees_def)
  ultimately show ?thesis by blast
qed

text \<open>The example connection after it was closed: only the state, the registration and the count changed.\<close>

lemma demo_closed:
  "conn_inv (\<lambda>k. k) demo_env 1 (demo_world\<lparr>cn := (cn demo_world)\<lparr>state := kDisconnected,
     chan := (chan (cn demo_world))\<lparr>pooling := False\<rparr>\<rparr>, kern := Map.empty, closeCalls := 1\<rparr>)"
  using demo_inv
  by (simp add: conn_inv_def conn_base_def dead_def agrees_def) (simp add: demo_env_def echo_env_def)

theorem read_switch_revives_witness:
  "\<exists>w'. stopRead demo_env 1 (demo_world\<lparr>cn := (cn demo_world)\<lparr>state := kDisconnected,
     chan := (chan (cn demo_world))\<lparr>pooling := False\<rparr>\<rparr>, kern := Map.empty, closeCalls := 1\<rparr>) = Inr w' \<and>
     state (cn w') = kDisconnected \<and> kern w' (chanfd (chan (cn w'))) \<noteq> None"
  by (rule read_switch_revives [OF echo_server.os demo_closed])
    (simp_all add: demo_world_def isReading_def epoll_consts)

text \<open>Reading closes the connection on every error, also on those that only mean that nothing can be read
  now. If \<open>readv\<close> answers EAGAIN or EINTR, an open connection is closed and its close callback runs.\<close>

theorem read_error_closes:
  assumes "os_ok (os_of env) interest" and "hooks_ok interest env cur"
    and "reach (conn_start interest env cur) (conn_step env cur alive) w"
    and "state (cn w) \<noteq> kDisconnected"
    and "fst (os_readv (os_of env) (sockfd (cn w)) (readFd_iov (inputBuffer (cn w))) (kern w)) = Inl e"
  shows "outcome {Length_error} (\<lambda>w'. state (cn w') = kDisconnected) (handleRead env cur w)"
proof -
  have c: "conn_client interest env cur" using assms(1,2) by (rule conn_client.intro)
  then have inv: "conn_inv interest env cur w" using conn_run.reachable_inv [OF assms(3)] by simp
  let ?k = "snd (os_readv (os_of env) (sockfd (cn w)) (readFd_iov (inputBuffer (cn w))) (kern w))"
  let ?w = "w\<lparr>kern := snd (os_getsockopt (os_of env) (sockfd (cn w)) ?k)\<rparr>"
  have inv1: "conn_inv interest env cur ?w"
    using inv conn_client.sys_interest [OF c] by (simp add: kern_frame)
  have "upd_conn (inputBuffer_update (\<lambda>_. inputBuffer (cn w))) (w\<lparr>kern := ?k\<rparr>) = w\<lparr>kern := ?k\<rparr>"
    by (simp add: upd_conn_def)
  then have "handleRead env cur w = handleError env cur (w\<lparr>kern := ?k\<rparr>)"
    using assms(4,5) conn_inv_inLoop [OF inv] by (simp add: handleRead_def readFd_def Let_def)
  also have "\<dots> = handleClose env cur ?w"
    using conn_inv_inLoop [OF inv] by (simp add: handleError_def inLoop_def)
  finally show ?thesis
    using conn_client.handleClose_outcome [OF c conn_client.inv_closable [OF c inv1]] assms(4)
    by (auto elim!: outcome_weaken)
qed

text \<open>A kernel with nothing to read.\<close>

definition again_env :: "(int \<rightharpoonup> epoll_event, nat) env" where
  "again_env = notify_env\<lparr>os_of := demo_os\<lparr>os_readv := (\<lambda>f iov k. (Inl EAGAIN, k))\<rparr>\<rparr>"

interpretation nothing_to_read: conn_client "\<lambda>k. k" again_env 1
  by unfold_locales (simp_all add: again_env_def notify_env_def demo_os_def map_ctl_ok os_ok_def readv_ok_def
      hooks_ok_def call_opt_def safe_from_def)

theorem read_error_closes_witness:
  "outcome {Length_error} (\<lambda>w'. state (cn w') = kDisconnected)
     (handleRead again_env 1 (demo_world\<lparr>cn := (cn demo_world)\<lparr>highWaterMark := 0\<rparr>\<rparr>))"
proof (rule read_error_closes [OF nothing_to_read.os nothing_to_read.hooks])
  show "reach (conn_start (\<lambda>k. k) again_env 1) (conn_step again_env 1 (\<lambda>_. True))
      (demo_world\<lparr>cn := (cn demo_world)\<lparr>highWaterMark := 0\<rparr>\<rparr>)"
    by (intro reach_init demo_start_env) (simp_all add: again_env_def notify_env_def demo_os_def)
qed (simp_all add: demo_world_def again_env_def notify_env_def)

end
