(* ===== verification/Timer_Queue.thy ===== *)
theory Timer_Queue
  imports Event_Loop "HOL-Library.Product_Lexorder"
begin

text \<open>
  \<open>class Timer\<close> and \<open>class TimerQueue\<close> (include/knetlib/Timer.h, src/TimerQueue.cpp) and the timer
  interface of \<open>EventLoop\<close>. Timers are objects on a heap, from addresses to timers, and an address
  without an object is freed memory; the \<open>std::set\<close> of deadlines with addresses is a strictly
  sorted list. Timestamps and intervals count nanoseconds and are integers (64 bits hold 292
  years). The clock, the allocator's answer and what a callback does are arguments. The locale
  \<open>timer_client\<close> is the contract of the callbacks.
\<close>

section \<open>Timers\<close>

record 'c timer =
  callback_t :: "'c option"
  when_t :: int
  interval_t :: int
  repeat_t :: bool
  canceled_t :: bool

definition Timer_new :: "'c option \<Rightarrow> int \<Rightarrow> int \<Rightarrow> 'c timer" where
  "Timer_new c w i = \<lparr>callback_t = c, when_t = w, interval_t = i, repeat_t = (0 < i), canceled_t = False\<rparr>"

definition expired :: "int \<Rightarrow> 'c timer \<Rightarrow> bool" where
  "expired now t \<longleftrightarrow> when_t t \<le> now"

definition restart :: "'c timer \<Rightarrow> 'c timer result" where
  "restart t = bindE (assertE (repeat_t t)) (\<lambda>_. Inr (t\<lparr>when_t := when_t t + interval_t t\<rparr>))"

definition cancel :: "'c timer \<Rightarrow> 'c timer result" where
  "cancel t = bindE (assertE (\<not> canceled_t t)) (\<lambda>_. Inr (t\<lparr>canceled_t := True\<rparr>))"

section \<open>The queue\<close>

datatype timer_task = InsertTimer int nat | CancelTimer nat

text \<open>
  \<open>armed\<close> is the time at which the timer descriptor will become readable, if it is set; \<open>fired\<close>
  records the timers that ran, and \<open>usr\<close> is the state of the callbacks.
\<close>

record ('c, 'e, 'u) tq =
  tloop :: "(timer_task, 'e) eventloop"
  theap :: "nat \<rightharpoonup> 'c timer"
  timers :: "(int \<times> nat) list"
  armed :: "int option"
  fired :: "nat list"
  usr :: 'u

definition upd_tloop :: "((timer_task, 'e) eventloop \<Rightarrow> (timer_task, 'e) eventloop) \<Rightarrow> ('c, 'e, 'u) tq \<Rightarrow> ('c, 'e, 'u) tq" where
  "upd_tloop f s = s\<lparr>tloop := f (tloop s)\<rparr>"

text \<open>\<open>timespec\<close> as seconds and nanoseconds; the division truncates, and its operand is positive.\<close>

definition durationFromNow :: "int \<Rightarrow> int \<Rightarrow> int \<times> int" where
  "durationFromNow now w =
     (let ns = w - now;
          ns = (if ns < 1000000 then 1000000 else ns) in
      (ns div 1000000000, ns mod 1000000000))"

definition timerfdSet :: "int \<Rightarrow> int \<Rightarrow> ('c, 'e, 'u) tq \<Rightarrow> ('c, 'e, 'u) tq" where
  "timerfdSet now w s =
     (let (sec, nsec) = durationFromNow now w in s\<lparr>armed := Some (now + (sec * 1000000000 + nsec))\<rparr>)"

text \<open>Reading the descriptor clears it; it is not set again until the next \<open>timerfdSet\<close>.\<close>

definition timerfdRead :: "('c, 'e, 'u) tq \<Rightarrow> ('c, 'e, 'u) tq" where
  "timerfdRead s = s\<lparr>armed := None\<rparr>"

text \<open>The operations of \<open>std::set\<close>: \<open>insert\<close> with its two results, \<open>lower_bound\<close> as a length.\<close>

fun set_insert :: "int \<times> nat \<Rightarrow> (int \<times> nat) list \<Rightarrow> (int \<times> nat) list" where
  "set_insert e [] = [e]"
| "set_insert e (x # xs) = (if e < x then e # x # xs else if e = x then x # xs else x # set_insert e xs)"

definition lower_bound :: "int \<times> nat \<Rightarrow> (int \<times> nat) list \<Rightarrow> nat" where
  "lower_bound e xs = length (takeWhile (\<lambda>x. x < e) xs)"

definition timerfdCreate :: "int \<Rightarrow> int result" where
  "timerfdCreate f = (if f = - 1 then Inl Fatal_abort else Inr f)"

definition TimerQueue_new :: "'k epoll_ctl \<Rightarrow> bool \<Rightarrow> int \<Rightarrow> nat \<Rightarrow> 'k \<Rightarrow> (channel \<times> 'k) result" where
  "TimerQueue_new ctl inLoop f p k =
     bindE (timerfdCreate f) (\<lambda>f.
     bindE (assertE inLoop) (\<lambda>_.
     enableRead ctl inLoop p (setReadCallback True (Channel_new f), k)))"

text \<open>\<open>delete\<close> of an address that holds no object is undefined.\<close>

definition delete_timer :: "nat \<Rightarrow> ('c, 'e, 'u) tq \<Rightarrow> ('c, 'e, 'u) tq result" where
  "delete_timer p s = (if theap s p = None then Inl Use_after_free else Inr (s\<lparr>theap := (theap s)(p := None)\<rparr>))"

text \<open>The destructor deletes the registered timers and returns the descriptor it closes.\<close>

definition TimerQueue_delete :: "int \<Rightarrow> ('c, 'e, 'u) tq \<Rightarrow> (int list \<times> ('c, 'e, 'u) tq) result" where
  "TimerQueue_delete tfd s =
     bindE (foldE (\<lambda>e. delete_timer (snd e)) (timers s) s) (\<lambda>s'.
     Inr (if tfd \<noteq> - 1 then [tfd] else [], s'))"

text \<open>The closures of \<open>addTimer\<close> and \<open>cancelTimer\<close>.\<close>

definition insertTimer :: "int \<Rightarrow> int \<Rightarrow> nat \<Rightarrow> ('c, 'e, 'u) tq \<Rightarrow> ('c, 'e, 'u) tq result" where
  "insertTimer now w p s =
     bindE (assertE ((w, p) \<notin> set (timers s))) (\<lambda>_.
     let s1 = s\<lparr>timers := set_insert (w, p) (timers s)\<rparr> in
     Inr (if hd (timers s1) = (w, p) then timerfdSet now w s1 else s1))"

definition cancelInLoop :: "nat \<Rightarrow> ('c, 'e, 'u) tq \<Rightarrow> ('c, 'e, 'u) tq result" where
  "cancelInLoop p s =
     (case theap s p of
        None \<Rightarrow> Inl Use_after_free
      | Some t \<Rightarrow>
          bindE (cancel t) (\<lambda>t'.
          let s1 = s\<lparr>theap := (theap s)(p \<mapsto> t')\<rparr> in
          case find (\<lambda>e. snd e = p) (timers s1) of
            Some e \<Rightarrow> delete_timer p (s1\<lparr>timers := remove1 e (timers s1)\<rparr>)
          | None \<Rightarrow> delete_timer p s1))"

fun run_timer_task :: "int \<Rightarrow> timer_task \<Rightarrow> ('c, 'e, 'u) tq \<Rightarrow> ('c, 'e, 'u) tq result" where
  "run_timer_task now (InsertTimer w p) s = insertTimer now w p s"
| "run_timer_task now (CancelTimer p) s = cancelInLoop p s"

text \<open>\<open>p\<close> is the address that \<open>new Timer\<close> returns.\<close>

definition addTimer ::
  "'e eventfd \<Rightarrow> int \<Rightarrow> int \<Rightarrow> nat \<Rightarrow> 'c option \<Rightarrow> int \<Rightarrow> int \<Rightarrow> ('c, 'e, 'u) tq \<Rightarrow> ('c, 'e, 'u) tq result" where
  "addTimer e cur now p c w i s =
     runInLoop e cur tloop upd_tloop (run_timer_task now) (InsertTimer w p)
       (s\<lparr>theap := (theap s)(p \<mapsto> Timer_new c w i)\<rparr>)"

definition cancelTimer :: "'e eventfd \<Rightarrow> int \<Rightarrow> int \<Rightarrow> nat \<Rightarrow> ('c, 'e, 'u) tq \<Rightarrow> ('c, 'e, 'u) tq result" where
  "cancelTimer e cur now p s = runInLoop e cur tloop upd_tloop (run_timer_task now) (CancelTimer p) s"

definition getExpired :: "int \<Rightarrow> ('c, 'e, 'u) tq \<Rightarrow> (int \<times> nat) list \<times> ('c, 'e, 'u) tq" where
  "getExpired now s =
     (let n = lower_bound (now + 1, 0) (timers s) in
      (take n (timers s), s\<lparr>timers := drop n (timers s)\<rparr>))"

text \<open>\<open>Timer::run\<close>; \<open>run\<close> says what a callback does.\<close>

definition run_timer ::
  "('c \<Rightarrow> ('c, 'e, 'u) tq \<Rightarrow> ('c, 'e, 'u) tq result) \<Rightarrow> nat \<Rightarrow> 'c timer \<Rightarrow> ('c, 'e, 'u) tq \<Rightarrow> ('c, 'e, 'u) tq result" where
  "run_timer run p t s =
     (case callback_t t of None \<Rightarrow> Inr s | Some c \<Rightarrow> run c (s\<lparr>fired := fired s @ [p]\<rparr>))"

text \<open>The body of the loop over the expired entries.\<close>

definition run_expired ::
  "('c \<Rightarrow> ('c, 'e, 'u) tq \<Rightarrow> ('c, 'e, 'u) tq result) \<Rightarrow> int \<Rightarrow> int \<times> nat \<Rightarrow> ('c, 'e, 'u) tq \<Rightarrow> ('c, 'e, 'u) tq result" where
  "run_expired run now en s =
     (let p = snd en in
      case theap s p of
        None \<Rightarrow> Inl Use_after_free
      | Some t \<Rightarrow>
          bindE (assertE (expired now t)) (\<lambda>_.
          bindE (if \<not> canceled_t t then run_timer run p t s else Inr s) (\<lambda>s1.
          case theap s1 p of
            None \<Rightarrow> Inl Use_after_free
          | Some t1 \<Rightarrow>
              if \<not> canceled_t t1 \<and> repeat_t t1 then
                bindE (restart t1) (\<lambda>t2.
                Inr (s1\<lparr>theap := (theap s1)(p \<mapsto> t2), timers := set_insert (when_t t2, p) (timers s1)\<rparr>))
              else delete_timer p s1)))"

text \<open>The clock is read twice: for the expired timers (\<open>now\<close>) and when the descriptor is set (\<open>now2\<close>).\<close>

definition handleRead_timers ::
  "('c \<Rightarrow> ('c, 'e, 'u) tq \<Rightarrow> ('c, 'e, 'u) tq result) \<Rightarrow> int \<Rightarrow> int \<Rightarrow> int \<Rightarrow> ('c, 'e, 'u) tq \<Rightarrow> ('c, 'e, 'u) tq result" where
  "handleRead_timers run cur now now2 s =
     bindE (assertInLoopThread cur (tloop s)) (\<lambda>_.
     let (expd, s1) = getExpired now (timerfdRead s) in
     bindE (foldE (run_expired run now) expd s1) (\<lambda>s2.
     Inr (if timers s2 \<noteq> [] then timerfdSet now2 (fst (hd (timers s2))) s2 else s2)))"

section \<open>The interface of the event loop\<close>

definition runAt where
  "runAt e cur now p w c s = addTimer e cur now p c w 0 s"

definition runAfter where
  "runAfter e cur now p interval c s = runAt e cur now p (now + interval) c s"

definition runEvery where
  "runEvery e cur now p interval c s = addTimer e cur now p c (now + interval) interval s"

definition cancelTimer_loop where
  "cancelTimer_loop e cur now p s = cancelTimer e cur now p s"

interpretation timer_loop: loop_host tloop upd_tloop
  by unfold_locales (simp add: upd_tloop_def)

section \<open>Invariant and contract\<close>

text \<open>
  \<open>tq_inv B s\<close>: the set is sorted, its entries are the deadlines of live timers at distinct
  addresses, and the allocated timers are those of the set and those in \<open>B\<close>, which are held by the
  expired batch or by a task that will insert them.
\<close>

definition tq_inv :: "nat set \<Rightarrow> ('c, 'e, 'u) tq \<Rightarrow> bool" where
  "tq_inv B s \<longleftrightarrow>
     sorted_wrt (<) (timers s) \<and> distinct (map snd (timers s)) \<and>
     (\<forall>(w, p) \<in> set (timers s). 0 < p \<and> p \<notin> B \<and>
        (\<exists>t. theap s p = Some t \<and> when_t t = w \<and> \<not> canceled_t t)) \<and>
     (\<forall>p \<in> B. 0 < p \<and> (\<exists>t. theap s p = Some t \<and> \<not> canceled_t t)) \<and>
     dom (theap s) = snd ` set (timers s) \<union> B \<and> finite B"

text \<open>
  What a callback may do: anything that keeps the invariant and leaves the timers held elsewhere,
  its own among them, alone.
\<close>

locale timer_client =
  fixes run :: "'c \<Rightarrow> ('c, 'e, 'u) tq \<Rightarrow> ('c, 'e, 'u) tq result"
  assumes run_keeps: "tq_inv B s \<Longrightarrow>
     outcome {} (\<lambda>s'. tq_inv B s' \<and> (\<forall>p \<in> B. theap s' p = theap s p) \<and> fired s' = fired s \<and>
       tid (tloop s') = tid (tloop s)) (run c s)"

section \<open>Lemmas on sorted sets of deadlines\<close>

lemma set_set_insert [simp]: "set (set_insert e xs) = insert e (set xs)"
  by (induction xs) auto

lemma set_insert_not_Nil [simp]: "set_insert e xs \<noteq> []"
  by (cases xs) auto

lemma sorted_set_insert: "sorted_wrt (<) xs \<Longrightarrow> sorted_wrt (<) (set_insert e xs)"
proof (induction xs)
  case (Cons x xs)
  then show ?case
    by (cases "e < x"; cases "e = x") (auto intro: less_trans simp: not_less_iff_gr_or_eq)
qed simp

lemma distinct_set_insert:
  "distinct (map snd xs) \<Longrightarrow> snd e \<notin> snd ` set xs \<Longrightarrow> distinct (map snd (set_insert e xs))"
  by (induction xs) (auto simp: image_iff)


text \<open>The bound \<open>(now + 1ns, nullptr)\<close> splits the set exactly at the timers that are due.\<close>

lemma below_bound: "0 < p \<Longrightarrow> ((w, p) < (now + 1 :: int, 0 :: nat)) \<longleftrightarrow> w \<le> now"
  by auto

lemma split_expired:
  assumes "sorted_wrt (<) xs" and "\<forall>x \<in> set xs. 0 < snd x"
  shows "take (lower_bound (now + 1, 0) xs) xs = filter (\<lambda>x. fst x \<le> now) xs \<and>
         drop (lower_bound (now + 1, 0) xs) xs = filter (\<lambda>x. now < fst x) xs"
  using assms
proof (induction xs)
  case Nil
  then show ?case by (simp add: lower_bound_def)
next
  case (Cons x xs)
  obtain w p where x: "x = (w, p)" by fastforce
  have p: "0 < p" using Cons.prems(2) x by simp
  show ?case
  proof (cases "w \<le> now")
    case True
    then have "x < (now + 1, 0)" using below_bound [OF p] x by simp
    then show ?thesis using Cons True x by (simp add: lower_bound_def)
  next
    case False
    then have ge: "\<not> x < (now + 1, 0)" using below_bound [OF p] x by simp
    have "\<forall>y \<in> set xs. now < fst y"
      using Cons.prems(1) False x by (auto simp: less_prod_def)
    then have "filter (\<lambda>x. fst x \<le> now) xs = []" "filter (\<lambda>x. now < fst x) xs = xs"
      by (auto simp: filter_empty_conv filter_id_conv)
    then show ?thesis using ge False x by (simp add: lower_bound_def)
  qed
qed

lemma duration_exact:
  "fst (durationFromNow now w) * 1000000000 + snd (durationFromNow now w) = max (w - now) 1000000"
  by (auto simp: durationFromNow_def Let_def max_def)

lemma timerfdSet_armed: "timerfdSet now w s = s\<lparr>armed := Some (max w (now + 1000000))\<rparr>"
  using duration_exact [of now w] by (auto simp: timerfdSet_def case_prod_beta max_def)

section \<open>The operations keep the invariant\<close>

lemma tq_inv_entry:
  assumes "tq_inv B s" and "(w, p) \<in> set (timers s)"
  shows "0 < p" "p \<notin> B" "\<exists>t. theap s p = Some t \<and> when_t t = w \<and> \<not> canceled_t t"
  using assms by (auto simp: tq_inv_def)

lemma tq_inv_held:
  assumes "tq_inv B s" and "p \<in> B"
  shows "0 < p" "p \<notin> snd ` set (timers s)" "\<exists>t. theap s p = Some t \<and> \<not> canceled_t t"
  using assms by (auto simp: tq_inv_def)

lemma tq_inv_frame [simp]:
  "tq_inv B (s\<lparr>armed := a\<rparr>) = tq_inv B s" "tq_inv B (s\<lparr>fired := f\<rparr>) = tq_inv B s"
  "tq_inv B (s\<lparr>tloop := l\<rparr>) = tq_inv B s"
  by (simp_all add: tq_inv_def)

text \<open>A held timer enters the set.\<close>

lemma enter_inv:
  assumes "tq_inv (insert p B) s" and "p \<notin> B" and "\<not> canceled_t t"
  shows "tq_inv B (s\<lparr>theap := (theap s)(p \<mapsto> t), timers := set_insert (when_t t, p) (timers s)\<rparr>)"
proof -
  have p: "0 < p" "p \<notin> snd ` set (timers s)" using tq_inv_held [OF assms(1)] by simp_all
  have "\<forall>(w, q) \<in> set (timers s). q \<noteq> p" using p(2) by force
  then show ?thesis
    using assms p unfolding tq_inv_def
    by (auto simp: sorted_set_insert distinct_set_insert dom_def)
qed

lemma insertTimer_ok:
  assumes "tq_inv (insert p B) s" and "p \<notin> B" and "theap s p = Some t" and "when_t t = w"
  shows "\<exists>s'. insertTimer now w p s = Inr s' \<and> tq_inv B s' \<and> theap s' = theap s \<and>
           timers s' = set_insert (w, p) (timers s) \<and> fired s' = fired s \<and> tloop s' = tloop s"
proof -
  have "\<not> canceled_t t" "(w, p) \<notin> set (timers s)"
    using tq_inv_held [OF assms(1), of p] assms(3) by force+
  moreover have "(theap s)(p \<mapsto> t) = theap s" using assms(3) by (simp add: fun_upd_idem)
  ultimately have "tq_inv B (s\<lparr>timers := set_insert (w, p) (timers s)\<rparr>)"
    using enter_inv [OF assms(1,2), of t] assms(4) by (simp add: tq_inv_def)
  then show ?thesis
    using \<open>(w, p) \<notin> set (timers s)\<close>
    by (simp add: insertTimer_def timerfdSet_armed Let_def)
qed

text \<open>A held timer is deleted.\<close>

lemma delete_held:
  assumes "tq_inv (insert p B) s" and "p \<notin> B"
  shows "\<exists>s'. delete_timer p s = Inr s' \<and> tq_inv B s' \<and> theap s' = (theap s)(p := None) \<and>
           timers s' = timers s \<and> fired s' = fired s \<and> tloop s' = tloop s"
proof -
  have p: "p \<notin> snd ` set (timers s)" "theap s p \<noteq> None" using tq_inv_held [OF assms(1), of p] by auto
  have "\<forall>(w, q) \<in> set (timers s). q \<noteq> p" using p(1) by force
  then have "tq_inv B (s\<lparr>theap := (theap s)(p := None)\<rparr>)"
    using assms unfolding tq_inv_def by (auto simp: dom_def)
  then show ?thesis using p by (simp add: delete_timer_def)
qed

text \<open>A registered timer is taken out of the set.\<close>

lemma leave_inv:
  assumes "tq_inv B s" and "(w, p) \<in> set (timers s)"
  shows "tq_inv (insert p B) (s\<lparr>timers := remove1 (w, p) (timers s)\<rparr>)"
proof -
  have d: "distinct (map snd (timers s))" "sorted_wrt (<) (timers s)" using assms(1) by (simp_all add: tq_inv_def)
  then have dt: "distinct (timers s)" by (simp add: distinct_map)
  have other: "q \<noteq> p" if "(v, q) \<in> set (timers s)" "(v, q) \<noteq> (w, p)" for v q
    using d(1) assms(2) that by (metis distinct_map inj_onD snd_conv)
  have set: "set (remove1 (w, p) (timers s)) = set (timers s) - {(w, p)}" using dt by simp
  have dom: "snd ` (set (timers s) - {(w, p)}) \<union> insert p B = snd ` set (timers s) \<union> B"
    using assms(2) by force
  have "distinct (map snd (remove1 (w, p) (timers s)))"
    using d(1) by (metis distinct_map distinct_remove1 dt inj_on_subset set_remove1_subset)
  moreover have "sorted_wrt (<) (remove1 (w, p) (timers s))"
    using d(2) by (metis sorted_wrt_filter distinct_remove1_removeAll dt removeAll_filter_not_eq)
  moreover have "p \<in> snd ` set (timers s)" using assms(2) by force
  ultimately show ?thesis
    using assms other unfolding tq_inv_def by (auto simp: set dom)
qed

lemma find_entry:
  assumes "distinct (map snd xs)" and "(w, p) \<in> set xs" shows "find (\<lambda>e. snd e = p) xs = Some (w, p)"
  using assms by (induction xs) (auto simp: rev_image_eqI)

lemma cancelInLoop_ok:
  assumes "tq_inv B s" and "(w, p) \<in> set (timers s)"
  shows "\<exists>s'. cancelInLoop p s = Inr s' \<and> tq_inv B s' \<and> theap s' = (theap s)(p := None) \<and>
           timers s' = remove1 (w, p) (timers s) \<and> fired s' = fired s \<and> tloop s' = tloop s"
proof -
  obtain t where t: "theap s p = Some t" "\<not> canceled_t t" using tq_inv_entry [OF assms] by blast
  have f: "find (\<lambda>e. snd e = p) (timers s) = Some (w, p)"
    using assms by (intro find_entry) (simp_all add: tq_inv_def)
  have "p \<notin> B" using tq_inv_entry [OF assms] by blast
  from delete_held [OF leave_inv [OF assms] this] t f show ?thesis
    by (auto simp: cancelInLoop_def cancel_def delete_timer_def tq_inv_def split: if_splits)
qed

context timer_client
begin

text \<open>One expired timer: it runs, and then it is rescheduled or deleted.\<close>

lemma run_expired_ok:
  assumes inv: "tq_inv (insert p B) s" and new: "p \<notin> B" and t: "theap s p = Some t" and due: "when_t t \<le> now"
  shows "\<exists>s'. run_expired run now (w, p) s = Inr s' \<and> tq_inv B s' \<and>
           (\<forall>q \<in> B. theap s' q = theap s q) \<and> tid (tloop s') = tid (tloop s) \<and>
           fired s' = fired s @ (if callback_t t = None then [] else [p]) \<and>
           (if repeat_t t then (when_t t + interval_t t, p) \<in> set (timers s') else theap s' p = None)"
proof -
  have nc: "\<not> canceled_t t" using tq_inv_held [OF inv, of p] t by simp
  obtain s1 where s1: "run_timer run p t s = Inr s1" "tq_inv (insert p B) s1" "\<forall>q \<in> insert p B. theap s1 q = theap s q"
      "tid (tloop s1) = tid (tloop s)" "fired s1 = fired s @ (if callback_t t = None then [] else [p])"
  proof (cases "callback_t t")
    case None
    then show ?thesis using inv by (intro that [of s]) (simp_all add: run_timer_def)
  next
    case (Some c)
    then show ?thesis
      using run_keeps [of "insert p B" "s\<lparr>fired := fired s @ [p]\<rparr>" c] inv that
      by (auto simp: run_timer_def outcome_empty_iff)
  qed
  have t1: "theap s1 p = Some t" using s1(3) t by simp
  have run: "run_expired run now (w, p) s =
      (if repeat_t t
       then Inr (s1\<lparr>theap := (theap s1)(p \<mapsto> t\<lparr>when_t := when_t t + interval_t t\<rparr>),
                   timers := set_insert (when_t t + interval_t t, p) (timers s1)\<rparr>)
       else delete_timer p s1)"
    using t t1 nc due s1(1) by (simp add: run_expired_def expired_def restart_def)
  show ?thesis
  proof (cases "repeat_t t")
    case True
    have "tq_inv B (s1\<lparr>theap := (theap s1)(p \<mapsto> t\<lparr>when_t := when_t t + interval_t t\<rparr>),
        timers := set_insert (when_t t + interval_t t, p) (timers s1)\<rparr>)"
      using enter_inv [OF s1(2) new, of "t\<lparr>when_t := when_t t + interval_t t\<rparr>"] nc by simp
    then show ?thesis using run True s1 new by auto
  next
    case False
    obtain s2 where "delete_timer p s1 = Inr s2" "tq_inv B s2" "theap s2 = (theap s1)(p := None)"
        "fired s2 = fired s1" "tloop s2 = tloop s1"
      using delete_held [OF s1(2) new] by blast
    then show ?thesis using run False s1 new by auto
  qed
qed

text \<open>The whole batch.\<close>

lemma run_batch_ok:
  assumes "tq_inv (snd ` set es \<union> B) s" and "distinct (map snd es)" and "snd ` set es \<inter> B = {}"
    and "\<forall>e \<in> set es. \<exists>t. theap s (snd e) = Some t \<and> when_t t \<le> now"
  shows "\<exists>s'. foldE (run_expired run now) es s = Inr s' \<and> tq_inv B s' \<and> tid (tloop s') = tid (tloop s) \<and>
     (\<forall>q \<in> B. theap s' q = theap s q) \<and>
     fired s' = fired s @ map snd (filter (\<lambda>e. callback_t (the (theap s (snd e))) \<noteq> None) es)"
  using assms
proof (induction es arbitrary: s)
  case Nil
  then show ?case by simp
next
  case (Cons e es)
  obtain w p where e: "e = (w, p)" by fastforce
  let ?B = "snd ` set es \<union> B"
  obtain t where t: "theap s p = Some t" "when_t t \<le> now" using Cons.prems(4) e by auto
  have "tq_inv (insert p ?B) s" "p \<notin> ?B" using Cons.prems(1-3) e by auto
  then obtain s1 where s1: "run_expired run now (w, p) s = Inr s1" "tq_inv ?B s1" "\<forall>q \<in> ?B. theap s1 q = theap s q"
      "tid (tloop s1) = tid (tloop s)" "fired s1 = fired s @ (if callback_t t = None then [] else [p])"
    using run_expired_ok [of p ?B s t now w] t by blast
  have "\<forall>e \<in> set es. \<exists>t. theap s1 (snd e) = Some t \<and> when_t t \<le> now" using Cons.prems(4) s1(3) by simp
  then obtain s2 where s2: "foldE (run_expired run now) es s1 = Inr s2" "tq_inv B s2" "tid (tloop s2) = tid (tloop s1)"
      "\<forall>q \<in> B. theap s2 q = theap s1 q"
      "fired s2 = fired s1 @ map snd (filter (\<lambda>e. callback_t (the (theap s1 (snd e))) \<noteq> None) es)"
    using Cons.IH [OF s1(2)] Cons.prems(2,3) by auto
  have "filter (\<lambda>e. callback_t (the (theap s1 (snd e))) \<noteq> None) es =
        filter (\<lambda>e. callback_t (the (theap s (snd e))) \<noteq> None) es"
    using s1(3) by (intro filter_cong) simp_all
  then show ?case using s1 s2 e t by auto
qed

end

text \<open>Taking the due timers out of the set.\<close>

lemma getExpired_inv:
  assumes inv: "tq_inv B s"
  shows "fst (getExpired now s) = filter (\<lambda>e. fst e \<le> now) (timers s)"
    "timers (snd (getExpired now s)) = filter (\<lambda>e. now < fst e) (timers s)"
    "tq_inv (snd ` set (fst (getExpired now s)) \<union> B) (snd (getExpired now s))"
proof -
  have s: "sorted_wrt (<) (timers s)" "distinct (map snd (timers s))" "\<forall>x \<in> set (timers s). 0 < snd x" and fin: "finite B"
    using inv by (auto simp: tq_inv_def)
  show parts: "fst (getExpired now s) = filter (\<lambda>e. fst e \<le> now) (timers s)"
    "timers (snd (getExpired now s)) = filter (\<lambda>e. now < fst e) (timers s)"
    using split_expired [OF s(1,3), of now] by (simp_all add: getExpired_def Let_def)
  have inj: "inj_on snd (set (timers s))" using s(2) by (simp add: distinct_map)
  have dis: "snd ` set (filter (\<lambda>e. fst e \<le> now) (timers s)) \<inter> snd ` set (filter (\<lambda>e. now < fst e) (timers s)) = {}"
  proof -
    have False if "x \<in> set (timers s)" "y \<in> set (timers s)" "snd x = snd y" "fst x \<le> now" "now < fst y" for x y
      using inj_onD [OF inj that(3) that(1,2)] that(4,5) by simp
    then show ?thesis by fastforce
  qed
  have un: "snd ` set (filter (\<lambda>e. now < fst e) (timers s)) \<union> snd ` set (filter (\<lambda>e. fst e \<le> now) (timers s)) =
      snd ` set (timers s)" by (auto simp: image_iff) (metis linorder_not_le snd_conv fst_conv)
  have "theap (snd (getExpired now s)) = theap s" by (simp add: getExpired_def Let_def)
  moreover have "distinct (map snd (filter (\<lambda>e. now < fst e) (timers s)))" by (rule distinct_map_filter [OF s(2)])
  moreover have "sorted_wrt (<) (filter (\<lambda>e. now < fst e) (timers s))" by (rule sorted_wrt_filter [OF s(1)])
  moreover have "\<forall>(w, p) \<in> set (filter (\<lambda>e. now < fst e) (timers s)). 0 < p \<and>
      p \<notin> snd ` set (filter (\<lambda>e. fst e \<le> now) (timers s)) \<union> B \<and>
      (\<exists>t. theap s p = Some t \<and> when_t t = w \<and> \<not> canceled_t t)"
  proof (clarify)
    fix w p assume e: "(w, p) \<in> set (filter (\<lambda>e. now < fst e) (timers s))"
    then have "(w, p) \<in> set (timers s)" by simp
    moreover have "p \<notin> snd ` set (filter (\<lambda>e. fst e \<le> now) (timers s))" using dis e by force
    ultimately show "0 < p \<and> p \<notin> snd ` set (filter (\<lambda>e. fst e \<le> now) (timers s)) \<union> B \<and>
      (\<exists>t. theap s p = Some t \<and> when_t t = w \<and> \<not> canceled_t t)"
      using tq_inv_entry [OF inv] by blast
  qed
  moreover have "\<forall>p \<in> snd ` set (filter (\<lambda>e. fst e \<le> now) (timers s)) \<union> B.
      0 < p \<and> (\<exists>t. theap s p = Some t \<and> \<not> canceled_t t)"
    using tq_inv_held [OF inv] tq_inv_entry [OF inv] by fastforce
  moreover have "dom (theap s) = snd ` set (timers s) \<union> B" using inv by (simp add: tq_inv_def)
  ultimately show "tq_inv (snd ` set (fst (getExpired now s)) \<union> B) (snd (getExpired now s))"
    unfolding tq_inv_def parts using un fin by auto
qed

context timer_client
begin

lemma handleRead_ok:
  assumes inv: "tq_inv B s" and thread: "tid (tloop s) = cur"
  shows "\<exists>s'. handleRead_timers run cur now now2 s = Inr s' \<and> tq_inv B s' \<and>
     fired s' = fired s @ map snd (filter (\<lambda>e. fst e \<le> now \<and> callback_t (the (theap s (snd e))) \<noteq> None) (timers s)) \<and>
     (timers s' \<noteq> [] \<longrightarrow> armed s' = Some (max (fst (hd (timers s'))) (now2 + 1000000)))"
proof -
  let ?s0 = "timerfdRead s"
  have inv0: "tq_inv B ?s0" and h0: "theap ?s0 = theap s" "timers ?s0 = timers s" "tloop ?s0 = tloop s" "fired ?s0 = fired s"
    using inv by (simp_all add: timerfdRead_def)
  obtain es s1 where g: "getExpired now ?s0 = (es, s1)" by fastforce
  have s1: "es = filter (\<lambda>e. fst e \<le> now) (timers s)" "tq_inv (snd ` set es \<union> B) s1"
    using getExpired_inv [OF inv0, of now] g h0 by simp_all
  have h1: "theap s1 = theap s" "fired s1 = fired s" "tloop s1 = tloop s"
    using g h0 by (auto simp: getExpired_def Let_def)
  have "distinct (map snd es)" using inv s1(1) by (simp add: tq_inv_def distinct_map_filter)
  moreover have "snd ` set es \<inter> B = {}" using tq_inv_entry(2) [OF inv] s1(1) by auto
  moreover have "\<forall>e \<in> set es. \<exists>t. theap s1 (snd e) = Some t \<and> when_t t \<le> now"
    using tq_inv_entry(3) [OF inv] s1(1) h1 by fastforce
  ultimately obtain s2 where s2: "foldE (run_expired run now) es s1 = Inr s2" "tq_inv B s2"
      "fired s2 = fired s @ map snd (filter (\<lambda>e. callback_t (the (theap s (snd e))) \<noteq> None) es)"
    using run_batch_ok [OF s1(2), of now] h1 by auto
  have "handleRead_timers run cur now now2 s =
      Inr (if timers s2 \<noteq> [] then timerfdSet now2 (fst (hd (timers s2))) s2 else s2)"
    using g s2(1) thread by (simp add: handleRead_timers_def assertInLoopThread_def isInLoopThread_def)
  then show ?thesis using s2 s1(1) by (auto simp: timerfdSet_armed conj_commute)
qed

end

section \<open>Callbacks that use the interface\<close>

text \<open>
  A callback as a list of calls: it adds timers, at an address the allocator finds free, and cancels
  timers that are still registered.
\<close>

datatype 'c action = AddTimer "'c option" int int | CancelRegistered nat

definition fresh_addr :: "(nat \<rightharpoonup> 'c timer) \<Rightarrow> nat" where
  "fresh_addr h = Suc (Max (insert 0 (dom h)))"

fun run_action :: "'e eventfd \<Rightarrow> int \<Rightarrow> 'c action \<Rightarrow> ('c, 'e, 'u) tq \<Rightarrow> ('c, 'e, 'u) tq result" where
  "run_action e now (AddTimer c w i) s = addTimer e (tid (tloop s)) now (fresh_addr (theap s)) c w i s"
| "run_action e now (CancelRegistered p) s =
     (if p \<in> snd ` set (timers s) then cancelTimer e (tid (tloop s)) now p s else Inr s)"

definition run_script ::
  "'e eventfd \<Rightarrow> int \<Rightarrow> ('c \<Rightarrow> 'c action list) \<Rightarrow> 'c \<Rightarrow> ('c, 'e, 'u) tq \<Rightarrow> ('c, 'e, 'u) tq result" where
  "run_script e now script c s = foldE (run_action e now) (script c) s"

lemma addTimer_ok:
  assumes inv: "tq_inv B s" and fresh: "theap s p = None" and "0 < p"
  shows "\<exists>s'. addTimer e (tid (tloop s)) now p c w i s = Inr s' \<and> tq_inv B s' \<and>
     theap s' = (theap s)(p \<mapsto> Timer_new c w i) \<and> timers s' = set_insert (w, p) (timers s) \<and>
     fired s' = fired s \<and> tloop s' = tloop s \<and>
     armed s' = (if hd (timers s') = (w, p) then Some (max w (now + 1000000)) else armed s)"
proof -
  let ?s = "s\<lparr>theap := (theap s)(p \<mapsto> Timer_new c w i)\<rparr>"
  have new: "p \<notin> B" "p \<notin> snd ` set (timers s)" using inv fresh by (auto simp: tq_inv_def)
  then have other: "\<forall>(v, q) \<in> set (timers s). q \<noteq> p" by force
  have "\<forall>(v, q) \<in> set (timers s). 0 < q \<and> q \<notin> insert p B \<and>
      (\<exists>t. theap ?s q = Some t \<and> when_t t = v \<and> \<not> canceled_t t)"
    using inv other by (auto simp: tq_inv_def)
  moreover have "\<forall>q \<in> insert p B. 0 < q \<and> (\<exists>t. theap ?s q = Some t \<and> \<not> canceled_t t)"
    using inv assms(3) new by (auto simp: tq_inv_def Timer_new_def)
  ultimately have i1: "tq_inv (insert p B) ?s"
    using inv unfolding tq_inv_def by simp
  have ent: "(w, p) \<notin> set (timers s)" using new(2) by force
  show ?thesis
    using insertTimer_ok [OF i1 new(1), of "Timer_new c w i" w now] ent
    by (auto simp: addTimer_def runInLoop_def isInLoopThread_def insertTimer_def timerfdSet_armed Let_def Timer_new_def)
qed

lemma fresh_addr_ok:
  assumes "tq_inv B s" shows "theap s (fresh_addr (theap s)) = None" "0 < fresh_addr (theap s)"
proof -
  have "finite (dom (theap s))" using assms by (simp add: tq_inv_def)
  then have "\<forall>q \<in> dom (theap s). q < fresh_addr (theap s)"
    by (auto simp: fresh_addr_def less_Suc_eq_le intro!: Max_ge)
  then show "theap s (fresh_addr (theap s)) = None" by (meson domIff less_irrefl)
qed (simp add: fresh_addr_def)

lemma run_action_keeps:
  assumes "tq_inv B s"
  shows "outcome {} (\<lambda>s'. tq_inv B s' \<and> (\<forall>p \<in> B. theap s' p = theap s p) \<and> fired s' = fired s \<and>
           tid (tloop s') = tid (tloop s)) (run_action e now a s)"
proof (cases a)
  case (AddTimer c w i)
  have "fresh_addr (theap s) \<notin> B" using fresh_addr_ok [OF assms] assms by (auto simp: tq_inv_def)
  then show ?thesis
    using addTimer_ok [OF assms fresh_addr_ok [OF assms], of e now c w i] AddTimer
    by (auto simp: outcome_empty_iff)
next
  case (CancelRegistered p)
  show ?thesis
  proof (cases "p \<in> snd ` set (timers s)")
    case True
    then obtain w where w: "(w, p) \<in> set (timers s)" by auto
    have "p \<notin> B" using tq_inv_entry [OF assms w] by blast
    then show ?thesis
      using cancelInLoop_ok [OF assms w] CancelRegistered True
      by (auto simp: outcome_empty_iff cancelTimer_def runInLoop_def isInLoopThread_def)
  next
    case False
    then show ?thesis using CancelRegistered assms by simp
  qed
qed

lemma run_script_keeps:
  fixes s :: "('c, 'e, 'u) tq"
  assumes "tq_inv B s"
  shows "outcome {} (\<lambda>s'. tq_inv B s' \<and> (\<forall>p \<in> B. theap s' p = theap s p) \<and> fired s' = fired s \<and>
           tid (tloop s') = tid (tloop s)) (run_script e now script c s)"
  unfolding run_script_def
proof (rule outcome_foldE)
  fix a and v :: "('c, 'e, 'u) tq"
  assume "tq_inv B v \<and> (\<forall>p \<in> B. theap v p = theap s p) \<and> fired v = fired s \<and> tid (tloop v) = tid (tloop s)"
  then show "outcome {} (\<lambda>s'. tq_inv B s' \<and> (\<forall>p \<in> B. theap s' p = theap s p) \<and> fired s' = fired s \<and>
      tid (tloop s') = tid (tloop s)) (run_action e now a v)"
    using run_action_keeps [of B v e now a] by (auto elim!: outcome_weaken)
qed (use assms in simp)

interpretation script_client: timer_client "run_script e now script" for e now script
  by unfold_locales (rule run_script_keeps)

section \<open>Properties\<close>

text \<open>C19: Every due timer fires, once and in the order of the deadlines. When the timer descriptor becomes
  readable, \<open>handleRead\<close> runs exactly the callbacks of the timers whose deadline has passed, in the
  order of the set, also when callbacks add timers and cancel registered ones; it never touches
  freed memory, every timer object allocated afterwards is registered or held by a pending task, and
  the descriptor is set to the earliest remaining deadline, at least a millisecond ahead.\<close>

theorem timers_fire_in_order:
  assumes "tq_inv B s" and "tid (tloop s) = cur"
  shows "\<exists>s'. handleRead_timers (run_script e now script) cur now now2 s = Inr s' \<and> tq_inv B s' \<and>
     fired s' = fired s @ map snd (filter (\<lambda>en. fst en \<le> now \<and> callback_t (the (theap s (snd en))) \<noteq> None) (timers s)) \<and>
     (timers s' \<noteq> [] \<longrightarrow> armed s' = Some (max (fst (hd (timers s'))) (now2 + 1000000)))"
  using assms by (rule script_client.handleRead_ok)

text \<open>A queue with a repeating timer due at 5 and a single one due at 9, whose callback does nothing.\<close>

definition two_timers :: "(nat, nat, unit) tq" where
  "two_timers = \<lparr>tloop = \<lparr>tid = 1, quit_flag = False, doingPendingTasks = False, pendingTasks = [], wakeupfd = 0\<rparr>,
     theap = [7 \<mapsto> Timer_new (Some 0) 5 10, 3 \<mapsto> Timer_new (Some 1) 9 0], timers = [(5, 7), (9, 3)],
     armed = Some 5, fired = [], usr = ()\<rparr>"

lemma two_timers_inv: "tq_inv {} two_timers"
  by (auto simp: tq_inv_def two_timers_def Timer_new_def)

theorem timers_fire_in_order_witness:
  "\<exists>s'. handleRead_timers (run_script counter_efd 9 (\<lambda>c. [AddTimer (Some 2) 20 0])) 1 9 9 two_timers = Inr s' \<and>
        fired s' = [7, 3] \<and> tq_inv {} s'"
  using timers_fire_in_order [OF two_timers_inv, of 1 counter_efd 9 "\<lambda>c. [AddTimer (Some 2) 20 0]" 9]
  by (auto simp: two_timers_def Timer_new_def)

text \<open>A timer that fired is scheduled again or gone. After its callback a repeating timer is registered at
  its old deadline plus its interval, and a single one has been deleted; in both cases the queue
  stays well-formed.\<close>

theorem timer_repeats_or_dies:
  assumes "tq_inv (insert p B) s" and "p \<notin> B" and "theap s p = Some t" and "when_t t \<le> now"
  shows "\<exists>s'. run_expired (run_script e now script) now (w, p) s = Inr s' \<and> tq_inv B s' \<and>
     (if repeat_t t then (when_t t + interval_t t, p) \<in> set (timers s') else theap s' p = None)"
  using script_client.run_expired_ok [OF assms, of e now script w] by blast

theorem timer_repeats_or_dies_witness:
  "\<exists>s'. run_expired (run_script counter_efd 9 (\<lambda>c. [])) 9 (5, 7) (two_timers\<lparr>timers := [(9, 3)]\<rparr>) = Inr s' \<and>
        (15, 7) \<in> set (timers s')"
proof -
  have "tq_inv (insert 7 {}) (two_timers\<lparr>timers := [(9, 3)]\<rparr>)"
    by (auto simp: tq_inv_def two_timers_def Timer_new_def)
  from timer_repeats_or_dies [OF this, of "Timer_new (Some 0) 5 10" 9 counter_efd "\<lambda>c. []" 5]
  show ?thesis by (auto simp: two_timers_def Timer_new_def)
qed





text \<open>Destroying the queue closes its descriptor and frees every timer exactly once: no timer is deleted
  twice and none is leaked, unless a task that was to insert it never ran.\<close>

theorem timer_queue_delete:
  assumes "tq_inv B s"
  shows "\<exists>s'. TimerQueue_delete tfd s = Inr (if tfd \<noteq> - 1 then [tfd] else [], s') \<and> dom (theap s') = B"
proof -
  have "\<exists>s'. foldE (\<lambda>e. delete_timer (snd e)) es u = Inr s' \<and> dom (theap s') = dom (theap u) - snd ` set es"
    if "distinct (map snd es)" "snd ` set es \<subseteq> dom (theap u)" for es and u :: "('a, 'b, 'c) tq"
    using that
  proof (induction es arbitrary: u)
    case (Cons e es)
    let ?u = "u\<lparr>theap := (theap u)(snd e := None)\<rparr>"
    have del: "delete_timer (snd e) u = Inr ?u" using Cons.prems(2) by (auto simp: delete_timer_def)
    have dom: "dom (theap ?u) = dom (theap u) - {snd e}" by auto
    have sub: "snd ` set es \<subseteq> dom (theap ?u)" using Cons.prems unfolding dom by (simp add: subset_Diff_insert)
    have "distinct (map snd es)" using Cons.prems(1) by simp
    from Cons.IH [OF this sub] obtain s' where "foldE (\<lambda>e. delete_timer (snd e)) es ?u = Inr s'" "dom (theap s') = dom (theap ?u) - snd ` set es"
      by blast
    then show ?case using del unfolding dom by auto
  qed simp
  moreover have "dom (theap s) - snd ` set (timers s) = B"
    using assms tq_inv_held(2) [OF assms] by (auto simp: tq_inv_def)
  moreover have "distinct (map snd (timers s))" "snd ` set (timers s) \<subseteq> dom (theap s)"
    using assms by (auto simp: tq_inv_def)
  ultimately obtain s' where "foldE (\<lambda>e. delete_timer (snd e)) (timers s) s = Inr s'" "dom (theap s') = B"
    by blast
  then show ?thesis by (simp add: TimerQueue_delete_def)
qed

theorem timer_queue_delete_witness: "\<exists>s'. TimerQueue_delete 9 two_timers = Inr ([9], s') \<and> dom (theap s') = {}"
  using timer_queue_delete [OF two_timers_inv, of 9] by simp

text \<open>A timer must not be cancelled from its own callback. If the first due timer's callback cancels that
  timer, \<open>cancelTimer\<close> does not find it in the set, deletes it, and \<open>handleRead\<close> then reads the
  deleted object.\<close>

theorem self_cancel_use_after_free:
  assumes "tq_inv B s" and "tid (tloop s) = cur" and "timers s = (w, p) # rest" and "w \<le> now"
    and "theap s p = Some t" and "callback_t t = Some c"
    and "run c = cancelTimer e cur now p"
  shows "handleRead_timers run cur now now2 s = Inl Use_after_free"
proof -
  have t: "when_t t = w" "\<not> canceled_t t" "0 < p"
    using tq_inv_entry [OF assms(1), of w p] assms(3,5) by auto
  obtain es s1 where g: "getExpired now (timerfdRead s) = (es, s1)" by fastforce
  have inv0: "tq_inv B (timerfdRead s)" using assms(1) by (simp add: timerfdRead_def)
  have es: "es = (w, p) # filter (\<lambda>e. fst e \<le> now) rest"
    using getExpired_inv(1) [OF inv0, of now] g assms(3,4) by (simp add: timerfdRead_def)
  have h1: "theap s1 = theap s" "tloop s1 = tloop s" "timers s1 = filter (\<lambda>e. now < fst e) (timers s)"
    using g getExpired_inv(2) [OF inv0, of now] by (auto simp: getExpired_def timerfdRead_def Let_def)
  have "\<not> (\<exists>e. e \<in> set (timers s1) \<and> snd e = p)"
    using assms(1,3,4) h1(3) by (auto simp: tq_inv_def image_iff)
  then have nf: "find (\<lambda>e. snd e = p) (timers s1) = None" by (auto simp: find_None_iff)
  have "run_expired run now (w, p) s1 = Inl Use_after_free"
    using h1 assms(2,4-7) t nf
    by (simp add: run_expired_def expired_def run_timer_def cancelTimer_def runInLoop_def isInLoopThread_def
        cancelInLoop_def cancel_def delete_timer_def)
  then show ?thesis
    using g es assms(2) by (simp add: handleRead_timers_def assertInLoopThread_def isInLoopThread_def)
qed

theorem self_cancel_use_after_free_witness:
  "handleRead_timers (\<lambda>c. cancelTimer counter_efd 1 6 7) 1 6 6 two_timers = Inl Use_after_free"
  by (rule self_cancel_use_after_free [OF two_timers_inv, where w = 5 and p = 7 and rest = "[(9, 3)]" and c = 0
        and t = "Timer_new (Some 0) 5 10" and e = counter_efd])
    (simp_all add: two_timers_def Timer_new_def)

text \<open>A batch of timers whose callbacks leave the queue alone.\<close>

lemma quiet_batch:
  assumes "theap u p = None \<or> p \<in> snd ` set es" and "\<forall>t. theap u p = Some t \<longrightarrow> \<not> repeat_t t"
    and "foldE (run_expired (\<lambda>c s. Inr s) now) es u = Inr u'"
  shows "theap u' p = None \<and> tloop u' = tloop u"
  using assms
proof (induction es arbitrary: u)
  case (Cons en es)
  then obtain u1 where u1: "run_expired (\<lambda>c s. Inr s) now en u = Inr u1"
      "foldE (run_expired (\<lambda>c s. Inr s) now) es u1 = Inr u'" by (auto simp: result_iffs)
  have one: "theap u1 p = None \<or> (snd en \<noteq> p \<and> theap u1 p = theap u p)" "tloop u1 = tloop u"
    using u1(1) Cons.prems(2)
    by (auto simp: run_expired_def run_timer_def restart_def delete_timer_def result_iffs Let_def
        split: option.splits if_splits)
  have "theap u p = None \<or> snd en = p \<or> p \<in> snd ` set es" using Cons.prems(1) by auto
  then have "theap u1 p = None \<or> p \<in> snd ` set es" using one(1) by metis
  moreover have "\<forall>t. theap u1 p = Some t \<longrightarrow> \<not> repeat_t t" using one(1) Cons.prems(2) by auto
  ultimately show ?case using Cons.IH [OF _ _ u1(2)] one(2) by metis
qed simp

text \<open>A single-shot timer must not be cancelled after it fired. Once \<open>handleRead\<close> has run it, cancelling it
  reads the deleted object.\<close>

theorem late_cancel_use_after_free:
  assumes "tq_inv B s" and "tid (tloop s) = cur" and "(w, p) \<in> set (timers s)" and "w \<le> now"
    and "theap s p = Some t" and "\<not> repeat_t t"
    and "handleRead_timers (\<lambda>c s. Inr s) cur now now2 s = Inr s'"
  shows "cancelTimer e cur now3 p s' = Inl Use_after_free"
proof -
  obtain es s1 where g: "getExpired now (timerfdRead s) = (es, s1)" by fastforce
  have inv0: "tq_inv B (timerfdRead s)" using assms(1) by (simp add: timerfdRead_def)
  have "(w, p) \<in> set es" using getExpired_inv(1) [OF inv0, of now] g assms(3,4) by (simp add: timerfdRead_def)
  then have pin: "p \<in> snd ` set es" by force
  have h1: "theap s1 = theap s" "tloop s1 = tloop s" using g by (auto simp: getExpired_def timerfdRead_def Let_def)
  obtain s2 where s2: "foldE (run_expired (\<lambda>c s. Inr s) now) es s1 = Inr s2"
      "s' = (if timers s2 \<noteq> [] then timerfdSet now2 (fst (hd (timers s2))) s2 else s2)"
    using assms(7) g by (auto simp: handleRead_timers_def result_iffs assertInLoopThread_def)
  have "theap s2 p = None \<and> tloop s2 = tloop s1"
    using pin h1 assms(5,6) by (intro quiet_batch [OF _ _ s2(1)]) auto
  then have "theap s' p = None" "tid (tloop s') = cur"
    using s2(2) h1 assms(2) by (simp_all add: timerfdSet_armed)
  then show ?thesis
    by (simp add: cancelTimer_def runInLoop_def isInLoopThread_def cancelInLoop_def)
qed

theorem late_cancel_use_after_free_witness:
  "\<exists>s'. handleRead_timers (\<lambda>c s. Inr s) 1 9 9 two_timers = Inr s' \<and> cancelTimer counter_efd 1 10 3 s' = Inl Use_after_free"
proof -
  have "\<exists>s'. handleRead_timers (\<lambda>c s. Inr s) 1 9 9 two_timers = Inr s'"
    by (simp add: handleRead_timers_def two_timers_def Timer_new_def getExpired_def lower_bound_def timerfdRead_def
        run_expired_def run_timer_def expired_def restart_def delete_timer_def assertInLoopThread_def isInLoopThread_def
        timerfdSet_armed)
  then obtain s' where s': "handleRead_timers (\<lambda>c s. Inr s) 1 9 9 two_timers = Inr s'" by blast
  have "cancelTimer counter_efd 1 10 3 s' = Inl Use_after_free"
    by (rule late_cancel_use_after_free [OF two_timers_inv _ _ _ _ _ s', where w = 9 and t = "Timer_new (Some 1) 9 0"])
      (simp_all add: two_timers_def Timer_new_def)
  then show ?thesis using s' by blast
qed

end
