(* ===== verification/Async_Logging.thy ===== *)
theory Async_Logging
  imports Inet_Address
begin

text \<open>
  \<open>class AsyncLogging\<close> (include/knetlib/AsyncLogging.h, src/AsyncLogging.cpp). The shared part is
  guarded by one mutex, the rest belongs to the background thread. A buffer is the list of its
  bytes: every copy of a buffer pointer in the source is followed by resetting or popping the
  original, so a buffer never has two owners; \<open>None\<close> is a null pointer. The file system is a map
  from names to contents, the time stamp of a rolled file and the success of \<open>fopen\<close> are
  arguments. The first part follows \<open>append\<close>, one pass of \<open>threadFunc\<close> and \<open>rollFile\<close>; the second
  part lets the writers and the thread interleave.
\<close>

section \<open>Front end\<close>

definition kBufferSize :: nat where
  "kBufferSize = 64 * 1024"

record alog =
  basename :: string
  rollSize :: int
  flushInterval :: int
  running :: bool
  currentBuffer :: "byte list option"
  nextBuffer :: "byte list option"
  buffers :: "byte list list"

definition AsyncLogging_new :: "string \<Rightarrow> int \<Rightarrow> int \<Rightarrow> alog" where
  "AsyncLogging_new b r f = \<lparr>basename = b, rollSize = r, flushInterval = f, running = False,
     currentBuffer = Some [], nextBuffer = Some [], buffers = []\<rparr>"

definition start_log :: "alog \<Rightarrow> alog" where
  "start_log s = s\<lparr>running := True\<rparr>"

text \<open>\<open>stop\<close> then wakes the thread and joins it.\<close>

definition stop_log :: "alog \<Rightarrow> alog" where
  "stop_log s = s\<lparr>running := False\<rparr>"

definition append_log :: "byte list \<Rightarrow> alog \<Rightarrow> alog result" where
  "append_log line s =
     (case currentBuffer s of
        None \<Rightarrow> Inl Null_deref
      | Some b \<Rightarrow>
          if length b + length line < kBufferSize then Inr (s\<lparr>currentBuffer := Some (b @ line)\<rparr>)
          else
            let s1 = s\<lparr>buffers := buffers s @ [b], currentBuffer := None\<rparr> in
            case nextBuffer s1 of
              Some n \<Rightarrow> Inr (s1\<lparr>currentBuffer := Some (n @ line), nextBuffer := None\<rparr>)
            | None \<Rightarrow> Inr (s1\<lparr>currentBuffer := Some ([] @ line)\<rparr>))"

section \<open>The background thread\<close>

record alocals =
  newBuffer1 :: "byte list option"
  newBuffer2 :: "byte list option"
  buffersToWrite :: "byte list list"

definition thread_start :: alocals where
  "thread_start = \<lparr>newBuffer1 = Some [], newBuffer2 = Some [], buffersToWrite = []\<rparr>"

text \<open>
  The part of a pass under the mutex, after the wait. \<open>push_current\<close> hands the current buffer over;
  \<open>spare\<close> finds a buffer to be the next current one.
\<close>

definition push_current :: "alog \<Rightarrow> alog" where
  "push_current s =
     (case currentBuffer s of
        Some b \<Rightarrow> if 0 < length b then s\<lparr>buffers := buffers s @ [b], currentBuffer := None\<rparr> else s
      | None \<Rightarrow> s)"

definition spare :: "alog \<Rightarrow> alocals \<Rightarrow> byte list \<times> alog" where
  "spare s l =
     (case newBuffer1 l of
        Some b \<Rightarrow> (b, s)
      | None \<Rightarrow> if buffers s \<noteq> [] then ([], s\<lparr>buffers := butlast (buffers s)\<rparr>) else ([], s))"

definition collect :: "alog \<times> alocals \<Rightarrow> alog \<times> alocals" where
  "collect sl =
     (let (s, l) = sl;
          (b1, s1) = spare (push_current s) l;
          s2 = s1\<lparr>currentBuffer := Some b1\<rparr>;
          l2 = l\<lparr>newBuffer1 := None, buffersToWrite := buffers s2\<rparr>;
          s3 = s2\<lparr>buffers := buffersToWrite l\<rparr> in
      case nextBuffer s3 of
        Some n \<Rightarrow> (s3, l2)
      | None \<Rightarrow>
          let b2 = (case newBuffer2 l2 of Some b \<Rightarrow> b | None \<Rightarrow> []) in
          (s3\<lparr>nextBuffer := Some b2\<rparr>, l2\<lparr>newBuffer2 := None\<rparr>))"

text \<open>More than 25 buffers are cut down to two.\<close>

definition drop_excess :: "byte list list \<Rightarrow> byte list list" where
  "drop_excess bs = (if 25 < length bs then take 2 bs else bs)"

text \<open>After the files are written: keep at most two buffers and reuse them, emptied.\<close>

definition recycle1 :: "alocals \<Rightarrow> alocals result" where
  "recycle1 l =
     (case newBuffer1 l of
        Some b \<Rightarrow> Inr l
      | None \<Rightarrow>
          bindE (assertE (buffersToWrite l \<noteq> [])) (\<lambda>_.
          Inr (l\<lparr>newBuffer1 := Some [], buffersToWrite := butlast (buffersToWrite l)\<rparr>)))"

definition recycle2 :: "alocals \<Rightarrow> alocals result" where
  "recycle2 l =
     (case newBuffer2 l of
        Some b \<Rightarrow> Inr l
      | None \<Rightarrow>
          bindE (assertE (buffersToWrite l \<noteq> [])) (\<lambda>_.
          Inr (l\<lparr>newBuffer2 := Some [], buffersToWrite := butlast (buffersToWrite l)\<rparr>)))"

definition recycle :: "alocals \<Rightarrow> alocals result" where
  "recycle l =
     bindE (recycle1 (l\<lparr>buffersToWrite := (if 2 < length (buffersToWrite l) then take 2 (buffersToWrite l) else buffersToWrite l)\<rparr>))
       (\<lambda>l. bindE (recycle2 l) (\<lambda>l. Inr (l\<lparr>buffersToWrite := []\<rparr>)))"

text \<open>After the loop: what is left is handed over and written without rolling.\<close>

definition final_collect :: "alog \<times> alocals \<Rightarrow> alog \<times> alocals" where
  "final_collect sl =
     (let (s, l) = sl; s1 = push_current s in
      if buffers s1 \<noteq> [] then (s1\<lparr>buffers := buffersToWrite l\<rparr>, l\<lparr>buffersToWrite := buffers s1\<rparr>)
      else (s1, l))"

section \<open>Files\<close>

type_synonym logfs = "string \<rightharpoonup> byte list"

fun str_find :: "string \<Rightarrow> string \<Rightarrow> nat option" where
  "str_find p [] = (if p = [] then Some 0 else None)"
| "str_find p (c # cs) =
     (if take (length p) (c # cs) = p then Some 0 else map_option Suc (str_find p cs))"

definition log_name :: "string \<Rightarrow> string" where
  "log_name b = (if str_find ''.log'' b = None then b @ ''.log'' else b)"

text \<open>\<open>filename.insert(pos, timebuf)\<close>, and the name with a number before the last dot (511 characters at most).\<close>

definition stamped :: "string \<Rightarrow> string \<Rightarrow> string" where
  "stamped stamp f =
     (case str_find ''.log'' f of
        Some pos \<Rightarrow> take pos f @ stamp @ drop pos f
      | None \<Rightarrow> f @ stamp @ ''.log'')"

fun last_dot :: "string \<Rightarrow> nat option" where
  "last_dot [] = None"
| "last_dot (c # cs) =
     (case last_dot cs of Some n \<Rightarrow> Some (Suc n) | None \<Rightarrow> if c = CHR ''.'' then Some 0 else None)"

definition numbered :: "string \<Rightarrow> nat \<Rightarrow> string" where
  "numbered f n = take 511
     (case last_dot f of
        Some pos \<Rightarrow> take pos f @ CHR ''.'' # to_string n @ drop pos f
      | None \<Rightarrow> f @ CHR ''.'' # to_string n)"

text \<open>The search for a name that is not taken, with a bound on the attempts.\<close>

fun free_name :: "nat \<Rightarrow> logfs \<Rightarrow> string \<Rightarrow> nat \<Rightarrow> string \<Rightarrow> string option" where
  "free_name 0 fs f count cand = None"
| "free_name (Suc n) fs f count cand =
     (if fs cand \<noteq> None then free_name n fs f (Suc count) (numbered f (Suc count)) else Some cand)"

definition rollFile :: "nat \<Rightarrow> string \<Rightarrow> string \<Rightarrow> logfs \<Rightarrow> logfs option" where
  "rollFile n stamp b fs =
     (let filename = stamped stamp (log_name b) in
      case free_name n fs filename 0 filename of
        None \<Rightarrow> None
      | Some target \<Rightarrow>
          (case fs (log_name b) of
             None \<Rightarrow> Some fs
           | Some c \<Rightarrow> Some (fs(log_name b := None, target \<mapsto> c))))"

text \<open>One buffer: roll if the file has reached the limit, then append if the file can be opened.\<close>

definition append_file :: "(string \<Rightarrow> bool) \<Rightarrow> string \<Rightarrow> byte list \<Rightarrow> logfs \<Rightarrow> logfs" where
  "append_file canOpen f d fs =
     (if canOpen f then fs(f \<mapsto> (case fs f of None \<Rightarrow> [] | Some c \<Rightarrow> c) @ d) else fs)"

definition write_one :: "nat \<Rightarrow> (string \<Rightarrow> bool) \<Rightarrow> string \<Rightarrow> string \<Rightarrow> int \<Rightarrow> byte list \<Rightarrow> logfs \<Rightarrow> logfs option" where
  "write_one n canOpen stamp b roll d fs =
     map_option (append_file canOpen (log_name b) d)
       (case fs (log_name b) of
          Some c \<Rightarrow> if roll \<le> int (length c) then rollFile n stamp b fs else Some fs
        | None \<Rightarrow> Some fs)"

fun write_all :: "nat \<Rightarrow> (string \<Rightarrow> bool) \<Rightarrow> string \<Rightarrow> string \<Rightarrow> int \<Rightarrow> byte list list \<Rightarrow> logfs \<Rightarrow> logfs option" where
  "write_all n canOpen stamp b roll [] fs = Some fs"
| "write_all n canOpen stamp b roll (d # ds) fs =
     (case write_one n canOpen stamp b roll d fs of
        None \<Rightarrow> None
      | Some fs' \<Rightarrow> write_all n canOpen stamp b roll ds fs')"

text \<open>The rest of a pass: nothing to write means \<open>continue\<close>. \<open>None\<close> means the search for a name goes on.\<close>

definition write_pass ::
  "nat \<Rightarrow> (string \<Rightarrow> bool) \<Rightarrow> string \<Rightarrow> alog \<Rightarrow> alocals \<times> logfs \<Rightarrow> (alocals \<times> logfs) result option" where
  "write_pass n canOpen stamp s lf =
     (let (l, fs) = lf in
      if buffersToWrite l = [] then Some (Inr (l, fs))
      else
        let l1 = l\<lparr>buffersToWrite := drop_excess (buffersToWrite l)\<rparr> in
        case write_all n canOpen stamp (basename s) (rollSize s) (buffersToWrite l1) fs of
          None \<Rightarrow> None
        | Some fs' \<Rightarrow> Some (mapE (\<lambda>l. (l, fs')) (recycle l1)))"

definition final_write :: "(string \<Rightarrow> bool) \<Rightarrow> alog \<Rightarrow> alocals \<times> logfs \<Rightarrow> logfs" where
  "final_write canOpen s lf =
     (let (l, fs) = lf in append_file canOpen (log_name (basename s)) (concat (buffersToWrite l)) fs)"

section \<open>Writers and thread together\<close>

text \<open>
  Each step is what one thread does while it holds the mutex, or what the background thread does
  on its own. \<open>appended\<close> is everything writers appended, \<open>written\<close> everything handed to the files.
\<close>

record logsys =
  shared :: alog
  locals :: alocals
  collected :: bool
  appended :: "byte list"
  written :: "byte list"

definition logsys_init :: "logsys \<Rightarrow> bool" where
  "logsys_init s \<longleftrightarrow> (\<exists>b r f. s =
     \<lparr>shared = start_log (AsyncLogging_new b r f), locals = thread_start, collected = False, appended = [], written = []\<rparr>)"

text \<open>Whether a pass finds something to write.\<close>

definition pending :: "alog \<Rightarrow> byte list list" where
  "pending s = buffers s @ (case currentBuffer s of Some b \<Rightarrow> if b = [] then [] else [b] | None \<Rightarrow> [])"

inductive log_step :: "logsys \<Rightarrow> logsys \<Rightarrow> bool" where
  log_append: "line \<noteq> [] \<Longrightarrow> append_log line (shared s) = Inr sh \<Longrightarrow>
     log_step s (s\<lparr>shared := sh, appended := appended s @ line\<rparr>)"
| log_collect: "\<not> collected s \<Longrightarrow> pending (shared s) \<noteq> [] \<Longrightarrow> length (pending (shared s)) \<le> 25 \<Longrightarrow>
     collect (shared s, locals s) = (sh, lo) \<Longrightarrow>
     log_step s (s\<lparr>shared := sh, locals := lo, collected := True\<rparr>)"
| log_write: "collected s \<Longrightarrow> recycle (locals s) = Inr lo \<Longrightarrow>
     log_step s (s\<lparr>locals := lo, collected := False, written := written s @ concat (buffersToWrite (locals s))\<rparr>)"

definition log_inv :: "logsys \<Rightarrow> bool" where
  "log_inv s \<longleftrightarrow>
     (let sh = shared s; lo = locals s in
      appended s = written s @ (if collected s then concat (buffersToWrite lo) else []) @ concat (pending sh) \<and>
      currentBuffer sh \<noteq> None \<and> nextBuffer sh \<in> {None, Some []} \<and>
      (nextBuffer sh = None \<longrightarrow> buffers sh \<noteq> [] \<and> currentBuffer sh \<noteq> Some []) \<and>
      (if collected s
       then newBuffer1 lo = None \<and> newBuffer2 lo \<in> {None, Some []} \<and> buffersToWrite lo \<noteq> [] \<and>
            (newBuffer2 lo = None \<longrightarrow> 2 \<le> length (buffersToWrite lo))
       else lo = thread_start))"

lemma append_log_inv:
  assumes "log_inv s" and "line \<noteq> []" and "append_log line (shared s) = Inr sh"
  shows "log_inv (s\<lparr>shared := sh, appended := appended s @ line\<rparr>)"
proof -
  obtain b where b: "currentBuffer (shared s) = Some b" using assms(1) by (auto simp: log_inv_def Let_def)
  show ?thesis
  proof (cases "length b + length line < kBufferSize")
    case True
    then have "sh = (shared s)\<lparr>currentBuffer := Some (b @ line)\<rparr>"
      using assms(3) b by (simp add: append_log_def)
    then show ?thesis using assms(1,2) b by (auto simp: log_inv_def pending_def Let_def)
  next
    case False
    then show ?thesis
      using assms b
      by (cases "nextBuffer (shared s)") (auto simp: append_log_def log_inv_def pending_def Let_def)
  qed
qed

lemma append_log_total:
  assumes "log_inv s" shows "\<exists>sh. append_log line (shared s) = Inr sh"
  using assms by (auto simp: log_inv_def append_log_def Let_def split: option.splits)

lemma push_current_pending:
  "currentBuffer s = Some b \<Longrightarrow> buffers (push_current s) = pending s"
  "nextBuffer (push_current s) = nextBuffer s"
  by (auto simp: push_current_def pending_def split: option.splits)

lemma collect_primed:
  assumes "currentBuffer s = Some b"
  shows "collect (s, thread_start) =
     (push_current s\<lparr>currentBuffer := Some [], buffers := [], nextBuffer := Some (case nextBuffer s of None \<Rightarrow> [] | Some n \<Rightarrow> n)\<rparr>,
      \<lparr>newBuffer1 = None, newBuffer2 = (if nextBuffer s = None then None else Some []), buffersToWrite = pending s\<rparr>)"
  using push_current_pending(1) [OF assms] push_current_pending(2) [of s]
  by (auto simp: collect_def spare_def thread_start_def Let_def split: option.splits)

lemma collect_inv:
  assumes inv: "log_inv s" and "\<not> collected s" and "pending (shared s) \<noteq> []"
    and "collect (shared s, locals s) = (sh, lo)"
  shows "log_inv (s\<lparr>shared := sh, locals := lo, collected := True\<rparr>)"
proof -
  obtain b where b: "currentBuffer (shared s) = Some b" using inv by (auto simp: log_inv_def Let_def)
  have lo: "locals s = thread_start" using inv assms(2) by (auto simp: log_inv_def Let_def)
  have two: "nextBuffer (shared s) = None \<Longrightarrow> 2 \<le> length (pending (shared s))"
    using inv b by (cases "buffers (shared s)") (auto simp: log_inv_def pending_def Let_def)
  show ?thesis
    using assms(3,4) inv two b unfolding lo collect_primed [OF b]
    by (auto simp: log_inv_def Let_def pending_def assms(2) split: option.splits)
qed

lemma recycle_ok:
  assumes "newBuffer1 l = None" and "newBuffer2 l \<in> {None, Some []}" and "buffersToWrite l \<noteq> []"
    and "newBuffer2 l = None \<longrightarrow> 2 \<le> length (buffersToWrite l)"
  shows "recycle l = Inr thread_start"
proof -
  have "butlast (take 2 (buffersToWrite l)) \<noteq> []" if "2 \<le> length (buffersToWrite l)"
    using that by (cases "buffersToWrite l"; cases "tl (buffersToWrite l)") auto
  then show ?thesis
    using assms by (auto simp: recycle_def recycle1_def recycle2_def thread_start_def)
qed

lemma write_inv:
  assumes "log_inv s" and "collected s"
  shows "recycle (locals s) = Inr thread_start \<and>
    log_inv (s\<lparr>locals := thread_start, collected := False, written := written s @ concat (buffersToWrite (locals s))\<rparr>)"
  using assms recycle_ok [of "locals s"] by (auto simp: log_inv_def Let_def)

interpretation log_run: inductive_invariant logsys_init log_step log_inv
proof
  fix s
  assume "logsys_init s"
  then show "log_inv s"
    by (auto simp: logsys_init_def log_inv_def start_log_def AsyncLogging_new_def pending_def)
next
  fix s t
  assume inv: "log_inv s" and "log_step s t"
  from this(2) show "log_inv t"
  proof (cases rule: log_step.cases)
    case (log_append line sh)
    then show ?thesis using append_log_inv [OF inv] by simp
  next
    case (log_collect sh lo)
    then show ?thesis using collect_inv [OF inv] by simp
  next
    case (log_write lo)
    then show ?thesis using write_inv [OF inv] by simp
  qed
qed

section \<open>Names of rolled files\<close>

definition digits_val :: "string \<Rightarrow> nat" where
  "digits_val cs = foldl (\<lambda>a c. a * 10 + (of_char c - 48)) 0 cs"

lemma digits_val_to_string: "digits_val (to_string n) = n"
proof (induction n rule: to_string.induct)
  case (1 n)
  have digit: "of_char (digit_char d) - 48 = d" if "d < 10" for d
    using that by (simp add: digit_char_def)
  show ?case
  proof (cases "n < 10")
    case True
    then show ?thesis by (simp add: to_string.simps [of n] digits_val_def digit)
  next
    case False
    then have "digits_val (to_string (n div 10)) = n div 10" by (rule 1)
    then show ?thesis using False by (simp add: to_string.simps [of n] digits_val_def digit)
  qed
qed

lemma to_string_inj: "to_string m = to_string n \<Longrightarrow> m = n"
  by (metis digits_val_to_string)

lemma last_dot_bound: "last_dot f = Some pos \<Longrightarrow> pos < length f"
  by (induction f arbitrary: pos) (auto split: option.splits if_splits)

lemma numbered_inj:
  assumes "length f \<le> 500" and "m < 10 ^ 10" and "n < 10 ^ 10" and eq: "numbered f m = numbered f n"
  shows "m = n"
proof -
  have len: "length (to_string m) \<le> 10" "length (to_string n) \<le> 10"
    using assms(2,3) by (simp_all add: to_string_length)
  have "to_string m = to_string n"
  proof (cases "last_dot f")
    case None
    then show ?thesis using eq len assms(1) by (simp add: numbered_def)
  next
    case (Some pos)
    then have "pos < length f" by (rule last_dot_bound)
    then have "numbered f k = take pos f @ CHR ''.'' # to_string k @ drop pos f" if "length (to_string k) \<le> 10" for k
      using Some that assms(1) by (simp add: numbered_def)
    then show ?thesis using eq len by simp
  qed
  then show ?thesis by (rule to_string_inj)
qed

lemma free_name_fresh: "free_name n fs f c cand = Some t \<Longrightarrow> fs t = None"
  by (induction n fs f c cand rule: free_name.induct) (auto split: if_splits)

lemma free_name_taken:
  "free_name n fs f c cand = None \<Longrightarrow> c < k \<Longrightarrow> k < c + n \<Longrightarrow> fs (numbered f k) \<noteq> None"
proof (induction n fs f c cand arbitrary: k rule: free_name.induct)
  case (2 n fs f c cand)
  then have rec: "free_name n fs f (Suc c) (numbered f (Suc c)) = None" and taken: "fs cand \<noteq> None"
    by (auto split: if_splits)
  show ?case
  proof (cases "k = Suc c")
    case True
    then show ?thesis using rec 2(4) by (cases n) (auto split: if_splits)
  next
    case False
    then show ?thesis using 2 rec taken by simp
  qed
qed simp

text \<open>The search ends: each attempt is a new name, and only finitely many names are taken.\<close>

lemma free_name_total:
  assumes "finite (dom fs)" and "length f \<le> 500" and "card (dom fs) + 2 \<le> n" and "n \<le> 10 ^ 10"
  shows "\<exists>t. free_name n fs f 0 cand = Some t"
proof (rule ccontr)
  assume "\<not> ?thesis"
  then have none: "free_name n fs f 0 cand = None" by simp
  have "numbered f ` {1..<n} \<subseteq> dom fs" using free_name_taken [OF none] by auto
  then have "card (numbered f ` {1..<n}) \<le> card (dom fs)" using assms(1) by (rule card_mono [rotated])
  moreover have "inj_on (numbered f) {1..<n}"
    using assms(2,4) by (auto intro!: inj_onI numbered_inj)
  ultimately show False using assms(3) by (simp add: card_image)
qed

section \<open>The stream in the files\<close>

text \<open>
  \<open>arch\<close> lists the rolled files in the order of rolling. The log is the contents of these files
  followed by the contents of the current one.
\<close>

definition arch_ok :: "string list \<Rightarrow> string \<Rightarrow> logfs \<Rightarrow> bool" where
  "arch_ok arch f fs \<longleftrightarrow> distinct arch \<and> f \<notin> set arch \<and> set arch \<subseteq> dom fs \<and> finite (dom fs)"

definition stream_of :: "string list \<Rightarrow> string \<Rightarrow> logfs \<Rightarrow> byte list" where
  "stream_of arch f fs = concat (map (\<lambda>a. the (fs a)) arch) @ (case fs f of None \<Rightarrow> [] | Some c \<Rightarrow> c)"

lemma stream_append_file:
  assumes "arch_ok arch f fs" and "canOpen f"
  shows "arch_ok arch f (append_file canOpen f d fs) \<and>
         stream_of arch f (append_file canOpen f d fs) = stream_of arch f fs @ d \<and>
         card (dom (append_file canOpen f d fs)) \<le> Suc (card (dom fs))"
proof -
  let ?c = "(case fs f of None \<Rightarrow> [] | Some c \<Rightarrow> c) @ d"
  have eq: "append_file canOpen f d fs = fs(f \<mapsto> ?c)" using assms(2) by (simp add: append_file_def)
  have "map (\<lambda>a. the ((fs(f \<mapsto> ?c)) a)) arch = map (\<lambda>a. the (fs a)) arch"
    using assms(1) by (intro map_cong) (auto simp: arch_ok_def)
  then have "stream_of arch f (fs(f \<mapsto> ?c)) = stream_of arch f fs @ d"
    unfolding stream_of_def by (simp only: fun_upd_same option.case append_assoc)
  then show ?thesis
    using assms(1) unfolding eq by (auto simp: arch_ok_def card_insert_if)
qed

lemma rollFile_stream:
  assumes ok: "arch_ok arch (log_name b) fs" and c: "fs (log_name b) = Some c"
    and "length (stamped stamp (log_name b)) \<le> 500" and "card (dom fs) + 2 \<le> n" and "n \<le> 10 ^ 10"
  shows "\<exists>fs' arch'. rollFile n stamp b fs = Some fs' \<and> arch_ok arch' (log_name b) fs' \<and>
     fs' (log_name b) = None \<and> stream_of arch' (log_name b) fs' = stream_of arch (log_name b) fs \<and>
     card (dom fs') = card (dom fs)"
proof -
  let ?f = "log_name b" and ?g = "stamped stamp (log_name b)"
  obtain t where t: "free_name n fs ?g 0 ?g = Some t"
    using free_name_total [of fs ?g n ?g] assms by (auto simp: arch_ok_def)
  have free: "fs t = None" using t by (rule free_name_fresh)
  then have new: "t \<notin> set arch" "t \<noteq> ?f" "t \<notin> dom fs" using ok c by (auto simp: arch_ok_def)
  let ?fs = "fs(?f := None, t \<mapsto> c)"
  have same: "map (\<lambda>a. the (?fs a)) arch = map (\<lambda>a. the (fs a)) arch"
    using ok new by (intro map_cong) (auto simp: arch_ok_def)
  have "stream_of (arch @ [t]) ?f ?fs = stream_of arch ?f fs"
    unfolding stream_of_def map_append concat_append same using new(2) c by simp
  moreover have fin: "finite (dom fs)" using ok by (simp add: arch_ok_def)
  moreover have "card (dom ?fs) = card (dom fs)"
  proof -
    have "dom ?fs = insert t (dom fs - {?f})" using new(2) by auto
    moreover have "t \<notin> dom fs - {?f}" using new(3) by simp
    ultimately have "card (dom ?fs) = Suc (card (dom fs - {?f}))" using fin by simp
    also have "\<dots> = card (dom fs)" using fin c by (intro card_Suc_Diff1) auto
    finally show ?thesis .
  qed
  moreover have "rollFile n stamp b fs = Some ?fs" using t c by (simp add: rollFile_def)
  moreover have "arch_ok (arch @ [t]) ?f ?fs"
    using ok new c by (auto simp: arch_ok_def)
  moreover have "?fs ?f = None" using new(2) by simp
  ultimately show ?thesis by blast
qed

lemma write_one_stream:
  assumes ok: "arch_ok arch (log_name b) fs" and "canOpen (log_name b)"
    and "length (stamped stamp (log_name b)) \<le> 500" and "card (dom fs) + 2 \<le> n" and "n \<le> 10 ^ 10"
  shows "\<exists>fs' arch'. write_one n canOpen stamp b roll d fs = Some fs' \<and> arch_ok arch' (log_name b) fs' \<and>
     stream_of arch' (log_name b) fs' = stream_of arch (log_name b) fs @ d \<and> card (dom fs') \<le> Suc (card (dom fs))"
proof (cases "\<exists>c. fs (log_name b) = Some c \<and> roll \<le> int (length c)")
  case True
  then obtain c where c: "fs (log_name b) = Some c" "roll \<le> int (length c)" by blast
  obtain fs1 arch1 where r: "rollFile n stamp b fs = Some fs1" "arch_ok arch1 (log_name b) fs1"
      "stream_of arch1 (log_name b) fs1 = stream_of arch (log_name b) fs" "card (dom fs1) = card (dom fs)"
    using rollFile_stream [OF ok c(1) assms(3-5)] by blast
  then show ?thesis
    using stream_append_file [of arch1 "log_name b" fs1 canOpen d, OF r(2) assms(2)] c by (auto simp: write_one_def)
next
  case False
  then have "write_one n canOpen stamp b roll d fs = Some (append_file canOpen (log_name b) d fs)"
    by (auto simp: write_one_def split: option.splits)
  then show ?thesis using stream_append_file [of arch "log_name b" fs canOpen d, OF ok assms(2)] by auto
qed

lemma write_all_stream:
  assumes "arch_ok arch (log_name b) fs" and "canOpen (log_name b)"
    and "length (stamped stamp (log_name b)) \<le> 500" and "card (dom fs) + length ds + 2 \<le> n" and "n \<le> 10 ^ 10"
  shows "\<exists>fs' arch'. write_all n canOpen stamp b roll ds fs = Some fs' \<and> arch_ok arch' (log_name b) fs' \<and>
     stream_of arch' (log_name b) fs' = stream_of arch (log_name b) fs @ concat ds"
  using assms
proof (induction ds arbitrary: fs arch)
  case Nil
  then show ?case by auto
next
  case (Cons d ds)
  obtain fs1 arch1 where w: "write_one n canOpen stamp b roll d fs = Some fs1" "arch_ok arch1 (log_name b) fs1"
      "stream_of arch1 (log_name b) fs1 = stream_of arch (log_name b) fs @ d" "card (dom fs1) \<le> Suc (card (dom fs))"
    using write_one_stream [of arch b fs canOpen stamp n roll d] Cons.prems by auto
  have "card (dom fs1) + length ds + 2 \<le> n" using w(4) Cons.prems(4) by simp
  from Cons.IH [OF w(2) Cons.prems(2,3) this Cons.prems(5)] w show ?case by auto
qed

section \<open>Properties\<close>

text \<open>No log line is lost while the logger is busy. Whatever the interleaving of the writers with the
  background thread, as long as every pass finds something to write and no more than 25 buffers,
  the bytes appended so far are, in order, the bytes handed to the files, those in the thread's
  hands and those in the shared buffers; neither an append nor the recycling of buffers fails, and
  the flush at the end hands over everything that is left.\<close>

theorem no_log_lost:
  assumes "reach logsys_init log_step s"
  shows "appended s = written s @ (if collected s then concat (buffersToWrite (locals s)) else []) @ concat (pending (shared s)) \<and>
     (\<exists>sh. append_log line (shared s) = Inr sh) \<and>
     (collected s \<longrightarrow> (\<exists>lo. recycle (locals s) = Inr lo)) \<and>
     (\<not> collected s \<longrightarrow> written s @ concat (buffersToWrite (snd (final_collect (shared s, locals s)))) = appended s)"
proof -
  have inv: "log_inv s" using assms by (rule log_run.reachable_inv)
  moreover have "buffersToWrite (snd (final_collect (shared s, locals s))) = pending (shared s)" if "\<not> collected s"
  proof -
    obtain b where b: "currentBuffer (shared s) = Some b" using inv by (auto simp: log_inv_def Let_def)
    have "locals s = thread_start" using inv that by (auto simp: log_inv_def Let_def)
    then show ?thesis
      using push_current_pending(1) [OF b] by (auto simp: final_collect_def thread_start_def Let_def)
  qed
  ultimately show ?thesis
    using append_log_total [OF inv, of line] write_inv [OF inv] by (auto simp: log_inv_def Let_def)
qed

text \<open>A logger that was just started, and a line appended to it.\<close>

definition fresh_log :: logsys where
  "fresh_log = \<lparr>shared = start_log (AsyncLogging_new ''app'' 1000 3), locals = thread_start, collected = False,
     appended = [], written = []\<rparr>"

lemma fresh_log_init: "logsys_init fresh_log"
  by (auto simp: logsys_init_def fresh_log_def)

lemma fresh_log_append:
  "reach logsys_init log_step (fresh_log\<lparr>shared := (shared fresh_log)\<lparr>currentBuffer := Some [104, 105]\<rparr>, appended := [104, 105]\<rparr>)"
proof -
  have "append_log [104, 105] (shared fresh_log) = Inr ((shared fresh_log)\<lparr>currentBuffer := Some [104, 105]\<rparr>)"
    by (simp add: append_log_def fresh_log_def start_log_def AsyncLogging_new_def kBufferSize_def)
  from log_append [OF _ this] reach_step [OF reach_init [of logsys_init, OF fresh_log_init]]
  show ?thesis by (simp add: fresh_log_def)
qed

theorem no_log_lost_witness:
  "concat (buffersToWrite (snd (final_collect
     ((shared fresh_log)\<lparr>currentBuffer := Some [104, 105]\<rparr>, locals fresh_log)))) = [104, 105]"
  using no_log_lost [OF fresh_log_append] by (simp add: fresh_log_def)

text \<open>C35: Writing and rolling keep the log complete. Writing the buffers of a pass terminates (a free name for the
  rolled file is always found), and the rolled files in order followed by the current file hold
  exactly what they held before followed by the new buffers; no file is overwritten.\<close>

theorem log_files_complete:
  assumes "arch_ok arch (log_name b) fs" and "canOpen (log_name b)"
    and "length (stamped stamp (log_name b)) \<le> 500" and "card (dom fs) + length ds + 2 \<le> n" and "n \<le> 10 ^ 10"
  shows "\<exists>fs' arch'. write_all n canOpen stamp b roll ds fs = Some fs' \<and> arch_ok arch' (log_name b) fs' \<and>
     stream_of arch' (log_name b) fs' = stream_of arch (log_name b) fs @ concat ds"
  using assms by (rule write_all_stream)

theorem log_files_complete_witness:
  "\<exists>fs' arch'. write_all 10 (\<lambda>_. True) ''.20240101-000000'' ''app'' 2 [[1, 2], [3]] Map.empty = Some fs' \<and>
     arch_ok arch' ''app.log'' fs' \<and> stream_of arch' ''app.log'' fs' = [1, 2, 3]"
  using log_files_complete [of "[]" "''app''" Map.empty "\<lambda>_. True" "''.20240101-000000''" "[[1, 2], [3]]" 10 2]
  by (simp add: log_name_def arch_ok_def stream_of_def stamped_def)

text \<open>C40: After an idle interval the next lines are lost. If a pass finds nothing to write, it leaves
  \<open>newBuffer1\<close> null; the next pass then takes the buffer with the new lines from the queue as its
  spare buffer and empties it: the lines appended in between never reach a file and are not
  pending any more.\<close>

theorem idle_pass_loses_log:
  assumes "currentBuffer s = Some []" and "buffers s = []" and "nextBuffer s = Some nb"
    and "line \<noteq> []" and "length line < kBufferSize"
    and "collect (s, thread_start) = (s1, l1)"
    and "append_log line s1 = Inr s2" and "collect (s2, l1) = (s3, l3)"
  shows "buffersToWrite l1 = [] \<and> buffersToWrite l3 = [] \<and> pending s3 = []"
proof -
  have 1: "s1 = s\<lparr>currentBuffer := Some [], buffers := []\<rparr>" "l1 = thread_start\<lparr>newBuffer1 := None\<rparr>"
    using assms(1-3,6) by (auto simp: collect_def spare_def push_current_def thread_start_def Let_def)
  have 2: "s2 = s1\<lparr>currentBuffer := Some line\<rparr>"
    using assms(5,7) 1 by (simp add: append_log_def)
  show ?thesis
    using assms(3,4,8) 1 2 by (auto simp: collect_def spare_def push_current_def thread_start_def Let_def pending_def)
qed

theorem idle_pass_loses_log_witness:
  "\<exists>s1 l1 s2 s3 l3. collect (shared fresh_log, thread_start) = (s1, l1) \<and> append_log [104, 105] s1 = Inr s2 \<and>
     collect (s2, l1) = (s3, l3) \<and> buffersToWrite l3 = [] \<and> pending s3 = []"
proof -
  obtain s1 l1 where 1: "collect (shared fresh_log, thread_start) = (s1, l1)" by fastforce
  then obtain s2 where 2: "append_log [104, 105] s1 = Inr s2"
    by (auto simp: fresh_log_def start_log_def AsyncLogging_new_def collect_def spare_def push_current_def
        thread_start_def append_log_def kBufferSize_def)
  obtain s3 l3 where 3: "collect (s2, l1) = (s3, l3)" by fastforce
  have "buffersToWrite l3 = [] \<and> pending s3 = []"
    using idle_pass_loses_log [of "shared fresh_log" "[]" "[104, 105]", OF _ _ _ _ _ 1 2 3]
    by (simp add: fresh_log_def start_log_def AsyncLogging_new_def kBufferSize_def)
  then show ?thesis using 1 2 3 by blast
qed

text \<open>After an idle interval, one full buffer ends the program. The pass that follows takes the current buffer
  as its spare one, has a single buffer to write, and needs two to recycle: its assertion fails.\<close>

theorem idle_overflow_asserts:
  assumes "newBuffer1 l = None" and "buffersToWrite l = []"
    and "buffers s = [full]" and "currentBuffer s = Some rest" and "rest \<noteq> []" and "nextBuffer s = None"
    and "collect (s, l) = (s1, l1)"
  shows "buffersToWrite l1 = [full] \<and> recycle l1 = Inl Assert_fail"
  using assms by (auto simp: collect_def spare_def push_current_def Let_def recycle_def recycle1_def recycle2_def)

theorem idle_overflow_asserts_witness:
  "\<exists>s1 l1. collect ((shared fresh_log)\<lparr>buffers := [replicate 65536 0], currentBuffer := Some [1], nextBuffer := None\<rparr>,
       thread_start\<lparr>newBuffer1 := None\<rparr>) = (s1, l1) \<and> recycle l1 = Inl Assert_fail"
proof -
  obtain s1 l1 where c: "collect ((shared fresh_log)\<lparr>buffers := [replicate 65536 0], currentBuffer := Some [1], nextBuffer := None\<rparr>,
       thread_start\<lparr>newBuffer1 := None\<rparr>) = (s1, l1)" by fastforce
  have "recycle l1 = Inl Assert_fail"
    using idle_overflow_asserts [OF _ _ _ _ _ _ c] by (simp add: thread_start_def)
  then show ?thesis using c by blast
qed

end
