(* ===== verification/Thread_Pools.thy ===== *)
theory Thread_Pools
  imports Prelude "HOL-Library.Multiset"
begin

text \<open>
  The classes that own threads: \<open>ThreadPool\<close> (include/knetlib/ThreadPool.h, src/ThreadPool.cpp),
  \<open>EventLoopThread\<close> and \<open>EventLoopThreadPool\<close> (src/EventLoopThread.cpp,
  src/EventLoopThreadPool.cpp). The thread pool and the loop thread are transition systems whose
  steps are what a thread does under the mutex or between two accesses to shared data; the pool of
  loops is sequential. Loops are abstract names here.
\<close>

section \<open>Tasks on worker threads\<close>

text \<open>A worker waits for work, runs a task, or has returned. \<open>added\<close> and \<open>taken\<close> record the history.\<close>

datatype 't worker = Waits | Runs 't | Returned

record 't tpool =
  tasks_q :: "'t list"
  stop_flag :: bool
  workers :: "'t worker list"
  added :: "'t list"
  taken :: "'t list"
  finished :: "'t list"

definition ThreadPool_new :: "int \<Rightarrow> 't tpool" where
  "ThreadPool_new sz = \<lparr>tasks_q = [], stop_flag = False, workers = replicate (nat sz) Waits,
     added = [], taken = [], finished = []\<rparr>"

text \<open>\<open>add\<close> throws when the pool is stopping.\<close>

definition add_task :: "'t \<Rightarrow> 't tpool \<Rightarrow> 't tpool result" where
  "add_task t s =
     (if stop_flag s then Inl Runtime_error
      else Inr (s\<lparr>tasks_q := tasks_q s @ [t], added := added s @ [t]\<rparr>))"

text \<open>The first half of the destructor; the second half joins the workers.\<close>

definition set_stop :: "'t tpool \<Rightarrow> 't tpool" where
  "set_stop s = s\<lparr>stop_flag := True\<rparr>"

text \<open>
  What a worker does once it holds the mutex: the predicate of the wait is false (it keeps
  waiting), or it returns, or it takes the first task.
\<close>

definition worker_turn :: "nat \<Rightarrow> 't tpool \<Rightarrow> 't tpool" where
  "worker_turn i s =
     (if \<not> (stop_flag s \<or> tasks_q s \<noteq> []) then s
      else if stop_flag s \<and> tasks_q s = [] then s\<lparr>workers := (workers s)[i := Returned]\<rparr>
      else s\<lparr>tasks_q := tl (tasks_q s), workers := (workers s)[i := Runs (hd (tasks_q s))],
             taken := taken s @ [hd (tasks_q s)]\<rparr>)"

inductive pool_step :: "'t tpool \<Rightarrow> 't tpool \<Rightarrow> bool" where
  pool_add: "add_task t s = Inr s' \<Longrightarrow> pool_step s s'"
| pool_stop: "pool_step s (set_stop s)"
| pool_turn: "i < length (workers s) \<Longrightarrow> workers s ! i = Waits \<Longrightarrow> pool_step s (worker_turn i s)"
| pool_finish: "i < length (workers s) \<Longrightarrow> workers s ! i = Runs t \<Longrightarrow>
     pool_step s (s\<lparr>workers := (workers s)[i := Waits], finished := finished s @ [t]\<rparr>)"

text \<open>The tasks that the workers are running.\<close>

definition running_tasks :: "'t tpool \<Rightarrow> 't list" where
  "running_tasks s = concat (map (\<lambda>w. case w of Runs t \<Rightarrow> [t] | _ \<Rightarrow> []) (workers s))"

definition pool_inv :: "nat \<Rightarrow> 't tpool \<Rightarrow> bool" where
  "pool_inv n s \<longleftrightarrow> length (workers s) = n \<and> added s = taken s @ tasks_q s \<and>
     mset (taken s) = mset (finished s) + mset (running_tasks s) \<and>
     (Returned \<in> set (workers s) \<longrightarrow> stop_flag s \<and> tasks_q s = [])"

lemma mset_concat_update:
  "i < length xs \<Longrightarrow> mset (concat (map f (xs[i := y]))) + mset (f (xs ! i)) = mset (concat (map f xs)) + mset (f y)"
  by (induction xs arbitrary: i) (auto split: nat.splits simp: add_ac)

lemma running_tasks_update:
  assumes "i < length (workers s)"
  shows "mset (running_tasks (s\<lparr>workers := (workers s)[i := w]\<rparr>)) + mset (case workers s ! i of Runs t \<Rightarrow> [t] | _ \<Rightarrow> []) =
         mset (running_tasks s) + mset (case w of Runs t \<Rightarrow> [t] | _ \<Rightarrow> [])"
  using mset_concat_update [OF assms, of "\<lambda>w. case w of Runs t \<Rightarrow> [t] | _ \<Rightarrow> []" w]
  by (simp add: running_tasks_def)

lemma running_tasks_frame [simp]:
  "running_tasks (s\<lparr>tasks_q := q, workers := ws, taken := tk\<rparr>) = running_tasks (s\<lparr>workers := ws\<rparr>)"
  "running_tasks (s\<lparr>workers := ws, finished := fi\<rparr>) = running_tasks (s\<lparr>workers := ws\<rparr>)"
  "running_tasks (s\<lparr>tasks_q := q, added := ad\<rparr>) = running_tasks s"
  "running_tasks (s\<lparr>stop_flag := b\<rparr>) = running_tasks s"
  by (simp_all add: running_tasks_def)

lemma Returned_update: "Returned \<in> set (xs[i := w]) \<Longrightarrow> w \<noteq> Returned \<Longrightarrow> Returned \<in> set xs"
  using set_update_subset_insert [of xs i w] by auto

lemma worker_turn_inv:
  assumes inv: "pool_inv n s" and i: "i < length (workers s)" "workers s ! i = Waits"
  shows "pool_inv n (worker_turn i s)"
proof (cases "tasks_q s")
  case Nil
  then show ?thesis
    using inv running_tasks_update [OF i(1), of Returned] i(2) by (auto simp: pool_inv_def worker_turn_def)
next
  case (Cons t ts)
  then have "Returned \<notin> set (workers s)" using inv by (auto simp: pool_inv_def)
  then have "Returned \<notin> set ((workers s)[i := Runs t])" using Returned_update by fast
  then show ?thesis
    using inv Cons running_tasks_update [OF i(1), of "Runs t"] i(2) by (auto simp: pool_inv_def worker_turn_def)
qed

lemma worker_finish_inv:
  assumes inv: "pool_inv n s" and i: "i < length (workers s)" "workers s ! i = Runs t"
  shows "pool_inv n (s\<lparr>workers := (workers s)[i := Waits], finished := finished s @ [t]\<rparr>)"
proof -
  have "Returned \<in> set ((workers s)[i := Waits]) \<Longrightarrow> Returned \<in> set (workers s)" by (drule Returned_update) auto
  then show ?thesis
    using inv running_tasks_update [OF i(1), of Waits] i(2) by (auto simp: pool_inv_def)
qed

interpretation pool_run: inductive_invariant "\<lambda>s. s = ThreadPool_new sz" pool_step "pool_inv (nat sz)" for sz
proof
  fix s :: "'a tpool"
  assume "s = ThreadPool_new sz"
  then show "pool_inv (nat sz) s" by (auto simp: pool_inv_def ThreadPool_new_def running_tasks_def)
next
  fix s t :: "'a tpool"
  assume inv: "pool_inv (nat sz) s" and "pool_step s t"
  from this(2) show "pool_inv (nat sz) t"
  proof (cases rule: pool_step.cases)
    case (pool_add u)
    then show ?thesis using inv by (auto simp: pool_inv_def add_task_def split: if_splits)
  next
    case (pool_turn i)
    then show ?thesis using inv by (simp add: worker_turn_inv)
  next
    case (pool_finish i u)
    then show ?thesis using inv by (simp add: worker_finish_inv)
  qed (use inv in \<open>auto simp: pool_inv_def set_stop_def\<close>)
qed

section \<open>Futures\<close>







lemma added_worker_turn [simp]: "added (worker_turn i s) = added s"
  by (simp add: worker_turn_def)



section \<open>Round robin over event loops\<close>

record 'l lpool =
  baseLoop :: "'l option"
  numThreads :: int
  next_idx :: int
  pool_started :: bool
  loops :: "'l list"

definition EventLoopThreadPool_new :: "'l option \<Rightarrow> 'l lpool result" where
  "EventLoopThreadPool_new base =
     bindE (assertE (base \<noteq> None)) (\<lambda>_.
     Inr \<lparr>baseLoop = base, numThreads = 0, next_idx = 0, pool_started = False, loops = []\<rparr>)"

definition setThreadNum :: "int \<Rightarrow> 'l lpool \<Rightarrow> 'l lpool" where
  "setThreadNum n s = s\<lparr>numThreads := n\<rparr>"

text \<open>\<open>spawn i\<close> is the loop that the i-th \<open>startLoop\<close> returns; \<open>inLoop\<close> is the base loop's thread check.\<close>

definition start_pool :: "bool \<Rightarrow> (nat \<Rightarrow> 'l) \<Rightarrow> 'l lpool \<Rightarrow> 'l lpool result" where
  "start_pool inLoop spawn s =
     bindE (assertE (\<not> pool_started s)) (\<lambda>_.
     bindE (assertE inLoop) (\<lambda>_.
     Inr (s\<lparr>pool_started := True, loops := loops s @ map spawn [0..<nat (numThreads s)]\<rparr>)))"

text \<open>\<open>loops_[next_]\<close> does not check its index: an index outside the vector is undefined.\<close>

definition getNextLoop :: "bool \<Rightarrow> 'l lpool \<Rightarrow> ('l option \<times> 'l lpool) result" where
  "getNextLoop inLoop s =
     bindE (assertE (pool_started s)) (\<lambda>_.
     bindE (assertE inLoop) (\<lambda>_.
     if loops s \<noteq> [] then
       (if next_idx s < 0 \<or> int (length (loops s)) \<le> next_idx s then Inl Out_of_bounds
        else
          let lp = loops s ! nat (next_idx s);
              n = next_idx s + 1 in
          Inr (Some lp, s\<lparr>next_idx := (if int (length (loops s)) \<le> n then 0 else n)\<rparr>))
     else Inr (baseLoop s, s)))"

definition getAllLoops :: "'l lpool \<Rightarrow> 'l option list result" where
  "getAllLoops s = bindE (assertE (pool_started s)) (\<lambda>_. Inr (baseLoop s # map Some (loops s)))"

text \<open>The answers of \<open>k\<close> calls in a row.\<close>

fun next_loops :: "nat \<Rightarrow> 'l lpool \<Rightarrow> ('l option list \<times> 'l lpool) result" where
  "next_loops 0 s = Inr ([], s)"
| "next_loops (Suc k) s =
     bindE (getNextLoop True s) (\<lambda>(l, s1). mapE (\<lambda>(ls, s2). (l # ls, s2)) (next_loops k s1))"

lemma getNextLoop_ok:
  assumes "pool_started s" and "loops s \<noteq> []" and "0 \<le> next_idx s" and "next_idx s < int (length (loops s))"
  shows "\<exists>s'. getNextLoop True s = Inr (Some (loops s ! nat (next_idx s)), s') \<and> pool_started s' \<and>
    loops s' = loops s \<and> next_idx s' = (next_idx s + 1) mod int (length (loops s)) \<and>
    0 \<le> next_idx s' \<and> next_idx s' < int (length (loops s))"
proof (cases "next_idx s + 1 = int (length (loops s))")
  case True
  then show ?thesis using assms by (simp add: getNextLoop_def Let_def)
next
  case False
  then show ?thesis using assms by (simp add: getNextLoop_def Let_def)
qed

lemma next_loops_ok:
  assumes "pool_started s" and "loops s \<noteq> []" and "0 \<le> next_idx s" and "next_idx s < int (length (loops s))"
  shows "\<exists>s'. next_loops k s =
     Inr (map (\<lambda>i. Some (loops s ! ((nat (next_idx s) + i) mod length (loops s)))) [0..<k], s')"
  using assms
proof (induction k arbitrary: s)
  case (Suc k)
  let ?n = "length (loops s)"
  obtain s1 where s1: "getNextLoop True s = Inr (Some (loops s ! nat (next_idx s)), s1)" "pool_started s1"
      "loops s1 = loops s" "next_idx s1 = (next_idx s + 1) mod int ?n" "0 \<le> next_idx s1" "next_idx s1 < int ?n"
    using getNextLoop_ok [OF Suc.prems] by blast
  obtain s2 where s2: "next_loops k s1 =
      Inr (map (\<lambda>i. Some (loops s ! ((nat (next_idx s1) + i) mod ?n))) [0..<k], s2)"
    using Suc.IH [of s1] s1 Suc.prems by auto
  have shift: "(nat (next_idx s1) + i) mod ?n = (nat (next_idx s) + Suc i) mod ?n" for i
  proof -
    have "nat (next_idx s1) = (nat (next_idx s) + 1) mod ?n"
      using s1(4) Suc.prems(3) by (simp add: nat_mod_distrib nat_add_distrib)
    then show ?thesis by (simp add: mod_simps)
  qed
  have "nat (next_idx s) mod ?n = nat (next_idx s)" using Suc.prems(3,4) by simp
  then have first: "map (\<lambda>i. Some (loops s ! ((nat (next_idx s) + i) mod ?n))) [0..<Suc k] =
      Some (loops s ! nat (next_idx s)) # map (\<lambda>i. Some (loops s ! ((nat (next_idx s) + Suc i) mod ?n))) [0..<k]"
    by (simp only: map_upt_Suc add_0_right)
  show ?case unfolding first using s1(1) s2 shift by simp
qed simp

section \<open>A thread with an event loop\<close>

text \<open>
  \<open>EventLoopThread\<close>: the thread that calls \<open>startLoop\<close>, the new thread in \<open>threadFunc\<close>, and a
  thread that calls \<open>stop\<close>. \<open>loop_set\<close> says that \<open>loop_\<close> is not null, \<open>loop_alive\<close> that the local
  \<open>EventLoop\<close> object exists.
\<close>

datatype start_pc = NotStarted | WaitsForLoop | GotLoop
datatype thread_pc = NoThread | Spawned | BuiltLoop | InLoop | LoopReturned | Cleared | Exited
datatype stop_pc = NotStopping | SawLoop | SawNull | Joining | Joined

record elt =
  loop_set :: bool
  loop_alive :: bool
  exiting :: bool
  starter :: start_pc
  thr :: thread_pc
  stopper :: stop_pc

definition EventLoopThread_new :: elt where
  "EventLoopThread_new = \<lparr>loop_set = False, loop_alive = False, exiting = False, starter = NotStarted,
     thr = NoThread, stopper = NotStopping\<rparr>"

definition start_call :: "elt \<Rightarrow> elt result" where
  "start_call s = bindE (assertE (\<not> loop_set s)) (\<lambda>_. Inr (s\<lparr>thr := Spawned, starter := WaitsForLoop\<rparr>))"

text \<open>The call \<open>loop_->quit()\<close> reads \<open>loop_\<close> again, without the mutex.\<close>

definition quit_call :: "elt \<Rightarrow> elt result" where
  "quit_call s =
     (if \<not> loop_set s then Inl Null_deref
      else if \<not> loop_alive s then Inl Use_after_free
      else Inr (s\<lparr>stopper := Joining\<rparr>))"

inductive elt_step :: "elt \<Rightarrow> elt \<Rightarrow> bool" where
  elt_start: "starter s = NotStarted \<Longrightarrow> start_call s = Inr s' \<Longrightarrow> elt_step s s'"
| elt_build: "thr s = Spawned \<Longrightarrow> elt_step s (s\<lparr>thr := BuiltLoop, loop_alive := True\<rparr>)"
| elt_publish: "thr s = BuiltLoop \<Longrightarrow> elt_step s (s\<lparr>thr := InLoop, loop_set := True\<rparr>)"
| elt_wake: "starter s = WaitsForLoop \<Longrightarrow> loop_set s \<Longrightarrow> elt_step s (s\<lparr>starter := GotLoop\<rparr>)"
| elt_return: "thr s = InLoop \<Longrightarrow> elt_step s (s\<lparr>thr := LoopReturned\<rparr>)"
| elt_clear: "thr s = LoopReturned \<Longrightarrow> elt_step s (s\<lparr>thr := Cleared, loop_set := False\<rparr>)"
| elt_exit: "thr s = Cleared \<Longrightarrow> elt_step s (s\<lparr>thr := Exited, loop_alive := False\<rparr>)"
| elt_stop: "stopper s = NotStopping \<Longrightarrow> \<not> exiting s \<Longrightarrow>
     elt_step s (s\<lparr>exiting := True, stopper := (if loop_set s then SawLoop else SawNull)\<rparr>)"
| elt_quit: "stopper s = SawLoop \<Longrightarrow> quit_call s = Inr s' \<Longrightarrow> elt_step s s'"
| elt_noquit: "stopper s = SawNull \<Longrightarrow> elt_step s (s\<lparr>stopper := Joining\<rparr>)"
| elt_join: "stopper s = Joining \<Longrightarrow> thr s \<in> {NoThread, Exited} \<Longrightarrow> elt_step s (s\<lparr>stopper := Joined\<rparr>)"

definition elt_inv :: "elt \<Rightarrow> bool" where
  "elt_inv s \<longleftrightarrow>
     (loop_set s \<longleftrightarrow> thr s \<in> {InLoop, LoopReturned}) \<and>
     (loop_alive s \<longleftrightarrow> thr s \<in> {BuiltLoop, InLoop, LoopReturned, Cleared}) \<and>
     (starter s = NotStarted \<longleftrightarrow> thr s = NoThread) \<and>
     (stopper s \<noteq> NotStopping \<longrightarrow> exiting s)"

interpretation elt_run: inductive_invariant "\<lambda>s. s = EventLoopThread_new" elt_step elt_inv
proof
  fix s t
  assume inv: "elt_inv s" and "elt_step s t"
  from this(2) inv show "elt_inv t"
    by cases (auto simp: elt_inv_def start_call_def quit_call_def result_iffs split: if_splits)
qed (simp add: elt_inv_def EventLoopThread_new_def)

section \<open>Properties\<close>

text \<open>When all workers have returned, nothing is running or queued.\<close>

lemma all_returned:
  assumes "pool_inv n s" and "0 < n" and "\<forall>w \<in> set (workers s). w = Returned"
  shows "mset (finished s) = mset (added s) \<and> stop_flag s"
proof -
  have "workers s \<noteq> []" using assms(1,2) by (auto simp: pool_inv_def)
  then have "Returned \<in> set (workers s)" using assms(3) by (cases "workers s") auto
  moreover have "running_tasks s = []" using assms(3) by (auto simp: running_tasks_def)
  ultimately show ?thesis using assms(1) by (simp add: pool_inv_def)
qed

text \<open>C37: The thread pool runs every task exactly once and in the order of arrival. In every reachable state the
  tasks added are those taken by workers followed by the queue; the tasks taken are those finished
  and those running; and once all workers of a pool with at least one worker have returned (which is
  what the destructor waits for), every task that was added has finished.\<close>

theorem thread_pool_drains:
  assumes "reach (\<lambda>s. s = ThreadPool_new sz) pool_step s" and "0 < sz"
  shows "added s = taken s @ tasks_q s \<and> mset (taken s) = mset (finished s) + mset (running_tasks s) \<and>
    ((\<forall>w \<in> set (workers s). w = Returned) \<longrightarrow> mset (finished s) = mset (added s) \<and> (\<forall>t. add_task t s = Inl Runtime_error))"
proof -
  have inv: "pool_inv (nat sz) s" using assms(1) by (rule pool_run.reachable_inv)
  then show ?thesis using all_returned [OF inv] assms(2) by (auto simp: pool_inv_def add_task_def)
qed

theorem thread_pool_drains_witness:
  "\<exists>s. reach (\<lambda>s. s = ThreadPool_new 1) pool_step s \<and> (\<forall>w \<in> set (workers s). w = Returned) \<and>
       mset (finished s) = {#7 :: nat#}"
proof -
  let ?s0 = "ThreadPool_new 1 :: nat tpool"
  let ?s1 = "?s0\<lparr>tasks_q := [7], added := [7]\<rparr>"
  let ?s2 = "worker_turn 0 ?s1"
  let ?s3 = "?s2\<lparr>workers := (workers ?s2)[0 := Waits], finished := finished ?s2 @ [7]\<rparr>"
  let ?s4 = "set_stop ?s3"
  let ?s5 = "worker_turn 0 ?s4"
  note defs = ThreadPool_new_def worker_turn_def set_stop_def add_task_def
  have "pool_step ?s0 ?s1" by (rule pool_add [of 7]) (simp add: defs)
  moreover have "pool_step ?s1 ?s2" by (rule pool_turn) (simp_all add: defs)
  moreover have "pool_step ?s2 ?s3" by (rule pool_finish) (simp_all add: defs)
  moreover have "pool_step ?s3 ?s4" by (rule pool_stop)
  moreover have "pool_step ?s4 ?s5" by (rule pool_turn) (simp_all add: defs)
  ultimately have "pool_step\<^sup>*\<^sup>* ?s0 ?s5" by (meson converse_rtranclp_into_rtranclp rtranclp.rtrancl_refl)
  then have r: "reach (\<lambda>s. s = ThreadPool_new 1) pool_step ?s5" by (intro reach_from [of _ ?s0]) simp_all
  moreover have all: "\<forall>w \<in> set (workers ?s5). w = Returned" "added ?s5 = [7]" by (simp_all add: defs)
  ultimately show ?thesis using thread_pool_drains [OF r] by auto
qed



lemma next_loops_round_robin:
  assumes "EventLoopThreadPool_new (Some base) = Inr p0" and "start_pool True spawn (setThreadNum n p0) = Inr p"
  shows "\<exists>p'. next_loops k p =
    Inr (map (\<lambda>i. Some (if n \<le> 0 then base else spawn (i mod nat n))) [0..<k], p')"
proof (cases "n \<le> 0")
  case True
  then have p: "baseLoop p = Some base" "loops p = []" "pool_started p"
    using assms by (auto simp: EventLoopThreadPool_new_def start_pool_def setThreadNum_def result_iffs)
  have "next_loops k p = Inr (map (\<lambda>_. Some base) [0..<k], p)"
    using p by (induction k) (simp_all add: getNextLoop_def map_replicate_const)
  then show ?thesis using True by auto
next
  case False
  then have p: "loops p = map spawn [0..<nat n]" "pool_started p" "next_idx p = 0"
    using assms by (auto simp: EventLoopThreadPool_new_def start_pool_def setThreadNum_def result_iffs)
  then obtain p' where "next_loops k p = Inr (map (\<lambda>i. Some (loops p ! ((nat 0 + i) mod nat n))) [0..<k], p')"
    using next_loops_ok [of p k] False by auto
  moreover have "loops p ! ((nat 0 + i) mod nat n) = spawn (i mod nat n)" for i
    using p(1) False by simp
  ultimately show ?thesis using False by auto
qed

text \<open>Connections are dealt out in turn. After \<open>start\<close> with \<open>n\<close> worker loops, the i-th of any number of calls
  of \<open>getNextLoop\<close> returns loop number i modulo \<open>n\<close>; without worker loops it always returns the
  base loop. No call fails or reads outside the vector.\<close>

theorem round_robin:
  assumes "EventLoopThreadPool_new (Some base) = Inr p0" and "start_pool True spawn (setThreadNum n p0) = Inr p"
  shows "\<exists>p'. next_loops k p =
    Inr (map (\<lambda>i. Some (if n \<le> 0 then base else spawn (i mod nat n))) [0..<k], p')"
  using assms by (rule next_loops_round_robin)

theorem round_robin_witness:
  "\<exists>p0 p p'. EventLoopThreadPool_new (Some 100) = Inr p0 \<and> start_pool True (\<lambda>i. i) (setThreadNum 3 p0) = Inr p \<and>
     next_loops 5 p = Inr ([Some 0, Some 1, Some 2, Some 0, Some (1 :: nat)], p')"
proof -
  obtain p0 where p0: "EventLoopThreadPool_new (Some (100 :: nat)) = Inr p0" by (simp add: EventLoopThreadPool_new_def)
  then obtain p where p: "start_pool True (\<lambda>i. i) (setThreadNum 3 p0) = Inr p"
    by (auto simp: EventLoopThreadPool_new_def start_pool_def setThreadNum_def)
  show ?thesis using round_robin [OF p0 p, of 5] p0 p by (simp add: upt_rec numeral_2_eq_2)
qed

text \<open>\<open>startLoop\<close> returns a live loop. In every reachable state of a loop thread, \<open>loop_\<close> is set only
  while the thread's event loop exists, so the pointer that \<open>startLoop\<close> returns was valid when it
  was read.\<close>

theorem start_loop_live:
  assumes "reach (\<lambda>s. s = EventLoopThread_new) elt_step s"
  shows "(loop_set s \<longrightarrow> loop_alive s) \<and> (starter s = NotStarted \<longleftrightarrow> thr s = NoThread) \<and>
         (elt_step s t \<and> starter s = WaitsForLoop \<and> starter t = GotLoop \<longrightarrow> loop_alive t)"
proof -
  have inv: "elt_inv s" using assms by (rule elt_run.reachable_inv)
  have "loop_alive t" if "elt_step s t" "starter s = WaitsForLoop" "starter t = GotLoop"
    using that inv by cases (auto simp: elt_inv_def start_call_def quit_call_def result_iffs split: if_splits)
  then show ?thesis using inv by (auto simp: elt_inv_def)
qed

lemma elt_running:
  "reach (\<lambda>s. s = EventLoopThread_new) elt_step
     (EventLoopThread_new\<lparr>thr := InLoop, loop_alive := True, loop_set := True, starter := GotLoop\<rparr>)"
proof -
  let ?s0 = EventLoopThread_new
  let ?s1 = "?s0\<lparr>thr := Spawned, starter := WaitsForLoop\<rparr>"
  let ?s2 = "?s1\<lparr>thr := BuiltLoop, loop_alive := True\<rparr>"
  let ?s3 = "?s2\<lparr>thr := InLoop, loop_set := True\<rparr>"
  let ?s4 = "?s3\<lparr>starter := GotLoop\<rparr>"
  have "elt_step ?s0 ?s1" by (rule elt_start) (simp_all add: start_call_def EventLoopThread_new_def)
  moreover have "elt_step ?s1 ?s2" by (rule elt_build) simp
  moreover have "elt_step ?s2 ?s3" by (rule elt_publish) simp
  moreover have "elt_step ?s3 ?s4" by (rule elt_wake) simp_all
  ultimately have "elt_step\<^sup>*\<^sup>* ?s0 ?s4" by (meson converse_rtranclp_into_rtranclp rtranclp.rtrancl_refl)
  then show ?thesis by (intro reach_from [of _ ?s0]) (simp_all add: EventLoopThread_new_def)
qed

theorem start_loop_live_witness:
  "loop_alive (EventLoopThread_new\<lparr>thr := InLoop, loop_alive := True, loop_set := True, starter := GotLoop\<rparr>)"
  using start_loop_live [OF elt_running] by simp

text \<open>\<open>stop\<close> races with a loop that ends by itself. \<open>stop\<close> tests \<open>loop_\<close> and then calls
  \<open>quit\<close> through it without holding the mutex; if the loop returns in between, the thread has reset
  the pointer and the call goes through null.\<close>

theorem stop_races_with_exit:
  "\<exists>s. reach (\<lambda>s. s = EventLoopThread_new) elt_step s \<and> stopper s = SawLoop \<and> quit_call s = Inl Null_deref"
proof -
  let ?s4 = "EventLoopThread_new\<lparr>thr := InLoop, loop_alive := True, loop_set := True, starter := GotLoop\<rparr>"
  let ?s5 = "?s4\<lparr>exiting := True, stopper := SawLoop\<rparr>"
  let ?s6 = "?s5\<lparr>thr := LoopReturned\<rparr>"
  let ?s7 = "?s6\<lparr>thr := Cleared, loop_set := False\<rparr>"
  have "elt_step ?s4 (?s4\<lparr>exiting := True, stopper := (if loop_set ?s4 then SawLoop else SawNull)\<rparr>)"
    by (rule elt_stop) (simp_all add: EventLoopThread_new_def)
  then have "elt_step ?s4 ?s5" by simp
  moreover have "elt_step ?s5 ?s6" by (rule elt_return) simp
  moreover have "elt_step ?s6 ?s7" by (rule elt_clear) simp
  ultimately have "elt_step\<^sup>*\<^sup>* ?s4 ?s7" by (meson converse_rtranclp_into_rtranclp rtranclp.rtrancl_refl)
  then have "reach (\<lambda>s. s = EventLoopThread_new) elt_step ?s7" by (rule reach_rtranclp [OF elt_running])
  moreover have "stopper ?s7 = SawLoop" "quit_call ?s7 = Inl Null_deref" by (simp_all add: quit_call_def)
  ultimately show ?thesis by blast
qed

end
