(* ===== verification/Sockets.thy ===== *)
theory Sockets
  imports Epoll Inet_Address
begin

text \<open>
  The classes around listening and connecting sockets: \<open>Socket\<close> (src/Socket.cpp), \<open>Acceptor\<close>
  (src/Acceptor.cpp) and \<open>Connector\<close> (src/Connector.cpp). The answers of the system calls are
  arguments. Where a class ends a function with a callback, the function returns the callback and
  its arguments as a value of type \<open>notice\<close>, and the caller runs it.
\<close>

section \<open>Socket\<close>

text \<open>\<open>errif\<close> ends the program.\<close>

definition errif :: "bool \<Rightarrow> unit result" where
  "errif c = (if c then Inl Exit_failure else Inr ())"

definition Socket_new :: "int \<Rightarrow> int result" where
  "Socket_new f = bindE (errif (f = - 1)) (\<lambda>_. Inr f)"

text \<open>The descriptors that the destructor closes.\<close>

definition Socket_delete :: "int \<Rightarrow> int list" where
  "Socket_delete f = (if f \<noteq> - 1 then [f] else [])"

definition Socket_bind :: "bool \<Rightarrow> unit result" where
  "Socket_bind failed = errif failed"

definition Socket_listen :: "bool \<Rightarrow> unit result" where
  "Socket_listen failed = errif failed"

definition Socket_accept :: "errno + int \<times> sockaddr_in \<Rightarrow> sockaddr_in \<Rightarrow> (int \<times> sockaddr_in) result" where
  "Socket_accept r old =
     (case r of
        Inl e \<Rightarrow> if e = EAGAIN then Inr (- 1, old) else Inl Exit_failure
      | Inr (f, a) \<Rightarrow> Inr (f, setInetAddr a (getSocklen a) old))"

definition Socket_connect :: "errno option \<Rightarrow> unit result" where
  "Socket_connect r = errif (r \<noteq> None)"

section \<open>Acceptor\<close>

record acceptor =
  listening :: bool
  acceptfd :: int
  acceptChannel :: channel
  acc_local :: sockaddr_in
  hasNewConn :: bool

datatype notice = NoNotice | NewConnection int sockaddr_in sockaddr_in | ConnectError | CloseFd int

definition createSocket :: "int \<Rightarrow> int result" where
  "createSocket f = (if f = - 1 then Inl Fatal_abort else Inr f)"

definition Acceptor_new :: "int \<Rightarrow> bool \<Rightarrow> bool \<Rightarrow> sockaddr_in \<Rightarrow> acceptor result" where
  "Acceptor_new f setsockoptFailed bindFailed lo =
     bindE (createSocket f) (\<lambda>f.
     if setsockoptFailed then Inl Fatal_abort
     else if bindFailed then Inl Fatal_abort
     else Inr \<lparr>listening = False, acceptfd = f, acceptChannel = Channel_new f, acc_local = lo, hasNewConn = False\<rparr>)"

definition Acceptor_delete :: "acceptor \<Rightarrow> int list result" where
  "Acceptor_delete a =
     bindE (Channel_delete (acceptChannel a)) (\<lambda>_. Inr (if acceptfd a \<noteq> - 1 then [acceptfd a] else []))"

definition setNewConnectionCallback :: "bool \<Rightarrow> acceptor \<Rightarrow> acceptor" where
  "setNewConnectionCallback cb a = a\<lparr>hasNewConn := cb\<rparr>"

definition listen :: "'k epoll_ctl \<Rightarrow> bool \<Rightarrow> nat \<Rightarrow> bool \<Rightarrow> acceptor \<times> 'k \<Rightarrow> (acceptor \<times> 'k) result" where
  "listen ctl inLoop p listenFailed s =
     (let (a, k) = s in
      bindE (assertE inLoop) (\<lambda>_.
      if listenFailed then Inl Fatal_abort
      else
        bindE (enableRead ctl inLoop p (setReadCallback True (acceptChannel a), k)) (\<lambda>(ch, k').
        Inr (a\<lparr>listening := True, acceptChannel := ch\<rparr>, k'))))"

definition handleRead_acceptor :: "bool \<Rightarrow> errno + int \<times> sockaddr_in \<Rightarrow> acceptor \<Rightarrow> notice result" where
  "handleRead_acceptor inLoop r a =
     bindE (assertE inLoop) (\<lambda>_.
     case r of
       Inl e \<Rightarrow> if e = ECONNABORTED \<or> e = EMFILE then Inr NoNotice else Inl Fatal_abort
     | Inr (f, addr) \<Rightarrow>
         Inr (if hasNewConn a then NewConnection f (acc_local a) (setAddress addr InetAddress_any) else CloseFd f))"

section \<open>Connector\<close>

record connector =
  con_peer :: sockaddr_in
  con_fd :: int
  con_connected :: bool
  con_started :: bool
  con_channel :: channel
  con_hasNew :: bool
  con_hasError :: bool

definition Connector_new :: "int \<Rightarrow> sockaddr_in \<Rightarrow> connector result" where
  "Connector_new f peer =
     bindE (createSocket f) (\<lambda>f.
     Inr \<lparr>con_peer = peer, con_fd = f, con_connected = False, con_started = False,
          con_channel = setWriteCallback True (Channel_new f), con_hasNew = False, con_hasError = False\<rparr>)"

text \<open>The destructor takes the channel out of the poller and returns the descriptors it closes.\<close>

definition Connector_delete :: "'k epoll_ctl \<Rightarrow> bool \<Rightarrow> nat \<Rightarrow> connector \<times> 'k \<Rightarrow> (int list \<times> 'k) result" where
  "Connector_delete ctl inLoop p s =
     (let (c, k) = s in
      bindE (if con_started c \<and> \<not> con_connected c \<and> pooling (con_channel c)
             then bindE (assertE inLoop) (\<lambda>_. removeChannel ctl inLoop p (con_channel c, k))
             else Inr (con_channel c, k)) (\<lambda>(ch, k').
      bindE (Channel_delete ch) (\<lambda>_.
      Inr (if \<not> con_connected c \<and> con_fd c \<noteq> - 1 then [con_fd c] else [], k'))))"

definition setNewConnectionCallback_con :: "bool \<Rightarrow> connector \<Rightarrow> connector" where
  "setNewConnectionCallback_con cb c = c\<lparr>con_hasNew := cb\<rparr>"

definition setErrorCallback_con :: "bool \<Rightarrow> connector \<Rightarrow> connector" where
  "setErrorCallback_con cb c = c\<lparr>con_hasError := cb\<rparr>"

text \<open>
  \<open>soerr\<close> is the answer of \<open>getsockopt(SO_ERROR)\<close>: the pending error, or none. A failing
  \<open>getsockopt\<close> leaves its own error in \<open>errno\<close>. \<open>lo\<close> is what \<open>getsockname\<close> stores.
\<close>

definition handleWrite_con ::
  "'k epoll_ctl \<Rightarrow> bool \<Rightarrow> nat \<Rightarrow> errno + errno option \<Rightarrow> sockaddr_in \<Rightarrow> connector \<times> 'k \<Rightarrow> (notice \<times> connector \<times> 'k) result" where
  "handleWrite_con ctl inLoop p soerr lo s =
     (let (c, k) = s in
      bindE (assertE inLoop) (\<lambda>_.
      bindE (assertE (con_started c)) (\<lambda>_.
      bindE (assertE inLoop) (\<lambda>_.
      bindE (removeChannel ctl inLoop p (con_channel c, k)) (\<lambda>(ch, k').
      let c1 = c\<lparr>con_channel := ch\<rparr>;
          err = (case soerr of Inl e \<Rightarrow> Some e | Inr e \<Rightarrow> e) in
      if err \<noteq> None then Inr (if con_hasError c1 then ConnectError else NoNotice, c1, k')
      else if con_hasNew c1 then
        Inr (NewConnection (con_fd c1) (setAddress lo InetAddress_any) (con_peer c1), c1\<lparr>con_connected := True\<rparr>, k')
      else Inr (NoNotice, c1, k'))))))"

text \<open>\<open>r\<close> is the answer of \<open>connect\<close>.\<close>

definition start_con ::
  "'k epoll_ctl \<Rightarrow> bool \<Rightarrow> nat \<Rightarrow> errno option \<Rightarrow> errno + errno option \<Rightarrow> sockaddr_in \<Rightarrow> connector \<times> 'k \<Rightarrow>
   (notice \<times> connector \<times> 'k) result" where
  "start_con ctl inLoop p r soerr lo s =
     (let (c, k) = s in
      bindE (assertE inLoop) (\<lambda>_.
      bindE (assertE (\<not> con_started c)) (\<lambda>_.
      let c1 = c\<lparr>con_started := True\<rparr> in
      if r = Some EINPROGRESS then
        bindE (enableWrite ctl inLoop p (con_channel c1, k)) (\<lambda>(ch, k').
        Inr (NoNotice, c1\<lparr>con_channel := ch\<rparr>, k'))
      else handleWrite_con ctl inLoop p soerr lo (c1, k))))"

section \<open>Lemmas\<close>

lemma new_channel_agrees: "interest k f = None \<Longrightarrow> agrees interest p (setWriteCallback cb (Channel_new f), k)"
  by (simp add: agrees_def Channel_new_def setWriteCallback_def)

lemma handleWrite_con_ok:
  assumes "epoll_ctl_ok ctl interest" and "agrees interest p (con_channel c, k)" and "con_started c" and "con_hasNew c"
  shows "\<exists>k'. handleWrite_con ctl True p soerr lo (c, k) =
     Inr (case soerr of
            Inr None \<Rightarrow> (NewConnection (con_fd c) lo (con_peer c),
               c\<lparr>con_channel := (con_channel c)\<lparr>pooling := False\<rparr>, con_connected := True\<rparr>, k')
          | _ \<Rightarrow> (if con_hasError c then ConnectError else NoNotice,
               c\<lparr>con_channel := (con_channel c)\<lparr>pooling := False\<rparr>\<rparr>, k')) \<and>
     interest k' (chanfd (con_channel c)) = None"
proof -
  obtain k' where k': "removeChannel ctl True p (con_channel c, k) = Inr ((con_channel c)\<lparr>pooling := False\<rparr>, k')"
      "agrees interest p ((con_channel c)\<lparr>pooling := False\<rparr>, k')"
    using removeChannel_agrees [OF assms(1,2)] by blast
  then have "interest k' (chanfd (con_channel c)) = None" by (simp add: agrees_def)
  then show ?thesis
    using k'(1) assms(3,4)
    by (intro exI [of _ k']) (auto simp: handleWrite_con_def setAddress_def split: sum.splits option.splits)
qed

text \<open>A connect that is in progress: the connector waits for its channel to become writable.\<close>

lemma start_in_progress:
  assumes "epoll_ctl_ok ctl interest" and "interest k f = None"
    and "con_channel ct = setWriteCallback True (Channel_new f)" and "\<not> con_started ct"
  shows "\<exists>ch k'. start_con ctl True p (Some EINPROGRESS) so lo (ct, k) =
       Inr (NoNotice, ct\<lparr>con_started := True, con_channel := ch\<rparr>, k') \<and>
     agrees interest p (ch, k') \<and> chanfd ch = f \<and> pooling ch \<and> \<not> handlingEvents ch \<and>
     interest k' = (interest k)(f \<mapsto> \<lparr>ev_events = EPOLLOUT, ev_ptr = p\<rparr>)"
proof -
  let ?ch = "setWriteCallback True (Channel_new f)"
  have ch: "events ?ch = 0" "\<not> pooling ?ch" "chanfd ?ch = f" "\<not> handlingEvents ?ch"
    by (simp_all add: setWriteCallback_def Channel_new_def)
  have ag: "agrees interest p (?ch, k)" using assms(2) by (rule new_channel_agrees)
  have "EPOLLOUT \<noteq> 0" by (simp add: epoll_consts)
  then obtain k' where "enableWrite ctl True p (?ch, k) = Inr (?ch\<lparr>events := EPOLLOUT, pooling := True\<rparr>, k')"
      "interest k' = (interest k)(f \<mapsto> \<lparr>ev_events = EPOLLOUT, ev_ptr = p\<rparr>)"
    using update_interest [OF assms(1) ag, of EPOLLOUT] ch by (auto simp: enableWrite_def)
  then show ?thesis
    using assms(3,4) ch
    by (intro exI [of _ "?ch\<lparr>events := EPOLLOUT, pooling := True\<rparr>"] exI [of _ k']) (simp add: start_con_def agrees_def)
qed


section \<open>Properties\<close>

text \<open>A connection attempt is reported exactly once, and the descriptor has exactly one owner. Started on a
  fresh socket, an attempt in progress registers for writability; when that event arrives the
  channel leaves the poller, and the new-connection callback gets the descriptor if there is no
  pending error, else the error callback runs. The destructor closes the descriptor exactly if it
  was not handed over.\<close>

theorem connect_attempt:
  assumes "epoll_ctl_ok ctl interest" and "interest k f = None" and "f \<noteq> - 1"
    and "Connector_new f peer = Inr c0"
    and "c = setErrorCallback_con True (setNewConnectionCallback_con True c0)"
  shows "\<exists>c1 k1 n c2 k2.
     start_con ctl True p (Some EINPROGRESS) soerr lo (c, k) = Inr (NoNotice, c1, k1) \<and>
     interest k1 f = Some \<lparr>ev_events = EPOLLOUT, ev_ptr = p\<rparr> \<and>
     handleWrite_con ctl True p soerr lo (c1, k1) = Inr (n, c2, k2) \<and> interest k2 f = None \<and>
     n = (if soerr = Inr None then NewConnection f lo peer else ConnectError) \<and>
     Connector_delete ctl True p (c2, k2) = Inr (if soerr = Inr None then [] else [f], k2)"
proof -
  have c: "con_channel c = setWriteCallback True (Channel_new f)" "con_fd c = f" "con_peer c = peer"
      "\<not> con_started c" "\<not> con_connected c" "con_hasNew c" "con_hasError c"
    using assms(3-5) by (auto simp: Connector_new_def createSocket_def setErrorCallback_con_def setNewConnectionCallback_con_def)
  obtain ch k1 where st: "start_con ctl True p (Some EINPROGRESS) soerr lo (c, k) = Inr (NoNotice, c\<lparr>con_started := True, con_channel := ch\<rparr>, k1)"
      "agrees interest p (ch, k1)" "chanfd ch = f" "\<not> handlingEvents ch"
      "interest k1 = (interest k)(f \<mapsto> \<lparr>ev_events = EPOLLOUT, ev_ptr = p\<rparr>)"
    using start_in_progress [of ctl interest k f c p soerr lo] assms(1,2) c by blast
  let ?c1 = "c\<lparr>con_started := True, con_channel := ch\<rparr>"
  have "agrees interest p (con_channel ?c1, k1)" "con_started ?c1" "con_hasNew ?c1" using st(2) c by simp_all
  from handleWrite_con_ok [OF assms(1) this, of soerr lo] obtain k2 where k2: "handleWrite_con ctl True p soerr lo (?c1, k1) =
     Inr (case soerr of
            Inr None \<Rightarrow> (NewConnection (con_fd ?c1) lo (con_peer ?c1),
               ?c1\<lparr>con_channel := (con_channel ?c1)\<lparr>pooling := False\<rparr>, con_connected := True\<rparr>, k2)
          | _ \<Rightarrow> (if con_hasError ?c1 then ConnectError else NoNotice,
               ?c1\<lparr>con_channel := (con_channel ?c1)\<lparr>pooling := False\<rparr>\<rparr>, k2))" "interest k2 (chanfd (con_channel ?c1)) = None"
    by blast
  show ?thesis
  proof (cases "soerr = Inr None")
    case True
    then show ?thesis using st k2 c by (auto simp: Connector_delete_def Channel_delete_def)
  next
    case False
    then have "handleWrite_con ctl True p soerr lo (?c1, k1) = Inr (ConnectError, ?c1\<lparr>con_channel := ch\<lparr>pooling := False\<rparr>\<rparr>, k2)"
      using k2(1) c(7) by (auto split: sum.splits option.splits)
    then show ?thesis
      using st k2(2) c False assms(3) by (auto simp: Connector_delete_def Channel_delete_def)
  qed
qed

theorem connect_attempt_witness:
  "\<exists>c1 k1 n c2 k2. start_con map_ctl True 1 (Some EINPROGRESS) (Inr None) InetAddress_any
       (setErrorCallback_con True (setNewConnectionCallback_con True
         \<lparr>con_peer = InetAddress_any, con_fd = 5, con_connected = False, con_started = False,
          con_channel = setWriteCallback True (Channel_new 5), con_hasNew = False, con_hasError = False\<rparr>), Map.empty)
       = Inr (NoNotice, c1, k1) \<and>
     handleWrite_con map_ctl True 1 (Inr None) InetAddress_any (c1, k1) = Inr (NewConnection 5 InetAddress_any InetAddress_any, c2, k2)"
  using connect_attempt [OF map_ctl_ok, of Map.empty 5 InetAddress_any _ _ 1 "Inr None" InetAddress_any]
  by (fastforce simp: Connector_new_def createSocket_def)

text \<open>A connect that fails at once is reported as a success. If \<open>connect\<close> returns an error other than
  EINPROGRESS, \<open>start\<close> calls \<open>handleWrite\<close>, which replaces \<open>errno\<close> by SO_ERROR; the error was
  already returned, so SO_ERROR is clear, and the new-connection callback gets the descriptor of a
  socket that is not connected.\<close>

theorem failed_connect_succeeds:
  assumes "epoll_ctl_ok ctl interest" and "agrees interest p (con_channel c, k)"
    and "\<not> con_started c" and "con_hasNew c" and "e \<noteq> EINPROGRESS"
  shows "\<exists>c' k'. start_con ctl True p (Some e) (Inr None) lo (c, k) = Inr (NewConnection (con_fd c) lo (con_peer c), c', k') \<and>
     con_connected c'"
  using handleWrite_con_ok [OF assms(1), of p "c\<lparr>con_started := True\<rparr>" k "Inr None" lo] assms(2-5)
  by (auto simp: start_con_def)

theorem failed_connect_succeeds_witness:
  "\<exists>c' k'. start_con map_ctl True 1 (Some ECONNREFUSED) (Inr None) InetAddress_any
       (\<lparr>con_peer = InetAddress_any, con_fd = 5, con_connected = False, con_started = False,
          con_channel = setWriteCallback True (Channel_new 5), con_hasNew = True, con_hasError = False\<rparr>, Map.empty)
     = Inr (NewConnection 5 InetAddress_any InetAddress_any, c', k') \<and> con_connected c'"
  using failed_connect_succeeds [OF map_ctl_ok, of 1
      "\<lparr>con_peer = InetAddress_any, con_fd = 5, con_connected = False, con_started = False,
          con_channel = setWriteCallback True (Channel_new 5), con_hasNew = True, con_hasError = False\<rparr>"
      Map.empty ECONNREFUSED InetAddress_any]
  by (simp add: new_channel_agrees)

text \<open>What the acceptor does with each answer of \<open>accept4\<close>. Listening registers the descriptor for reading;
  an accepted descriptor goes to the callback with the local and the peer address, or is closed if
  there is none; an aborted connection and a full descriptor table are skipped, and every other
  error ends the program, EAGAIN and EINTR among them.\<close>

theorem acceptor_correct:
  assumes "epoll_ctl_ok ctl interest" and "interest k f = None" and "f \<noteq> - 1"
    and "Acceptor_new f False False lo = Inr a0" and "a = setNewConnectionCallback cb a0"
  shows "\<exists>a' k'. listen ctl True p False (a, k) = Inr (a', k') \<and> listening a' \<and>
     interest k' f = Some \<lparr>ev_events = EPOLLIN OR EPOLLPRI, ev_ptr = p\<rparr> \<and>
     handleRead_acceptor True r a' =
       (case r of
          Inr (g, addr) \<Rightarrow> Inr (if cb then NewConnection g lo addr else CloseFd g)
        | Inl e \<Rightarrow> if e \<in> {ECONNABORTED, EMFILE} then Inr NoNotice else Inl Fatal_abort)"
proof -
  have a: "acceptChannel a = Channel_new f" "acc_local a = lo" "hasNewConn a = cb"
    using assms(3-5) by (auto simp: Acceptor_new_def createSocket_def setNewConnectionCallback_def)
  let ?ch = "setReadCallback True (Channel_new f)"
  have ch: "events ?ch = 0" "pooling ?ch = False" "chanfd ?ch = f"
    by (simp_all add: setReadCallback_def Channel_new_def)
  have ag: "agrees interest p (?ch, k)" using assms(2) ch by (simp add: agrees_def)
  have ne: "EPOLLIN OR EPOLLPRI \<noteq> 0" by (simp add: epoll_consts)
  obtain k1 where k1: "enableRead ctl True p (?ch, k) = Inr (?ch\<lparr>events := EPOLLIN OR EPOLLPRI, pooling := True\<rparr>, k1)"
      "agrees interest p (?ch\<lparr>events := EPOLLIN OR EPOLLPRI, pooling := True\<rparr>, k1)"
    using update_agrees [OF assms(1) ag, of "EPOLLIN OR EPOLLPRI"] ch ne by (auto simp: enableRead_def)
  then show ?thesis
    using a ch by (auto simp: listen_def handleRead_acceptor_def agrees_def setAddress_def split: sum.splits)
qed

theorem acceptor_correct_witness:
  "\<exists>a' k'. listen map_ctl True 1 False (setNewConnectionCallback True
       \<lparr>listening = False, acceptfd = 5, acceptChannel = Channel_new 5, acc_local = InetAddress_any, hasNewConn = False\<rparr>, Map.empty)
     = Inr (a', k') \<and> handleRead_acceptor True (Inl EAGAIN) a' = Inl Fatal_abort"
  using acceptor_correct [OF map_ctl_ok, of Map.empty 5 InetAddress_any _ _ True 1 "Inl EAGAIN"]
  by (fastforce simp: Acceptor_new_def createSocket_def)

end
