(* ===== verification/Tcp_Servers.thy ===== *)
theory Tcp_Servers
  imports Sockets Thread_Pools Tcp_Connection
begin

text \<open>
  The servers: \<open>TcpServerSingle\<close> (src/TcpServerSingle.cpp) and \<open>TcpServer\<close> (src/TcpServer.cpp).
  What matters here is who owns a connection. A connection object is a shared object with its
  descriptor, its state and the number of \<open>shared_ptr\<close>s to it; when the last one goes, the
  destructor of \<open>TcpConnection\<close> closes the descriptor. The set \<open>connections_\<close> is the list of its
  elements in iteration order. The user's connection callback may keep a copy of the pointer;
  \<open>keeps\<close> says for which connections it does.
\<close>

section \<open>Shared connections\<close>

record sconn =
  sc_fd :: int
  sc_state :: conn_state
  sc_refs :: nat

text \<open>\<open>closedFds\<close> are the descriptors closed so far, \<open>calls\<close> the calls of the connection callback.\<close>

record srv =
  sobjs :: "nat \<rightharpoonup> sconn"
  connections :: "nat list"
  closedFds :: "int list"
  calls :: "(nat \<times> conn_state) list"

definition make_shared :: "nat \<Rightarrow> int \<Rightarrow> srv \<Rightarrow> srv" where
  "make_shared i f s = s\<lparr>sobjs := (sobjs s)(i \<mapsto> \<lparr>sc_fd = f, sc_state = kConnecting, sc_refs = 1\<rparr>)\<rparr>"

definition copy_ptr :: "nat \<Rightarrow> srv \<Rightarrow> srv result" where
  "copy_ptr i s =
     (case sobjs s i of
        None \<Rightarrow> Inl Use_after_free
      | Some c \<Rightarrow> Inr (s\<lparr>sobjs := (sobjs s)(i \<mapsto> c\<lparr>sc_refs := Suc (sc_refs c)\<rparr>)\<rparr>))"

definition drop_ptr :: "nat \<Rightarrow> srv \<Rightarrow> srv result" where
  "drop_ptr i s =
     (case sobjs s i of
        None \<Rightarrow> Inl Use_after_free
      | Some c \<Rightarrow>
          Inr (if sc_refs c \<le> 1
               then s\<lparr>sobjs := (sobjs s)(i := None), closedFds := closedFds s @ (if sc_fd c \<noteq> - 1 then [sc_fd c] else [])\<rparr>
               else s\<lparr>sobjs := (sobjs s)(i \<mapsto> c\<lparr>sc_refs := sc_refs c - 1\<rparr>)\<rparr>))"

definition set_sstate :: "nat \<Rightarrow> conn_state \<Rightarrow> srv \<Rightarrow> srv result" where
  "set_sstate i st s =
     (case sobjs s i of
        None \<Rightarrow> Inl Use_after_free
      | Some c \<Rightarrow> Inr (s\<lparr>sobjs := (sobjs s)(i \<mapsto> c\<lparr>sc_state := st\<rparr>)\<rparr>))"

text \<open>The connection callback is given the pointer and may look at the state of the connection.\<close>

definition connection_callback :: "(nat \<Rightarrow> bool) \<Rightarrow> nat \<Rightarrow> srv \<Rightarrow> srv result" where
  "connection_callback keeps i s =
     (case sobjs s i of
        None \<Rightarrow> Inl Use_after_free
      | Some c \<Rightarrow>
          let s1 = s\<lparr>calls := calls s @ [(i, sc_state c)]\<rparr> in
          if keeps i \<and> sc_state c = kConnected then copy_ptr i s1 else Inr s1)"

section \<open>TcpServerSingle\<close>

definition newConnection_single :: "bool \<Rightarrow> (nat \<Rightarrow> bool) \<Rightarrow> nat \<Rightarrow> int \<Rightarrow> srv \<Rightarrow> srv result" where
  "newConnection_single inl keeps i f s =
     bindE (assertE inl) (\<lambda>_.
     bindE (copy_ptr i ((make_shared i f s)\<lparr>connections := connections s @ [i]\<rparr>)) (\<lambda>s.
     bindE (set_sstate i kConnected s) (\<lambda>s.
     bindE (connection_callback keeps i s) (\<lambda>s.
     drop_ptr i s))))"

definition closeConnection_single :: "bool \<Rightarrow> (nat \<Rightarrow> bool) \<Rightarrow> nat \<Rightarrow> srv \<Rightarrow> srv result" where
  "closeConnection_single inl keeps i s =
     bindE (assertE inl) (\<lambda>_.
     bindE (connection_callback keeps i s) (\<lambda>s.
     if i \<notin> set (connections s) then Inl Fatal_abort
     else drop_ptr i (s\<lparr>connections := remove1 i (connections s)\<rparr>)))"

text \<open>
  \<open>TcpConnection::handleClose\<close> seen from here; the caller holds a pointer of its own (the guard of
  the channel, or \<open>shared_from_this()\<close>).
\<close>

definition handleClose_shared :: "(nat \<Rightarrow> srv \<Rightarrow> srv result) \<Rightarrow> nat \<Rightarrow> srv \<Rightarrow> srv result" where
  "handleClose_shared closeCb i s =
     (case sobjs s i of
        None \<Rightarrow> Inl Use_after_free
      | Some c \<Rightarrow>
          bindE (assertE (sc_state c = kConnected \<or> sc_state c = kDisconnecting)) (\<lambda>_.
          bindE (copy_ptr i s) (\<lambda>s.
          bindE (set_sstate i kDisconnected s) (\<lambda>s.
          bindE (closeCb i s) (drop_ptr i)))))"

text \<open>\<open>conn->forceClose()\<close> in the loop's thread.\<close>

definition forceClose_shared :: "(nat \<Rightarrow> srv \<Rightarrow> srv result) \<Rightarrow> nat \<Rightarrow> srv \<Rightarrow> srv result" where
  "forceClose_shared closeCb i s =
     (case sobjs s i of
        None \<Rightarrow> Inl Use_after_free
      | Some c \<Rightarrow> if sc_state c \<noteq> kDisconnected
                  then bindE (set_sstate i kDisconnecting s) (handleClose_shared closeCb i) else Inr s)"

text \<open>
  The loop over \<open>connections_\<close> in \<open>stop\<close> and in the destructor. \<open>todo\<close> is the rest of the set from
  the iterator on. Moving on from an element that has been erased is undefined.
\<close>

fun close_each :: "(nat \<Rightarrow> srv \<Rightarrow> srv result) \<Rightarrow> nat list \<Rightarrow> srv \<Rightarrow> srv result" where
  "close_each closeCb [] s = Inr s"
| "close_each closeCb (i # todo) s =
     (case sobjs s i of
        None \<Rightarrow> Inl Use_after_free
      | Some c \<Rightarrow>
          bindE (if sc_state c \<noteq> kDisconnected then forceClose_shared closeCb i s else Inr s) (\<lambda>s1.
          if i \<in> set (connections s1) then close_each closeCb todo s1 else Inl Use_after_free))"

definition stop_single :: "bool \<Rightarrow> (nat \<Rightarrow> bool) \<Rightarrow> srv \<Rightarrow> srv result" where
  "stop_single inl keeps s =
     bindE (assertE inl) (\<lambda>_. close_each (closeConnection_single inl keeps) (connections s) s)"

text \<open>Construction, with the acceptor's, and \<open>start\<close>, which listens.\<close>

definition TcpServerSingle_new :: "int \<Rightarrow> bool \<Rightarrow> bool \<Rightarrow> sockaddr_in \<Rightarrow> acceptor result" where
  "TcpServerSingle_new f setsockoptFailed bindFailed lo =
     bindE (Acceptor_new f setsockoptFailed bindFailed lo) (\<lambda>a. Inr (setNewConnectionCallback True a))"

definition start_single :: "'k epoll_ctl \<Rightarrow> bool \<Rightarrow> nat \<Rightarrow> bool \<Rightarrow> acceptor \<times> 'k \<Rightarrow> (acceptor \<times> 'k) result" where
  "start_single ctl inl p listenFailed s = listen ctl inl p listenFailed s"

text \<open>
  \<open>forceClose\<close> from another thread: the state changes at once, and the closure that will close the
  connection holds a pointer of its own.
\<close>

definition forceClose_queued :: "nat \<Rightarrow> srv \<Rightarrow> srv result" where
  "forceClose_queued i s =
     (case sobjs s i of
        None \<Rightarrow> Inl Use_after_free
      | Some c \<Rightarrow> if sc_state c \<noteq> kDisconnected then bindE (set_sstate i kDisconnecting s) (copy_ptr i) else Inr s)"

text \<open>The destructor: all connections are closed, then the set releases its pointers.\<close>

definition TcpServerSingle_delete :: "bool \<Rightarrow> (nat \<Rightarrow> bool) \<Rightarrow> srv \<Rightarrow> srv result" where
  "TcpServerSingle_delete inl keeps s =
     bindE (if inl then close_each (closeConnection_single inl keeps) (connections s) s
            else foldE forceClose_queued (connections s) s) (\<lambda>s1.
     bindE (foldE drop_ptr (connections s1) s1) (\<lambda>s2. Inr (s2\<lparr>connections := []\<rparr>)))"

section \<open>TcpServer\<close>

text \<open>The closure that \<open>newConnection\<close> runs in the chosen loop: only its local variable owns the connection.\<close>

definition newConnection_task :: "(nat \<Rightarrow> bool) \<Rightarrow> nat \<Rightarrow> int \<Rightarrow> srv \<Rightarrow> srv result" where
  "newConnection_task keeps i f s =
     bindE (set_sstate i kConnected (make_shared i f s)) (\<lambda>s.
     bindE (connection_callback keeps i s) (\<lambda>s.
     drop_ptr i s))"

definition closeConnection_server :: "(nat \<Rightarrow> bool) \<Rightarrow> nat \<Rightarrow> srv \<Rightarrow> srv result" where
  "closeConnection_server keeps i s = connection_callback keeps i s"

text \<open>\<open>newConnection\<close> itself picks the loop.\<close>

definition newConnection_server :: "bool \<Rightarrow> 'l lpool \<Rightarrow> ('l option \<times> 'l lpool) result" where
  "newConnection_server inl p = bindE (assertE inl) (\<lambda>_. getNextLoop inl p)"

text \<open>
  \<open>srv_initCalls\<close> are the calls of the thread-init callback made at once, \<open>srv_initQueue\<close> those
  queued to other loops.
\<close>

record 'l tcpserver =
  srv_started :: bool
  srv_pool :: "'l lpool"
  srv_acceptor :: "acceptor option"
  srv_hasInit :: bool
  srv_initCalls :: "nat list"
  srv_initQueue :: "('l option \<times> nat) list"

definition TcpServer_new :: "'l option \<Rightarrow> 'l tcpserver result" where
  "TcpServer_new base =
     bindE (assertE (base \<noteq> None)) (\<lambda>_.
     bindE (EventLoopThreadPool_new base) (\<lambda>p.
     Inr \<lparr>srv_started = False, srv_pool = p, srv_acceptor = None, srv_hasInit = False, srv_initCalls = [], srv_initQueue = []\<rparr>))"

definition setThreadInitCallback :: "bool \<Rightarrow> 'l tcpserver \<Rightarrow> 'l tcpserver" where
  "setThreadInitCallback cb s = s\<lparr>srv_hasInit := cb\<rparr>"

text \<open>\<open>static_cast<int>(n)\<close> of a \<open>size_t\<close>.\<close>

definition setNumThread :: "64 word \<Rightarrow> 'l tcpserver \<Rightarrow> 'l tcpserver result" where
  "setNumThread n s =
     bindE (assertE (\<not> srv_started s)) (\<lambda>_.
     Inr (if 0 < n then s\<lparr>srv_pool := setThreadNum (sint (ucast n :: 32 word)) (srv_pool s)\<rparr> else s))"

text \<open>The calls of the thread-init callback: index 0 here, the others in the workers' loops.\<close>

definition run_inits :: "'l tcpserver \<Rightarrow> 'l tcpserver result" where
  "run_inits s =
     (if \<not> srv_hasInit s then Inr s
      else
        bindE (getAllLoops (srv_pool s)) (\<lambda>ls.
        Inr (s\<lparr>srv_initCalls := srv_initCalls s @ [0],
               srv_initQueue := srv_initQueue s @ map (\<lambda>i. (ls ! i, i)) [1..<length ls]\<rparr>)))"

text \<open>
  \<open>startInLoop\<close>: \<open>f\<close> is the answer of \<open>socket\<close>, the flags say which of the other calls fail, \<open>p\<close> is
  the address of the acceptor's channel.
\<close>

definition startInLoop ::
  "'k epoll_ctl \<Rightarrow> bool \<Rightarrow> (nat \<Rightarrow> 'l) \<Rightarrow> nat \<Rightarrow> int \<Rightarrow> bool \<Rightarrow> bool \<Rightarrow> bool \<Rightarrow> sockaddr_in \<Rightarrow>
   'l tcpserver \<times> 'k \<Rightarrow> ('l tcpserver \<times> 'k) result" where
  "startInLoop ctl inl spawn p f so bo li lo sk =
     (let (s, k) = sk in
      bindE (assertE inl) (\<lambda>_.
      bindE (assertE (srv_acceptor s = None)) (\<lambda>_.
      bindE (start_pool inl spawn (srv_pool s)) (\<lambda>pl.
      bindE (run_inits (s\<lparr>srv_pool := pl\<rparr>)) (\<lambda>s.
      bindE (TcpServerSingle_new f so bo lo) (\<lambda>a.
      bindE (start_single ctl inl p li (setNewConnectionCallback True a, k)) (\<lambda>(a, k).
      Inr (s\<lparr>srv_acceptor := Some a\<rparr>, k))))))))"

text \<open>\<open>start\<close> in the base loop's thread.\<close>

definition start_server ::
  "'k epoll_ctl \<Rightarrow> bool \<Rightarrow> (nat \<Rightarrow> 'l) \<Rightarrow> nat \<Rightarrow> int \<Rightarrow> bool \<Rightarrow> bool \<Rightarrow> bool \<Rightarrow> sockaddr_in \<Rightarrow>
   'l tcpserver \<times> 'k \<Rightarrow> ('l tcpserver \<times> 'k) result" where
  "start_server ctl inl spawn p f so bo li lo sk =
     (let (s, k) = sk in
      if srv_started s then Inr (s, k) else startInLoop ctl inl spawn p f so bo li lo (s\<lparr>srv_started := True\<rparr>, k))"

text \<open>
  The destructor stops the acceptor: at once in the base loop's thread, otherwise in a closure
  that it queues. The closure keeps only \<open>this\<close>, and the object is gone when it runs.
\<close>

datatype server_task = StopAcceptor

definition TcpServer_delete :: "bool \<Rightarrow> (nat \<Rightarrow> bool) \<Rightarrow> 'l tcpserver \<Rightarrow> srv \<Rightarrow> (server_task list \<times> srv) result" where
  "TcpServer_delete inl keeps s v =
     (if srv_acceptor s = None then Inr ([], v)
      else if inl then mapE (\<lambda>v. ([], v)) (stop_single inl keeps v)
      else Inr ([StopAcceptor], v))"

definition run_server_task :: "bool \<Rightarrow> (nat \<Rightarrow> bool) \<Rightarrow> server_task \<Rightarrow> srv \<Rightarrow> srv result" where
  "run_server_task alive keeps t v = (if alive then stop_single True keeps v else Inl Use_after_free)"

section \<open>Runs of the single server\<close>

definition srv_empty :: srv where
  "srv_empty = \<lparr>sobjs = Map.empty, connections = [], closedFds = [], calls = []\<rparr>"

inductive srv_step :: "srv \<Rightarrow> srv \<Rightarrow> bool" where
  srv_new: "sobjs s i = None \<Longrightarrow> newConnection_single True (\<lambda>_. False) i f s = Inr s' \<Longrightarrow> srv_step s s'"
| srv_close: "i \<in> set (connections s) \<Longrightarrow> handleClose_shared (closeConnection_single True (\<lambda>_. False)) i s = Inr s' \<Longrightarrow>
     srv_step s s'"

definition srv_inv :: "srv \<Rightarrow> bool" where
  "srv_inv s \<longleftrightarrow> distinct (connections s) \<and> dom (sobjs s) = set (connections s) \<and>
     (\<forall>i \<in> set (connections s). \<exists>f. sobjs s i = Some \<lparr>sc_fd = f, sc_state = kConnected, sc_refs = 1\<rparr>)"

lemma new_single_result:
  assumes "sobjs s i = None"
  shows "newConnection_single True (\<lambda>_. False) i f s =
    Inr (s\<lparr>sobjs := (sobjs s)(i \<mapsto> \<lparr>sc_fd = f, sc_state = kConnected, sc_refs = 1\<rparr>),
           connections := connections s @ [i], calls := calls s @ [(i, kConnected)]\<rparr>)"
  by (simp add: newConnection_single_def make_shared_def copy_ptr_def set_sstate_def connection_callback_def
      drop_ptr_def Let_def)

lemma close_single_result:
  assumes "i \<in> set (connections s)" and "sobjs s i = Some \<lparr>sc_fd = f, sc_state = kConnected, sc_refs = 1\<rparr>"
  shows "handleClose_shared (closeConnection_single True (\<lambda>_. False)) i s =
    Inr (s\<lparr>sobjs := (sobjs s)(i := None), connections := remove1 i (connections s),
           closedFds := closedFds s @ (if f \<noteq> - 1 then [f] else []), calls := calls s @ [(i, kDisconnected)]\<rparr>)"
  using assms by (simp add: handleClose_shared_def closeConnection_single_def copy_ptr_def set_sstate_def
      connection_callback_def drop_ptr_def Let_def)

interpretation srv_run: inductive_invariant "\<lambda>s. s = srv_empty" srv_step srv_inv
proof
  fix s t
  assume inv: "srv_inv s" and "srv_step s t"
  from this(2) show "srv_inv t"
  proof cases
    case (srv_new i f)
    then have "i \<notin> set (connections s)" using inv by (auto simp: srv_inv_def)
    moreover have "t = s\<lparr>sobjs := (sobjs s)(i \<mapsto> \<lparr>sc_fd = f, sc_state = kConnected, sc_refs = 1\<rparr>),
        connections := connections s @ [i], calls := calls s @ [(i, kConnected)]\<rparr>"
      using srv_new new_single_result [of s i f] by simp
    ultimately show ?thesis using inv unfolding srv_inv_def by simp
  next
    case (srv_close i)
    obtain f where "sobjs s i = Some \<lparr>sc_fd = f, sc_state = kConnected, sc_refs = 1\<rparr>"
      using inv srv_close(1) by (auto simp: srv_inv_def)
    then have "t = s\<lparr>sobjs := (sobjs s)(i := None), connections := remove1 i (connections s),
        closedFds := closedFds s @ (if f \<noteq> - 1 then [f] else []), calls := calls s @ [(i, kDisconnected)]\<rparr>"
      using srv_close close_single_result [of i s f] by simp
    then show ?thesis using inv unfolding srv_inv_def by simp
  qed
qed (simp add: srv_inv_def srv_empty_def)

section \<open>Properties\<close>

text \<open>The single server owns exactly its open connections. In every state reached by accepting and closing
  connections, the set holds exactly the live objects, each connected and with one owner; the next
  connection joins the set and is announced as connected, and closing any connection of the set
  announces it as closed, takes it out, destroys it and closes its descriptor; neither fails.\<close>

theorem single_server_owns:
  assumes "reach (\<lambda>s. s = srv_empty) srv_step s"
  shows "dom (sobjs s) = set (connections s) \<and> distinct (connections s) \<and>
    (sobjs s i = None \<longrightarrow> (\<exists>s'. newConnection_single True (\<lambda>_. False) i f s = Inr s' \<and>
       set (connections s') = insert i (set (connections s)) \<and> calls s' = calls s @ [(i, kConnected)])) \<and>
    (i \<in> set (connections s) \<longrightarrow> (\<exists>s' g. sc_fd (the (sobjs s i)) = g \<and>
       handleClose_shared (closeConnection_single True (\<lambda>_. False)) i s = Inr s' \<and>
       sobjs s' i = None \<and> set (connections s') = set (connections s) - {i} \<and>
       closedFds s' = closedFds s @ (if g \<noteq> - 1 then [g] else []) \<and> calls s' = calls s @ [(i, kDisconnected)]))"
proof -
  have inv: "srv_inv s" using assms by (rule srv_run.reachable_inv)
  have "\<exists>s' g. sc_fd (the (sobjs s i)) = g \<and>
       handleClose_shared (closeConnection_single True (\<lambda>_. False)) i s = Inr s' \<and>
       sobjs s' i = None \<and> set (connections s') = set (connections s) - {i} \<and>
       closedFds s' = closedFds s @ (if g \<noteq> - 1 then [g] else []) \<and> calls s' = calls s @ [(i, kDisconnected)]"
    if i: "i \<in> set (connections s)"
  proof -
    obtain g where "sobjs s i = Some \<lparr>sc_fd = g, sc_state = kConnected, sc_refs = 1\<rparr>"
      using inv i by (auto simp: srv_inv_def)
    then show ?thesis using close_single_result [OF i] inv by (simp add: srv_inv_def)
  qed
  then show ?thesis using inv new_single_result [of s i f] by (auto simp: srv_inv_def)
qed

lemma one_connection:
  "reach (\<lambda>s. s = srv_empty) srv_step (srv_empty\<lparr>sobjs := [3 \<mapsto> \<lparr>sc_fd = 5, sc_state = kConnected, sc_refs = 1\<rparr>],
     connections := [3], calls := [(3, kConnected)]\<rparr>)"
proof -
  have "srv_step srv_empty (srv_empty\<lparr>sobjs := [3 \<mapsto> \<lparr>sc_fd = 5, sc_state = kConnected, sc_refs = 1\<rparr>],
     connections := [3], calls := [(3, kConnected)]\<rparr>)"
    by (rule srv_new [of _ 3 5], simp add: srv_empty_def)
       (subst new_single_result, simp_all add: srv_empty_def)
  then show ?thesis by (rule reach_step [rotated]) (simp add: reach_init)
qed

theorem single_server_owns_witness:
  "\<exists>s'. handleClose_shared (closeConnection_single True (\<lambda>_. False)) 3
      (srv_empty\<lparr>sobjs := [3 \<mapsto> \<lparr>sc_fd = 5, sc_state = kConnected, sc_refs = 1\<rparr>], connections := [3], calls := [(3, kConnected)]\<rparr>)
      = Inr s' \<and> closedFds s' = [5]"
  using single_server_owns [OF one_connection, of 3 0] by (auto simp: srv_empty_def)

text \<open>Stopping or destroying the single server while it has a connection is undefined. The loop in \<open>stop\<close> (and the one in
  the destructor) calls \<open>forceClose\<close> on an element; closing it erases that element from the set
  the loop is iterating over, and the iterator is then advanced.\<close>

theorem stop_invalidates_iterator:
  assumes "reach (\<lambda>s. s = srv_empty) srv_step s" and "connections s \<noteq> []"
  shows "stop_single True (\<lambda>_. False) s = Inl Use_after_free \<and>
     TcpServerSingle_delete True (\<lambda>_. False) s = Inl Use_after_free"
proof -
  have inv: "srv_inv s" using assms(1) by (rule srv_run.reachable_inv)
  obtain i todo where c: "connections s = i # todo" using assms(2) by (cases "connections s") auto
  obtain f where f: "sobjs s i = Some \<lparr>sc_fd = f, sc_state = kConnected, sc_refs = 1\<rparr>"
    using inv c by (auto simp: srv_inv_def)
  have "i \<notin> set todo" using inv c by (simp add: srv_inv_def)
  then have "close_each (closeConnection_single True (\<lambda>_. False)) (connections s) s = Inl Use_after_free"
    using c f by (simp add: forceClose_shared_def handleClose_shared_def closeConnection_single_def
        copy_ptr_def set_sstate_def connection_callback_def drop_ptr_def Let_def)
  then show ?thesis by (simp add: stop_single_def TcpServerSingle_delete_def)
qed

theorem stop_invalidates_iterator_witness:
  "stop_single True (\<lambda>_. False) (srv_empty\<lparr>sobjs := [3 \<mapsto> \<lparr>sc_fd = 5, sc_state = kConnected, sc_refs = 1\<rparr>],
     connections := [3], calls := [(3, kConnected)]\<rparr>) = Inl Use_after_free"
  using stop_invalidates_iterator [OF one_connection] by simp

text \<open>The calls of \<open>newConnection\<close> for \<open>k\<close> connections in a row: the loops they are given to.\<close>

fun deal :: "nat \<Rightarrow> 'l lpool \<Rightarrow> ('l option list \<times> 'l lpool) result" where
  "deal 0 pl = Inr ([], pl)"
| "deal (Suc k) pl = bindE (newConnection_server True pl) (\<lambda>(l, p1). mapE (\<lambda>(ls, p2). (l # ls, p2)) (deal k p1))"

lemma deal_next_loops: "deal k pl = next_loops k pl"
  by (induction k arbitrary: pl) (simp_all add: newConnection_server_def)

text \<open>The acceptor starts to listen.\<close>

lemma start_single_ok:
  assumes "epoll_ctl_ok ctl interest" and "interest k f = None" and "f \<noteq> - 1" and "TcpServerSingle_new f False False lo = Inr a"
  shows "\<exists>a' k'. start_single ctl True p False (setNewConnectionCallback True a, k) = Inr (a', k') \<and>
     hasNewConn a' \<and> listening a' \<and> interest k' = (interest k)(f \<mapsto> \<lparr>ev_events = EPOLLIN OR EPOLLPRI, ev_ptr = p\<rparr>)"
proof -
  have a: "acceptChannel a = Channel_new f"
    using assms(3,4) by (auto simp: TcpServerSingle_new_def Acceptor_new_def createSocket_def setNewConnectionCallback_def)
  let ?ch = "setReadCallback True (Channel_new f)"
  have "agrees interest p (?ch, k)" using assms(2) by (simp add: agrees_def setReadCallback_def Channel_new_def)
  moreover have "EPOLLIN OR EPOLLPRI \<noteq> 0" by (simp add: epoll_consts)
  ultimately show ?thesis
    using update_interest [OF assms(1), of p ?ch k "EPOLLIN OR EPOLLPRI"] a
    by (auto simp: start_single_def listen_def enableRead_def setNewConnectionCallback_def setReadCallback_def Channel_new_def)
qed

text \<open>C15: Starting the server. With \<open>n\<close> worker threads asked for, \<open>start\<close> makes as many worker loops as the
  conversion of \<open>n\<close> to \<open>int\<close> says (none if that is negative), calls the thread-init callback
  exactly once for every loop with the loop's own index, registers the listening socket with the
  base loop, and a second \<open>start\<close> does nothing. From then on the i-th connection goes to worker i
  modulo the number of workers, or to the base loop if there are none.\<close>

theorem server_start:
  assumes "epoll_ctl_ok ctl interest" and "interest k f = None" and "f \<noteq> - 1" and "0 < n"
    and "TcpServer_new (Some base) = Inr s0" and "setNumThread n (setThreadInitCallback True s0) = Inr s1"
    and "w = sint (ucast n :: 32 word)"
  shows "\<exists>s2 k2. start_server ctl True spawn p f False False False lo (s1, k) = Inr (s2, k2) \<and>
     srv_initCalls s2 = [0] \<and> srv_initQueue s2 = map (\<lambda>i. (Some (spawn i), Suc i)) [0..<nat w] \<and>
     interest k2 f = Some \<lparr>ev_events = EPOLLIN OR EPOLLPRI, ev_ptr = p\<rparr> \<and>
     start_server ctl True spawn p f False False False lo (s2, k2) = Inr (s2, k2) \<and>
     (\<exists>pl. deal m (srv_pool s2) = Inr (map (\<lambda>i. Some (if w \<le> 0 then base else spawn (i mod nat w))) [0..<m], pl))"
proof -
  obtain p0 where p0: "EventLoopThreadPool_new (Some base) = Inr p0" "srv_pool s0 = p0" "\<not> srv_started s0" "srv_acceptor s0 = None"
      "srv_initCalls s0 = []" "srv_initQueue s0 = []"
    using assms(5) by (auto simp: TcpServer_new_def result_iffs)
  have s1: "s1 = (setThreadInitCallback True s0)\<lparr>srv_pool := setThreadNum w p0\<rparr>"
    using assms(4,6,7) p0 by (simp add: setNumThread_def setThreadInitCallback_def)
  obtain pl where pl: "start_pool True spawn (setThreadNum w p0) = Inr pl" "baseLoop pl = Some base" "pool_started pl"
      "loops pl = map spawn [0..<nat w]"
    using p0(1) by (auto simp: EventLoopThreadPool_new_def start_pool_def setThreadNum_def result_iffs)
  obtain a where a: "TcpServerSingle_new f False False lo = Inr a"
    using assms(3) by (simp add: TcpServerSingle_new_def Acceptor_new_def createSocket_def)
  obtain a' k' where a': "start_single ctl True p False (setNewConnectionCallback True a, k) = Inr (a', k')"
     "interest k' = (interest k)(f \<mapsto> \<lparr>ev_events = EPOLLIN OR EPOLLPRI, ev_ptr = p\<rparr>)"
    using start_single_ok [of ctl interest k f lo a p] assms(1-3) a by blast
  have q: "map (\<lambda>i. ((Some base # map Some (map spawn [0..<nat w])) ! i, i)) [1..<Suc (nat w)] =
      map (\<lambda>i. (Some (spawn i), Suc i)) [0..<nat w]"
    by (simp add: map_Suc_upt [symmetric] del: upt_Suc)
  let ?s2 = "(setThreadInitCallback True s0)\<lparr>srv_started := True, srv_pool := pl, srv_initCalls := [0],
      srv_initQueue := map (\<lambda>i. (Some (spawn i), Suc i)) [0..<nat w], srv_acceptor := Some a'\<rparr>"
  have start: "start_server ctl True spawn p f False False False lo (s1, k) = Inr (?s2, k')"
    using p0 pl a a'(1) q
    by (simp add: start_server_def startInLoop_def s1 run_inits_def setThreadInitCallback_def getAllLoops_def del: upt_Suc)
  moreover have "\<exists>pl'. deal m pl = Inr (map (\<lambda>i. Some (if w \<le> 0 then base else spawn (i mod nat w))) [0..<m], pl')"
    unfolding deal_next_loops using next_loops_round_robin [OF p0(1) pl(1)] .
  ultimately show ?thesis using a'(2) by (simp add: start_server_def)
qed

theorem server_start_witness:
  "\<exists>s0 s1 s2 k2 pl. TcpServer_new (Some 100) = Inr s0 \<and> setNumThread 2 (setThreadInitCallback True s0) = Inr s1 \<and>
     start_server map_ctl True (\<lambda>i. i) 1 5 False False False InetAddress_any (s1, Map.empty) = Inr (s2, k2) \<and>
     srv_initQueue s2 = [(Some 0, 1), (Some 1, 2)] \<and> deal 3 (srv_pool s2) = Inr ([Some 0, Some 1, Some (0 :: nat)], pl)"
proof -
  obtain s0 where s0: "TcpServer_new (Some (100 :: nat)) = Inr s0" "\<not> srv_started s0"
    by (simp add: TcpServer_new_def EventLoopThreadPool_new_def)
  then obtain s1 where s1: "setNumThread 2 (setThreadInitCallback True s0) = Inr s1"
    by (simp add: setNumThread_def setThreadInitCallback_def)
  have w: "sint (ucast (2 :: 64 word) :: 32 word) = 2" by simp
  show ?thesis
    using server_start [OF map_ctl_ok _ _ _ s0(1) s1 w [symmetric], of Map.empty 5 "\<lambda>i. i" 1 InetAddress_any 3] s0 s1
    by (auto simp: upt_rec)
qed

text \<open>The multi-threaded server does not keep its connections. Nothing but the local variable of the closure
  owns the new connection; unless the user's connection callback stores the pointer, the connection
  is destroyed and its descriptor closed as soon as the closure returns.\<close>

theorem server_drops_connection:
  assumes "sobjs s i = None" and "f \<noteq> - 1"
  shows "\<exists>s'. newConnection_task keeps i f s = Inr s' \<and> calls s' = calls s @ [(i, kConnected)] \<and>
     (if keeps i then sobjs s' i = Some \<lparr>sc_fd = f, sc_state = kConnected, sc_refs = 1\<rparr> \<and> closedFds s' = closedFds s
      else sobjs s' i = None \<and> closedFds s' = closedFds s @ [f])"
  using assms by (simp add: newConnection_task_def make_shared_def set_sstate_def connection_callback_def copy_ptr_def
      drop_ptr_def Let_def)

theorem server_drops_connection_witness:
  "\<exists>s'. newConnection_task (\<lambda>_. False) 3 5 srv_empty = Inr s' \<and> sobjs s' 3 = None \<and> closedFds s' = [5]"
  using server_drops_connection [of srv_empty 3 5 "\<lambda>_. False"] by (auto simp: srv_empty_def)

end
