(* ===== verification/Tcp_Client.thy ===== *)
theory Tcp_Client
  imports Timer_Queue Tcp_Servers
begin

text \<open>
  \<open>class TcpClient\<close> (src/TcpClient.cpp): a connector, a repeating timer that tries again every three
  seconds, and at most one connection. The client is the user state of a timer queue, so that the
  retry callback runs where the code runs it, inside \<open>TimerQueue::handleRead\<close>. The connection is a
  shared object as in \<open>Tcp_Servers\<close>, named by the number of the attempt that made it. What the
  system calls answer to each attempt is an argument.
\<close>

section \<open>State\<close>

text \<open>
  One attempt to connect: the descriptor that \<open>socket\<close> returns, the address of the new connector's
  channel, the answer of \<open>connect\<close>, and the answers of \<open>getsockopt\<close> and \<open>getsockname\<close> if they are
  called at once.
\<close>

record attempt =
  at_fd :: int
  at_chan :: nat
  at_connect :: "errno option"
  at_soerr :: "errno + errno option"
  at_local :: sockaddr_in

text \<open>
  The address 0 is the null pointer. \<open>cl_attempts\<close> counts the connectors made, \<open>cl_errors\<close> the calls
  of the error callback.
\<close>

record 'k client =
  cl_connected :: bool
  cl_peer :: sockaddr_in
  cl_retryTimer :: nat
  cl_connector :: connector
  cl_chan :: nat
  cl_connection :: "nat option"
  cl_hasError :: bool
  cl_attempts :: nat
  cl_errors :: nat
  cl_objs :: srv
  cl_kernel :: 'k

datatype client_cb = RetryCb

type_synonym ('e, 'k) clientsys = "(client_cb, 'e, 'k client) tq"

definition TcpClient_new :: "(nat \<Rightarrow> attempt) \<Rightarrow> sockaddr_in \<Rightarrow> 'k \<Rightarrow> 'k client result" where
  "TcpClient_new net peer k =
     bindE (Connector_new (at_fd (net 0)) peer) (\<lambda>ct.
     Inr \<lparr>cl_connected = False, cl_peer = peer, cl_retryTimer = 0,
          cl_connector = setNewConnectionCallback_con True ct, cl_chan = at_chan (net 0),
          cl_connection = None, cl_hasError = False, cl_attempts = 1, cl_errors = 0,
          cl_objs = \<lparr>sobjs = Map.empty, connections = [], closedFds = [], calls = []\<rparr>, cl_kernel = k\<rparr>)"

definition setErrorCallback_client :: "bool \<Rightarrow> 'k client \<Rightarrow> 'k client" where
  "setErrorCallback_client cb c =
     c\<lparr>cl_hasError := cb, cl_connector := setErrorCallback_con cb (cl_connector c)\<rparr>"

section \<open>Operations\<close>

definition on_objs :: "(srv \<Rightarrow> srv result) \<Rightarrow> 'k client \<Rightarrow> 'k client result" where
  "on_objs f c = bindE (f (cl_objs c)) (\<lambda>objs. Inr (c\<lparr>cl_objs := objs\<rparr>))"

text \<open>Giving \<open>connection_\<close> a new value releases the object it pointed to.\<close>

definition assign_connection :: "nat option \<Rightarrow> 'k client \<Rightarrow> 'k client result" where
  "assign_connection i c =
     bindE (case cl_connection c of None \<Rightarrow> Inr c | Some j \<Rightarrow> on_objs (drop_ptr j) c) (\<lambda>c.
     Inr (c\<lparr>cl_connection := i\<rparr>))"

definition newConnection_client ::
  "'e eventfd \<Rightarrow> int \<Rightarrow> int \<Rightarrow> (nat \<Rightarrow> bool) \<Rightarrow> int \<Rightarrow> ('e, 'k) clientsys \<Rightarrow> ('e, 'k) clientsys result" where
  "newConnection_client e cur now keeps f s =
     bindE (assertInLoopThread cur (tloop s)) (\<lambda>_.
     bindE (cancelTimer_loop e cur now (cl_retryTimer (usr s)) s) (\<lambda>s.
     let i = cl_attempts (usr s) in
     bindE (on_objs (copy_ptr i) ((usr s)\<lparr>cl_retryTimer := 0, cl_connected := True,
              cl_objs := make_shared i f (cl_objs (usr s))\<rparr>)) (\<lambda>c.
     bindE (assign_connection (Some i) c) (\<lambda>c.
     bindE (on_objs (set_sstate i kConnected) c) (\<lambda>c.
     bindE (on_objs (connection_callback keeps i) c) (\<lambda>c.
     bindE (on_objs (drop_ptr i) c) (\<lambda>c.
     Inr (s\<lparr>usr := c\<rparr>))))))))"

text \<open>What the connector's callbacks do: the first is \<open>newConnection\<close>, the second the user's.\<close>

fun on_notice ::
  "'e eventfd \<Rightarrow> int \<Rightarrow> int \<Rightarrow> (nat \<Rightarrow> bool) \<Rightarrow> notice \<Rightarrow> ('e, 'k) clientsys \<Rightarrow> ('e, 'k) clientsys result" where
  "on_notice e cur now keeps (NewConnection f lo pe) s = newConnection_client e cur now keeps f s"
| "on_notice e cur now keeps ConnectError s = Inr (s\<lparr>usr := (usr s)\<lparr>cl_errors := Suc (cl_errors (usr s))\<rparr>\<rparr>)"
| "on_notice e cur now keeps NoNotice s = Inr s"
| "on_notice e cur now keeps (CloseFd f) s = Inr s"

text \<open>\<open>connector_->start()\<close> with the callback it may run.\<close>

definition start_connector ::
  "(nat \<Rightarrow> attempt) \<Rightarrow> 'k epoll_ctl \<Rightarrow> 'e eventfd \<Rightarrow> int \<Rightarrow> int \<Rightarrow> (nat \<Rightarrow> bool) \<Rightarrow> ('e, 'k) clientsys \<Rightarrow>
   ('e, 'k) clientsys result" where
  "start_connector net ctl e cur now keeps s =
     (let c = usr s; a = net (cl_attempts c - 1) in
      bindE (start_con ctl (isInLoopThread cur (tloop s)) (cl_chan c) (at_connect a) (at_soerr a) (at_local a)
               (cl_connector c, cl_kernel c)) (\<lambda>(n, ct, k).
      on_notice e cur now keeps n (s\<lparr>usr := c\<lparr>cl_connector := ct, cl_kernel := k\<rparr>\<rparr>)))"

text \<open>\<open>p\<close> is the address of the new timer.\<close>

definition start_client ::
  "(nat \<Rightarrow> attempt) \<Rightarrow> 'k epoll_ctl \<Rightarrow> 'e eventfd \<Rightarrow> int \<Rightarrow> int \<Rightarrow> nat \<Rightarrow> (nat \<Rightarrow> bool) \<Rightarrow> ('e, 'k) clientsys \<Rightarrow>
   ('e, 'k) clientsys result" where
  "start_client net ctl e cur now p keeps s =
     bindE (assertInLoopThread cur (tloop s)) (\<lambda>_.
     bindE (start_connector net ctl e cur now keeps s) (\<lambda>s.
     bindE (runEvery e cur now p 3000000000 (Some RetryCb) s) (\<lambda>s.
     Inr (s\<lparr>usr := (usr s)\<lparr>cl_retryTimer := p\<rparr>\<rparr>))))"

definition retry ::
  "(nat \<Rightarrow> attempt) \<Rightarrow> 'k epoll_ctl \<Rightarrow> 'e eventfd \<Rightarrow> int \<Rightarrow> int \<Rightarrow> (nat \<Rightarrow> bool) \<Rightarrow> ('e, 'k) clientsys \<Rightarrow>
   ('e, 'k) clientsys result" where
  "retry net ctl e cur now keeps s =
     bindE (assertInLoopThread cur (tloop s)) (\<lambda>_.
     let c = usr s; a = net (cl_attempts c) in
     if cl_connected c then Inr s
     else
       bindE (Connector_delete ctl (isInLoopThread cur (tloop s)) (cl_chan c) (cl_connector c, cl_kernel c)) (\<lambda>(fds, k).
       bindE (Connector_new (at_fd a) (cl_peer c)) (\<lambda>ct.
       let ct1 = setNewConnectionCallback_con True ct;
           ct2 = (if cl_hasError c then setErrorCallback_con True ct1 else ct1) in
       start_connector net ctl e cur now keeps
         (s\<lparr>usr := c\<lparr>cl_connector := ct2, cl_chan := at_chan a, cl_attempts := Suc (cl_attempts c), cl_kernel := k,
              cl_objs := (cl_objs c)\<lparr>closedFds := closedFds (cl_objs c) @ fds\<rparr>\<rparr>\<rparr>))))"

text \<open>
  The event loop calls \<open>handleEvents\<close> on the channel at address \<open>q\<close>, and the channel calls
  \<open>Connector::handleWrite\<close>. Only the current connector has a channel.
\<close>

definition connector_ready ::
  "'k epoll_ctl \<Rightarrow> 'e eventfd \<Rightarrow> int \<Rightarrow> int \<Rightarrow> (nat \<Rightarrow> bool) \<Rightarrow> errno + errno option \<Rightarrow> sockaddr_in \<Rightarrow> nat \<Rightarrow>
   ('e, 'k) clientsys \<Rightarrow> ('e, 'k) clientsys result" where
  "connector_ready ctl e cur now keeps soerr lo q s =
     (let c = usr s in
      if q \<noteq> cl_chan c then Inl Use_after_free
      else
        bindE (handleWrite_con ctl (isInLoopThread cur (tloop s)) q soerr lo (cl_connector c, cl_kernel c)) (\<lambda>(n, ct, k).
        on_notice e cur now keeps n (s\<lparr>usr := c\<lparr>cl_connector := ct, cl_kernel := k\<rparr>\<rparr>)))"

text \<open>The timer channel: the only callback of the queue is \<open>retry\<close>.\<close>

definition timers_ready ::
  "(nat \<Rightarrow> attempt) \<Rightarrow> 'k epoll_ctl \<Rightarrow> 'e eventfd \<Rightarrow> int \<Rightarrow> int \<Rightarrow> int \<Rightarrow> (nat \<Rightarrow> bool) \<Rightarrow> ('e, 'k) clientsys \<Rightarrow>
   ('e, 'k) clientsys result" where
  "timers_ready net ctl e cur now now2 keeps s =
     handleRead_timers (\<lambda>_. retry net ctl e cur now keeps) cur now now2 s"

section \<open>Closing\<close>

definition closeConnection_client :: "bool \<Rightarrow> (nat \<Rightarrow> bool) \<Rightarrow> nat \<Rightarrow> 'k client \<Rightarrow> 'k client result" where
  "closeConnection_client inl keeps i c =
     bindE (assertE inl) (\<lambda>_.
     bindE (assign_connection None (c\<lparr>cl_connected := False\<rparr>)) (\<lambda>c.
     on_objs (connection_callback keeps i) c))"

text \<open>\<open>TcpConnection::handleClose\<close> and \<open>forceClose\<close> in the loop's thread, with the client's close callback.\<close>

definition handleClose_client :: "bool \<Rightarrow> (nat \<Rightarrow> bool) \<Rightarrow> nat \<Rightarrow> 'k client \<Rightarrow> 'k client result" where
  "handleClose_client inl keeps i c =
     (case sobjs (cl_objs c) i of
        None \<Rightarrow> Inl Use_after_free
      | Some o1 \<Rightarrow>
          bindE (assertE inl) (\<lambda>_.
          bindE (assertE (sc_state o1 = kConnected \<or> sc_state o1 = kDisconnecting)) (\<lambda>_.
          bindE (on_objs (copy_ptr i) c) (\<lambda>c.
          bindE (on_objs (set_sstate i kDisconnected) c) (\<lambda>c.
          bindE (closeConnection_client inl keeps i c) (\<lambda>c.
          on_objs (drop_ptr i) c))))))"

definition forceClose_client :: "(nat \<Rightarrow> bool) \<Rightarrow> nat \<Rightarrow> 'k client \<Rightarrow> 'k client result" where
  "forceClose_client keeps i c =
     (case sobjs (cl_objs c) i of
        None \<Rightarrow> Inl Use_after_free
      | Some o1 \<Rightarrow>
          if sc_state o1 \<noteq> kDisconnected
          then bindE (on_objs (set_sstate i kDisconnecting) c) (handleClose_client True keeps i) else Inr c)"

text \<open>
  \<open>disconnect\<close> in the loop's thread, which is also the closure that it queues when another thread
  calls it; of \<open>shutdown\<close> only the change of the state is seen here.
\<close>

definition disconnect :: "'k client \<Rightarrow> 'k client result" where
  "disconnect c =
     (case cl_connection c of
        None \<Rightarrow> Inr c
      | Some i \<Rightarrow>
          (case sobjs (cl_objs c) i of
             None \<Rightarrow> Inl Use_after_free
           | Some o1 \<Rightarrow> if sc_state o1 \<noteq> kDisconnected then on_objs (set_sstate i kDisconnecting) c else Inr c))"

text \<open>The destructor in the loop's thread, with the members it destroys.\<close>

definition TcpClient_delete ::
  "'k epoll_ctl \<Rightarrow> 'e eventfd \<Rightarrow> int \<Rightarrow> int \<Rightarrow> (nat \<Rightarrow> bool) \<Rightarrow> ('e, 'k) clientsys \<Rightarrow> ('e, 'k) clientsys result" where
  "TcpClient_delete ctl e cur now keeps s =
     bindE (case cl_connection (usr s) of None \<Rightarrow> Inr (usr s) | Some i \<Rightarrow> forceClose_client keeps i (usr s)) (\<lambda>c.
     bindE (if cl_retryTimer c \<noteq> 0 then cancelTimer_loop e cur now (cl_retryTimer c) (s\<lparr>usr := c\<rparr>)
            else Inr (s\<lparr>usr := c\<rparr>)) (\<lambda>s.
     bindE (assign_connection None (usr s)) (\<lambda>c.
     bindE (Connector_delete ctl (isInLoopThread cur (tloop s)) (cl_chan c) (cl_connector c, cl_kernel c)) (\<lambda>(fds, k).
     Inr (s\<lparr>usr := c\<lparr>cl_kernel := k, cl_objs := (cl_objs c)\<lparr>closedFds := closedFds (cl_objs c) @ fds\<rparr>\<rparr>\<rparr>)))))"

section \<open>Runs\<close>

text \<open>
  The client's phases. \<open>retry_timer w\<close> is the timer that \<open>start\<close> makes, \<open>tried net n\<close> are the
  descriptors of the first \<open>n\<close> attempts.
\<close>

definition retry_timer :: "int \<Rightarrow> client_cb timer" where
  "retry_timer w = Timer_new (Some RetryCb) w 3000000000"

definition tried :: "(nat \<Rightarrow> attempt) \<Rightarrow> nat \<Rightarrow> int list" where
  "tried net n = map (\<lambda>j. at_fd (net j)) [0..<n]"

definition connector_ok :: "(nat \<Rightarrow> attempt) \<Rightarrow> ('k \<Rightarrow> int \<rightharpoonup> epoll_event) \<Rightarrow> 'k client \<Rightarrow> bool" where
  "connector_ok net interest c \<longleftrightarrow>
     (let ct = cl_connector c; ch = con_channel ct in
      0 < cl_attempts c \<and> con_started ct \<and> con_hasNew ct \<and> con_fd ct = at_fd (net (cl_attempts c - 1)) \<and>
      con_fd ct \<noteq> - 1 \<and> chanfd ch = con_fd ct \<and> \<not> handlingEvents ch \<and>
      agrees interest (cl_chan c) (ch, cl_kernel c))"

definition waiting :: "(nat \<Rightarrow> attempt) \<Rightarrow> ('e, 'k) clientsys \<Rightarrow> bool" where
  "waiting net s \<longleftrightarrow>
     (let c = usr s; p = cl_retryTimer c in
      \<not> cl_connected c \<and> \<not> con_connected (cl_connector c) \<and> 0 < p \<and>
      (\<exists>w. timers s = [(w, p)] \<and> theap s = [p \<mapsto> retry_timer w]) \<and>
      cl_connection c = None \<and> sobjs (cl_objs c) = Map.empty \<and>
      closedFds (cl_objs c) = tried net (cl_attempts c - 1))"

definition opened :: "(nat \<Rightarrow> attempt) \<Rightarrow> ('e, 'k) clientsys \<Rightarrow> bool" where
  "opened net s \<longleftrightarrow>
     (let c = usr s; n = cl_attempts c in
      cl_connected c \<and> con_connected (cl_connector c) \<and> \<not> pooling (con_channel (cl_connector c)) \<and>
      cl_retryTimer c = 0 \<and> timers s = [] \<and> theap s = Map.empty \<and> cl_connection c = Some n \<and>
      (\<exists>st. (st = kConnected \<or> st = kDisconnecting) \<and>
            sobjs (cl_objs c) = [n \<mapsto> \<lparr>sc_fd = at_fd (net (n - 1)), sc_state = st, sc_refs = 1\<rparr>]) \<and>
      closedFds (cl_objs c) = tried net (n - 1))"

definition closed_down :: "(nat \<Rightarrow> attempt) \<Rightarrow> ('e, 'k) clientsys \<Rightarrow> bool" where
  "closed_down net s \<longleftrightarrow>
     (let c = usr s in
      \<not> cl_connected c \<and> con_connected (cl_connector c) \<and> \<not> pooling (con_channel (cl_connector c)) \<and>
      cl_retryTimer c = 0 \<and> timers s = [] \<and> theap s = Map.empty \<and> cl_connection c = None \<and>
      sobjs (cl_objs c) = Map.empty \<and> closedFds (cl_objs c) = tried net (cl_attempts c))"

definition client_inv ::
  "(nat \<Rightarrow> attempt) \<Rightarrow> ('k \<Rightarrow> int \<rightharpoonup> epoll_event) \<Rightarrow> int \<Rightarrow> ('e, 'k) clientsys \<Rightarrow> bool" where
  "client_inv net interest cur s \<longleftrightarrow>
     tid (tloop s) = cur \<and> connector_ok net interest (usr s) \<and> (waiting net s \<or> opened net s \<or> closed_down net s)"

text \<open>
  The events of a client whose connects are in progress when they return, as they are for a
  non-blocking socket and a remote peer: the timer, the connector's channel while it is
  registered, the end of the connection, and \<open>disconnect\<close>. A new socket is not yet registered.
\<close>

definition attempt_ok :: "(nat \<Rightarrow> attempt) \<Rightarrow> ('k \<Rightarrow> int \<rightharpoonup> epoll_event) \<Rightarrow> 'k client \<Rightarrow> bool" where
  "attempt_ok net interest c \<longleftrightarrow>
     (let a = net (cl_attempts c) in
      at_connect a = Some EINPROGRESS \<and> at_fd a \<noteq> - 1 \<and>
      (interest (cl_kernel c) (at_fd a) = None \<or> at_fd a = con_fd (cl_connector c)))"

inductive client_step ::
  "(nat \<Rightarrow> attempt) \<Rightarrow> 'k epoll_ctl \<Rightarrow> ('k \<Rightarrow> int \<rightharpoonup> epoll_event) \<Rightarrow> 'e eventfd \<Rightarrow> int \<Rightarrow>
   ('e, 'k) clientsys \<Rightarrow> ('e, 'k) clientsys \<Rightarrow> bool"
  for net :: "nat \<Rightarrow> attempt" and ctl :: "'k epoll_ctl" and interest :: "'k \<Rightarrow> int \<rightharpoonup> epoll_event"
    and e :: "'e eventfd" and cur :: int where
  client_tick: "attempt_ok net interest (usr s) \<Longrightarrow> timers_ready net ctl e cur now now2 (\<lambda>_. False) s = Inr s' \<Longrightarrow>
     client_step net ctl interest e cur s s'"
| client_ready: "pooling (con_channel (cl_connector (usr s))) \<Longrightarrow>
     connector_ready ctl e cur now (\<lambda>_. False) soerr lo (cl_chan (usr s)) s = Inr s' \<Longrightarrow>
     client_step net ctl interest e cur s s'"
| client_close: "cl_connection (usr s) = Some i \<Longrightarrow> handleClose_client True (\<lambda>_. False) i (usr s) = Inr c \<Longrightarrow>
     client_step net ctl interest e cur s (s\<lparr>usr := c\<rparr>)"
| client_disconnect: "disconnect (usr s) = Inr c \<Longrightarrow> client_step net ctl interest e cur s (s\<lparr>usr := c\<rparr>)"

section \<open>Lemmas\<close>

lemma tried_Suc: "0 < n \<Longrightarrow> tried net n = tried net (n - 1) @ [at_fd (net (n - 1))]"
  by (cases n) (simp_all add: tried_def)

lemma cancel_retry:
  assumes "tid (tloop s) = cur" and "timers s = [(w, p)]" and "theap s = [p \<mapsto> retry_timer w]"
  shows "cancelTimer_loop e cur now p s = Inr (s\<lparr>theap := Map.empty, timers := []\<rparr>)"
  using assms
  by (simp add: cancelTimer_loop_def cancelTimer_def runInLoop_def isInLoopThread_def cancelInLoop_def
      cancel_def retry_timer_def Timer_new_def delete_timer_def)

text \<open>The new connection replaces the retry timer.\<close>

lemma newConnection_client_ok:
  assumes "tid (tloop s) = cur" and "timers s = [(w, p)]" and "theap s = [p \<mapsto> retry_timer w]"
    and "cl_retryTimer (usr s) = p" and "cl_connection (usr s) = None"
  shows "newConnection_client e cur now (\<lambda>_. False) f s =
     Inr (s\<lparr>theap := Map.empty, timers := [],
            usr := (usr s)\<lparr>cl_retryTimer := 0, cl_connected := True, cl_connection := Some (cl_attempts (usr s)),
              cl_objs := (cl_objs (usr s))\<lparr>calls := calls (cl_objs (usr s)) @ [(cl_attempts (usr s), kConnected)],
                sobjs := (sobjs (cl_objs (usr s)))(cl_attempts (usr s) \<mapsto>
                  \<lparr>sc_fd = f, sc_state = kConnected, sc_refs = 1\<rparr>)\<rparr>\<rparr>\<rparr>)"
  using cancel_retry [OF assms(1-3), of e now] assms
  by (simp add: newConnection_client_def assertInLoopThread_def isInLoopThread_def on_objs_def make_shared_def copy_ptr_def
      assign_connection_def set_sstate_def connection_callback_def drop_ptr_def Let_def)

lemma connector_deleted:
  assumes "epoll_ctl_ok ctl interest" and "connector_ok net interest c" and "\<not> con_connected (cl_connector c)"
  shows "\<exists>k. Connector_delete ctl True (cl_chan c) (cl_connector c, cl_kernel c) = Inr ([con_fd (cl_connector c)], k) \<and>
     interest k = (interest (cl_kernel c))(con_fd (cl_connector c) := None)"
proof -
  let ?ct = "cl_connector c"
  have c: "agrees interest (cl_chan c) (con_channel ?ct, cl_kernel c)" "con_started ?ct" "con_fd ?ct \<noteq> - 1"
      "chanfd (con_channel ?ct) = con_fd ?ct" "\<not> handlingEvents (con_channel ?ct)"
    using assms(2) by (simp_all add: connector_ok_def Let_def)
  show ?thesis
  proof (cases "pooling (con_channel ?ct)")
    case True
    obtain k where "removeChannel ctl True (cl_chan c) (con_channel ?ct, cl_kernel c) = Inr ((con_channel ?ct)\<lparr>pooling := False\<rparr>, k)"
        "interest k = (interest (cl_kernel c))(con_fd ?ct := None)"
      using removeChannel_interest [OF assms(1) c(1)] c(4) by auto
    then show ?thesis
      using True c assms(3) by (simp add: Connector_delete_def Channel_delete_def)
  next
    case False
    then have "(interest (cl_kernel c))(con_fd ?ct := None) = interest (cl_kernel c)"
      using c(1,4) by (simp add: agrees_def fun_upd_idem)
    then show ?thesis using False c assms(3) by (simp add: Connector_delete_def Channel_delete_def)
  qed
qed

text \<open>Deleting a connector that has handed over its descriptor.\<close>

lemma connected_deleted:
  assumes "connector_ok net interest c" and "con_connected (cl_connector c)" and "\<not> pooling (con_channel (cl_connector c))"
  shows "Connector_delete ctl inl q (cl_connector c, cl_kernel c) = Inr ([], cl_kernel c)"
    "interest (cl_kernel c) (at_fd (net (cl_attempts c - 1))) = None"
  using assms by (auto simp: Connector_delete_def Channel_delete_def connector_ok_def agrees_def Let_def)

text \<open>Starting a new connector whose \<open>connect\<close> is in progress.\<close>

text \<open>The connector that \<open>retry\<close> makes.\<close>

definition fresh_connector :: "sockaddr_in \<Rightarrow> int \<Rightarrow> bool \<Rightarrow> connector" where
  "fresh_connector peer f err =
     \<lparr>con_peer = peer, con_fd = f, con_connected = False, con_started = False,
      con_channel = setWriteCallback True (Channel_new f), con_hasNew = True, con_hasError = err\<rparr>"

lemma retry_unfold:
  assumes "tid (tloop s) = cur" and "\<not> cl_connected (usr s)" and "at_fd (net (cl_attempts (usr s))) \<noteq> - 1"
    and "Connector_delete ctl True (cl_chan (usr s)) (cl_connector (usr s), cl_kernel (usr s)) = Inr (fds, k)"
  shows "retry net ctl e cur now keeps s =
     start_connector net ctl e cur now keeps
       (s\<lparr>usr := (usr s)\<lparr>cl_connector := fresh_connector (cl_peer (usr s)) (at_fd (net (cl_attempts (usr s)))) (cl_hasError (usr s)),
            cl_chan := at_chan (net (cl_attempts (usr s))), cl_attempts := Suc (cl_attempts (usr s)), cl_kernel := k,
            cl_objs := (cl_objs (usr s))\<lparr>closedFds := closedFds (cl_objs (usr s)) @ fds\<rparr>\<rparr>\<rparr>)"
  using assms
  by (cases "cl_hasError (usr s)")
     (simp_all add: retry_def assertInLoopThread_def isInLoopThread_def Connector_new_def createSocket_def
        setErrorCallback_con_def setNewConnectionCallback_con_def fresh_connector_def Let_def)

lemma retry_ok:
  assumes ok: "epoll_ctl_ok ctl interest" and c: "connector_ok net interest (usr s)" "\<not> con_connected (cl_connector (usr s))"
    and thread: "tid (tloop s) = cur" and "\<not> cl_connected (usr s)" and a: "attempt_ok net interest (usr s)"
  shows "\<exists>ct k. retry net ctl e cur now keeps s =
     Inr (s\<lparr>usr := (usr s)\<lparr>cl_connector := ct, cl_chan := at_chan (net (cl_attempts (usr s))),
        cl_attempts := Suc (cl_attempts (usr s)), cl_kernel := k,
        cl_objs := (cl_objs (usr s))\<lparr>closedFds := closedFds (cl_objs (usr s)) @ [con_fd (cl_connector (usr s))]\<rparr>\<rparr>\<rparr>) \<and>
     \<not> con_connected ct \<and> con_started ct \<and> con_hasNew ct \<and> con_fd ct = at_fd (net (cl_attempts (usr s))) \<and>
     chanfd (con_channel ct) = con_fd ct \<and> \<not> handlingEvents (con_channel ct) \<and> pooling (con_channel ct) \<and>
     agrees interest (at_chan (net (cl_attempts (usr s)))) (con_channel ct, k)"
proof -
  let ?a = "net (cl_attempts (usr s))"
  obtain k where k: "Connector_delete ctl True (cl_chan (usr s)) (cl_connector (usr s), cl_kernel (usr s)) =
        Inr ([con_fd (cl_connector (usr s))], k)"
      "interest k = (interest (cl_kernel (usr s)))(con_fd (cl_connector (usr s)) := None)"
    using connector_deleted [OF ok c] by blast
  have a': "at_connect ?a = Some EINPROGRESS" "at_fd ?a \<noteq> - 1" "interest k (at_fd ?a) = None"
    using a k(2) by (auto simp: attempt_ok_def Let_def)
  let ?ct = "fresh_connector (cl_peer (usr s)) (at_fd ?a) (cl_hasError (usr s))"
  obtain ch k' where st: "start_con ctl True (at_chan ?a) (Some EINPROGRESS) (at_soerr ?a) (at_local ?a) (?ct, k) =
        Inr (NoNotice, ?ct\<lparr>con_started := True, con_channel := ch\<rparr>, k')"
      "agrees interest (at_chan ?a) (ch, k')" "chanfd ch = at_fd ?a" "pooling ch" "\<not> handlingEvents ch"
    using start_in_progress [of ctl interest k "at_fd ?a" ?ct "at_chan ?a" "at_soerr ?a" "at_local ?a"] ok a'(3)
    by (auto simp: fresh_connector_def)
  have "retry net ctl e cur now keeps s =
     Inr (s\<lparr>usr := (usr s)\<lparr>cl_connector := ?ct\<lparr>con_started := True, con_channel := ch\<rparr>, cl_chan := at_chan ?a,
        cl_attempts := Suc (cl_attempts (usr s)), cl_kernel := k',
        cl_objs := (cl_objs (usr s))\<lparr>closedFds := closedFds (cl_objs (usr s)) @ [con_fd (cl_connector (usr s))]\<rparr>\<rparr>\<rparr>)"
    using retry_unfold [of s cur net ctl "[con_fd (cl_connector (usr s))]" k e now keeps] assms(5) a'(2) k(1) thread st(1) a'(1)
    by (simp add: isInLoopThread_def start_connector_def Let_def)
  then show ?thesis
    using st by (intro exI [of _ "?ct\<lparr>con_started := True, con_channel := ch\<rparr>"] exI [of _ k']) (simp add: fresh_connector_def)
qed

text \<open>The timer queue of a client that is waiting, or that has no timer.\<close>

lemma getExpired_one:
  assumes "timers s = [(w, p)]" and "0 < p"
  shows "getExpired now s = (if w \<le> now then ([(w, p)], s\<lparr>timers := []\<rparr>) else ([], s))"
  using assms below_bound [OF assms(2), of w now]
  by (auto simp: getExpired_def lower_bound_def)

lemma no_timers:
  assumes "tid (tloop s) = cur" and "timers s = []"
  shows "timers_ready net ctl e cur now now2 keeps s = Inr (s\<lparr>armed := None\<rparr>)"
  using assms
  by (simp add: timers_ready_def handleRead_timers_def assertInLoopThread_def isInLoopThread_def timerfdRead_def
      getExpired_def lower_bound_def)

lemma waitingE:
  assumes "waiting net s"
  obtains w where "timers s = [(w, cl_retryTimer (usr s))]" "theap s = [cl_retryTimer (usr s) \<mapsto> retry_timer w]"
    "0 < cl_retryTimer (usr s)" "\<not> cl_connected (usr s)" "\<not> con_connected (cl_connector (usr s))"
    "cl_connection (usr s) = None" "sobjs (cl_objs (usr s)) = Map.empty"
    "closedFds (cl_objs (usr s)) = tried net (cl_attempts (usr s) - 1)"
  using assms by (auto simp: waiting_def Let_def)

lemma connector_okD:
  assumes "connector_ok net interest c"
  shows "0 < cl_attempts c" "con_started (cl_connector c)" "con_hasNew (cl_connector c)"
    "con_fd (cl_connector c) = at_fd (net (cl_attempts c - 1))" "con_fd (cl_connector c) \<noteq> - 1"
    "chanfd (con_channel (cl_connector c)) = con_fd (cl_connector c)" "\<not> handlingEvents (con_channel (cl_connector c))"
    "agrees interest (cl_chan c) (con_channel (cl_connector c), cl_kernel c)"
  using assms by (simp_all add: connector_ok_def Let_def)

text \<open>A tick while waiting: nothing is due, or the attempt is replaced by a new one and the timer is set again.\<close>

lemma tick_idle:
  assumes "tid (tloop s) = cur" and "timers s = [(w, p)]" and "0 < p" and "\<not> w \<le> now"
  shows "timers_ready net ctl e cur now now2 keeps s = Inr (s\<lparr>armed := Some (max w (now2 + 1000000))\<rparr>)"
  using assms getExpired_one [of "timerfdRead s" w p now]
  by (simp add: timers_ready_def handleRead_timers_def assertInLoopThread_def isInLoopThread_def timerfdSet_armed timerfdRead_def)

lemma tick_due:
  assumes ok: "epoll_ctl_ok ctl interest" and c: "connector_ok net interest (usr s)" "\<not> con_connected (cl_connector (usr s))"
    and thread: "tid (tloop s) = cur" and "\<not> cl_connected (usr s)" and a: "attempt_ok net interest (usr s)"
    and w: "timers s = [(w, p)]" "theap s = [p \<mapsto> retry_timer w]" "0 < p" "w \<le> now"
  shows "\<exists>ct k. timers_ready net ctl e cur now now2 keeps s =
     Inr (s\<lparr>armed := Some (max (w + 3000000000) (now2 + 1000000)), fired := fired s @ [p],
        theap := [p \<mapsto> retry_timer (w + 3000000000)], timers := [(w + 3000000000, p)],
        usr := (usr s)\<lparr>cl_connector := ct, cl_chan := at_chan (net (cl_attempts (usr s))), cl_attempts := Suc (cl_attempts (usr s)),
          cl_kernel := k,
          cl_objs := (cl_objs (usr s))\<lparr>closedFds := closedFds (cl_objs (usr s)) @ [con_fd (cl_connector (usr s))]\<rparr>\<rparr>\<rparr>) \<and>
     \<not> con_connected ct \<and> con_started ct \<and> con_hasNew ct \<and> con_fd ct = at_fd (net (cl_attempts (usr s))) \<and>
     chanfd (con_channel ct) = con_fd ct \<and> \<not> handlingEvents (con_channel ct) \<and>
     agrees interest (at_chan (net (cl_attempts (usr s)))) (con_channel ct, k)"
proof -
  let ?s1 = "(timerfdRead s)\<lparr>timers := [], fired := fired s @ [p]\<rparr>"
  have pre: "connector_ok net interest (usr ?s1)" "\<not> con_connected (cl_connector (usr ?s1))"
      "tid (tloop ?s1) = cur" "\<not> cl_connected (usr ?s1)" "attempt_ok net interest (usr ?s1)"
    using assms by (simp_all add: timerfdRead_def)
  obtain ct k where r: "retry net ctl e cur now keeps ?s1 =
     Inr (?s1\<lparr>usr := (usr s)\<lparr>cl_connector := ct, cl_chan := at_chan (net (cl_attempts (usr s))),
        cl_attempts := Suc (cl_attempts (usr s)), cl_kernel := k,
        cl_objs := (cl_objs (usr s))\<lparr>closedFds := closedFds (cl_objs (usr s)) @ [con_fd (cl_connector (usr s))]\<rparr>\<rparr>\<rparr>)" (is "_ = Inr ?s2")
     and ct: "\<not> con_connected ct" "con_started ct" "con_hasNew ct" "con_fd ct = at_fd (net (cl_attempts (usr s)))"
     "chanfd (con_channel ct) = con_fd ct" "\<not> handlingEvents (con_channel ct)"
     "agrees interest (at_chan (net (cl_attempts (usr s)))) (con_channel ct, k)"
    using retry_ok [OF ok pre, of e now keeps] by (auto simp: timerfdRead_def)
  have "run_expired (\<lambda>_. retry net ctl e cur now keeps) now (w, p) ((timerfdRead s)\<lparr>timers := []\<rparr>) =
      Inr (?s2\<lparr>theap := [p \<mapsto> retry_timer (w + 3000000000)], timers := [(w + 3000000000, p)]\<rparr>)"
    using r w(2,4)
    by (simp add: run_expired_def Let_def expired_def run_timer_def retry_timer_def Timer_new_def restart_def timerfdRead_def)
  then have "timers_ready net ctl e cur now now2 keeps s =
      Inr (?s2\<lparr>theap := [p \<mapsto> retry_timer (w + 3000000000)], timers := [(w + 3000000000, p)],
        armed := Some (max (w + 3000000000) (now2 + 1000000))\<rparr>)"
    using getExpired_one [of "timerfdRead s" w p now] w thread
    by (simp add: timers_ready_def handleRead_timers_def assertInLoopThread_def isInLoopThread_def timerfdRead_def)
       (simp add: timerfdSet_armed)
  then show ?thesis using ct by (intro exI [of _ ct] exI [of _ k]) (simp add: timerfdRead_def)
qed

lemma tick_waiting:
  assumes ok: "epoll_ctl_ok ctl interest" and inv: "client_inv net interest cur s" and wt: "waiting net s"
    and a: "attempt_ok net interest (usr s)"
  shows "\<exists>s'. timers_ready net ctl e cur now now2 keeps s = Inr s' \<and> client_inv net interest cur s' \<and> waiting net s' \<and>
     armed s' = Some (max (fst (hd (timers s'))) (now2 + 1000000)) \<and>
     cl_attempts (usr s') = cl_attempts (usr s) + (if fst (hd (timers s)) \<le> now then 1 else 0) \<and>
     (fst (hd (timers s)) \<le> now \<longrightarrow> cl_chan (usr s') = at_chan (net (cl_attempts (usr s))))"
proof -
  let ?c = "usr s" and ?p = "cl_retryTimer (usr s)"
  obtain w where w: "timers s = [(w, ?p)]" "theap s = [?p \<mapsto> retry_timer w]" "0 < ?p" "\<not> cl_connected ?c"
      "\<not> con_connected (cl_connector ?c)" "cl_connection ?c = None" "sobjs (cl_objs ?c) = Map.empty"
      "closedFds (cl_objs ?c) = tried net (cl_attempts ?c - 1)"
    using wt by (rule waitingE)
  have thread: "tid (tloop s) = cur" and c: "connector_ok net interest ?c" using inv by (simp_all add: client_inv_def)
  show ?thesis
  proof (cases "w \<le> now")
    case False
    then show ?thesis using tick_idle [OF thread w(1,3) False] inv wt w(1) by (simp add: client_inv_def waiting_def)
  next
    case True
    obtain ct k where run: "timers_ready net ctl e cur now now2 keeps s =
         Inr (s\<lparr>armed := Some (max (w + 3000000000) (now2 + 1000000)), fired := fired s @ [?p],
            theap := [?p \<mapsto> retry_timer (w + 3000000000)], timers := [(w + 3000000000, ?p)],
            usr := ?c\<lparr>cl_connector := ct, cl_chan := at_chan (net (cl_attempts ?c)), cl_attempts := Suc (cl_attempts ?c), cl_kernel := k,
              cl_objs := (cl_objs ?c)\<lparr>closedFds := closedFds (cl_objs ?c) @ [con_fd (cl_connector ?c)]\<rparr>\<rparr>\<rparr>)" (is "_ = Inr ?s2")
       and ct: "\<not> con_connected ct" "con_started ct" "con_hasNew ct" "con_fd ct = at_fd (net (cl_attempts ?c))"
       "chanfd (con_channel ct) = con_fd ct" "\<not> handlingEvents (con_channel ct)"
       "agrees interest (at_chan (net (cl_attempts ?c))) (con_channel ct, k)"
      using tick_due [OF ok c w(5) thread w(4) a w(1-3) True] by blast
    have "closedFds (cl_objs ?c) @ [con_fd (cl_connector ?c)] = tried net (cl_attempts ?c)"
      using w(8) tried_Suc connector_okD(1,4) [OF c] by metis
    then have "waiting net ?s2" using w(3-7) ct(1) by (simp add: waiting_def Let_def)
    moreover have "at_fd (net (cl_attempts ?c)) \<noteq> - 1" using a by (simp add: attempt_ok_def Let_def)
    then have "connector_ok net interest (usr ?s2)" using ct by (simp add: connector_ok_def)
    ultimately show ?thesis using run thread True w(1) by (intro exI [of _ ?s2]) (simp add: client_inv_def)
  qed
qed

text \<open>The connector's channel is ready: a pending error leaves the client waiting, otherwise it has a connection.\<close>

lemma ready_unfold:
  assumes "tid (tloop s) = cur" and "handleWrite_con ctl True (cl_chan (usr s)) soerr lo (cl_connector (usr s), cl_kernel (usr s)) = Inr (n, ct, k)"
  shows "connector_ready ctl e cur now keeps soerr lo (cl_chan (usr s)) s =
     on_notice e cur now keeps n (s\<lparr>usr := (usr s)\<lparr>cl_connector := ct, cl_kernel := k\<rparr>\<rparr>)"
  using assms by (simp add: connector_ready_def isInLoopThread_def Let_def)

lemma ready_connects:
  assumes inv: "client_inv net interest cur s" and wt: "waiting net s"
    and run: "handleWrite_con ctl True (cl_chan (usr s)) soerr lo (cl_connector (usr s), cl_kernel (usr s)) =
      Inr (NewConnection (con_fd (cl_connector (usr s))) lo peer, (cl_connector (usr s))\<lparr>con_channel :=
        (con_channel (cl_connector (usr s)))\<lparr>pooling := False\<rparr>, con_connected := True\<rparr>, k)"
    and k: "interest k (con_fd (cl_connector (usr s))) = None"
  shows "\<exists>s'. connector_ready ctl e cur now (\<lambda>_. False) soerr lo (cl_chan (usr s)) s = Inr s' \<and>
     client_inv net interest cur s' \<and> opened net s' \<and> \<not> pooling (con_channel (cl_connector (usr s')))"
proof -
  let ?c = "usr s" and ?ct = "cl_connector (usr s)"
  let ?s1 = "s\<lparr>usr := ?c\<lparr>cl_connector := ?ct\<lparr>con_channel := (con_channel ?ct)\<lparr>pooling := False\<rparr>, con_connected := True\<rparr>, cl_kernel := k\<rparr>\<rparr>"
  have thread: "tid (tloop s) = cur" and c: "connector_ok net interest ?c" using inv by (simp_all add: client_inv_def)
  obtain w where w: "timers s = [(w, cl_retryTimer ?c)]" "theap s = [cl_retryTimer ?c \<mapsto> retry_timer w]"
      "cl_connection ?c = None" "sobjs (cl_objs ?c) = Map.empty" "closedFds (cl_objs ?c) = tried net (cl_attempts ?c - 1)"
    using wt by (rule waitingE)
  have "connector_ready ctl e cur now (\<lambda>_. False) soerr lo (cl_chan ?c) s = newConnection_client e cur now (\<lambda>_. False) (con_fd ?ct) ?s1"
    using ready_unfold [OF thread run] by simp
  also have "\<dots> = Inr (?s1\<lparr>theap := Map.empty, timers := [],
          usr := (usr ?s1)\<lparr>cl_retryTimer := 0, cl_connected := True, cl_connection := Some (cl_attempts ?c),
            cl_objs := (cl_objs ?c)\<lparr>calls := calls (cl_objs ?c) @ [(cl_attempts ?c, kConnected)],
              sobjs := (sobjs (cl_objs ?c))(cl_attempts ?c \<mapsto>
                \<lparr>sc_fd = con_fd ?ct, sc_state = kConnected, sc_refs = 1\<rparr>)\<rparr>\<rparr>\<rparr>)"
    using newConnection_client_ok [of ?s1 cur w "cl_retryTimer ?c" e now "con_fd ?ct"] thread w(1-3) by simp
  finally show ?thesis
    using thread w(4,5) connector_okD [OF c] k by (auto simp: client_inv_def opened_def connector_ok_def agrees_def Let_def)
qed

lemma ready_fails:
  assumes inv: "client_inv net interest cur s" and wt: "waiting net s"
    and run: "handleWrite_con ctl True (cl_chan (usr s)) soerr lo (cl_connector (usr s), cl_kernel (usr s)) =
      Inr (if con_hasError (cl_connector (usr s)) then ConnectError else NoNotice, (cl_connector (usr s))\<lparr>con_channel :=
        (con_channel (cl_connector (usr s)))\<lparr>pooling := False\<rparr>\<rparr>, k)"
    and k: "interest k (con_fd (cl_connector (usr s))) = None"
  shows "\<exists>s'. connector_ready ctl e cur now keeps soerr lo (cl_chan (usr s)) s = Inr s' \<and>
     client_inv net interest cur s' \<and> waiting net s' \<and> \<not> pooling (con_channel (cl_connector (usr s')))"
proof -
  let ?c1 = "(usr s)\<lparr>cl_connector := (cl_connector (usr s))\<lparr>con_channel := (con_channel (cl_connector (usr s)))\<lparr>pooling := False\<rparr>\<rparr>, cl_kernel := k\<rparr>"
  have thread: "tid (tloop s) = cur" and c: "connector_ok net interest (usr s)" using inv by (simp_all add: client_inv_def)
  have "connector_ready ctl e cur now keeps soerr lo (cl_chan (usr s)) s =
      Inr (s\<lparr>usr := if con_hasError (cl_connector (usr s)) then ?c1\<lparr>cl_errors := Suc (cl_errors (usr s))\<rparr> else ?c1\<rparr>)"
    using ready_unfold [OF thread run] by simp
  then show ?thesis
    using thread wt connector_okD [OF c] k by (auto simp: client_inv_def waiting_def connector_ok_def agrees_def Let_def)
qed

lemma ready_waiting:
  assumes ok: "epoll_ctl_ok ctl interest" and inv: "client_inv net interest cur s" and wt: "waiting net s"
  shows "\<exists>s'. connector_ready ctl e cur now (\<lambda>_. False) soerr lo (cl_chan (usr s)) s = Inr s' \<and>
     client_inv net interest cur s' \<and> (if soerr = Inr None then opened net s' else waiting net s') \<and>
     \<not> pooling (con_channel (cl_connector (usr s')))"
proof -
  let ?c = "usr s" and ?ct = "cl_connector (usr s)"
  note c = connector_okD [of net interest ?c]
  obtain k where k: "handleWrite_con ctl True (cl_chan ?c) soerr lo (?ct, cl_kernel ?c) =
     Inr (case soerr of
            Inr None \<Rightarrow> (NewConnection (con_fd ?ct) lo (con_peer ?ct),
               ?ct\<lparr>con_channel := (con_channel ?ct)\<lparr>pooling := False\<rparr>, con_connected := True\<rparr>, k)
          | _ \<Rightarrow> (if con_hasError ?ct then ConnectError else NoNotice,
               ?ct\<lparr>con_channel := (con_channel ?ct)\<lparr>pooling := False\<rparr>\<rparr>, k))"
     "interest k (con_fd ?ct) = None"
    using handleWrite_con_ok [OF ok c(8,2,3), of soerr lo] c(6) inv by (auto simp: client_inv_def)
  show ?thesis
  proof (cases "soerr = Inr None")
    case True
    then show ?thesis using ready_connects [OF inv wt _ k(2), of ctl soerr lo "con_peer ?ct" e now] k(1) by simp
  next
    case False
    then have "handleWrite_con ctl True (cl_chan ?c) soerr lo (?ct, cl_kernel ?c) =
        Inr (if con_hasError ?ct then ConnectError else NoNotice, ?ct\<lparr>con_channel := (con_channel ?ct)\<lparr>pooling := False\<rparr>\<rparr>, k)"
      using k(1) by (auto split: sum.splits option.splits)
    from ready_fails [OF inv wt this k(2)] show ?thesis using False by simp
  qed
qed

text \<open>The connection ends: it is announced, released and its descriptor closed.\<close>

lemma close_opened:
  assumes "client_inv net interest cur s" and "opened net s"
  shows "\<exists>c. handleClose_client True (\<lambda>_. False) (cl_attempts (usr s)) (usr s) = Inr c \<and>
     client_inv net interest cur (s\<lparr>usr := c\<rparr>) \<and> closed_down net (s\<lparr>usr := c\<rparr>) \<and> cl_attempts c = cl_attempts (usr s) \<and>
     calls (cl_objs c) = calls (cl_objs (usr s)) @ [(cl_attempts (usr s), kDisconnected)]"
proof -
  let ?c = "usr s" and ?n = "cl_attempts (usr s)"
  obtain st where o: "st = kConnected \<or> st = kDisconnecting"
      "sobjs (cl_objs ?c) = [?n \<mapsto> \<lparr>sc_fd = at_fd (net (?n - 1)), sc_state = st, sc_refs = 1\<rparr>]" "cl_connection ?c = Some ?n"
      "closedFds (cl_objs ?c) = tried net (?n - 1)"
    using assms(2) by (auto simp: opened_def Let_def)
  have n: "0 < ?n" "at_fd (net (?n - 1)) \<noteq> - 1"
    using assms(1) by (auto simp: client_inv_def connector_ok_def Let_def)
  have run: "handleClose_client True (\<lambda>_. False) ?n ?c =
      Inr (?c\<lparr>cl_connected := False, cl_connection := None,
        cl_objs := (cl_objs ?c)\<lparr>calls := calls (cl_objs ?c) @ [(?n, kDisconnected)], sobjs := Map.empty,
          closedFds := tried net ?n\<rparr>\<rparr>)"
    using o n(2) tried_Suc [OF n(1), of net]
    by (auto simp: handleClose_client_def closeConnection_client_def assign_connection_def on_objs_def copy_ptr_def
        set_sstate_def connection_callback_def drop_ptr_def Let_def)
  moreover have "closed_down net (s\<lparr>usr := ?c\<lparr>cl_connected := False, cl_connection := None,
        cl_objs := (cl_objs ?c)\<lparr>calls := calls (cl_objs ?c) @ [(?n, kDisconnected)], sobjs := Map.empty,
          closedFds := tried net ?n\<rparr>\<rparr>\<rparr>)"
    using assms(2) by (simp add: closed_down_def opened_def Let_def)
  ultimately show ?thesis
    using assms(1) by (simp add: client_inv_def connector_ok_def Let_def)
qed

lemma disconnect_ok:
  assumes "client_inv net interest cur s"
  shows "\<exists>c. disconnect (usr s) = Inr c \<and> client_inv net interest cur (s\<lparr>usr := c\<rparr>)"
proof (cases "cl_connection (usr s)")
  case None
  then show ?thesis using assms by (simp add: disconnect_def)
next
  case (Some i)
  then have op: "opened net s" using assms by (auto simp: client_inv_def waiting_def closed_down_def Let_def)
  obtain st where "st = kConnected \<or> st = kDisconnecting" "i = cl_attempts (usr s)"
      "sobjs (cl_objs (usr s)) = [i \<mapsto> \<lparr>sc_fd = at_fd (net (i - 1)), sc_state = st, sc_refs = 1\<rparr>]"
    using op Some by (auto simp: opened_def Let_def)
  then show ?thesis
    using assms op Some
    by (auto simp: disconnect_def on_objs_def set_sstate_def client_inv_def connector_ok_def opened_def Let_def)
qed

text \<open>Starting a new client.\<close>

definition client_start ::
  "(nat \<Rightarrow> attempt) \<Rightarrow> 'k epoll_ctl \<Rightarrow> ('k \<Rightarrow> int \<rightharpoonup> epoll_event) \<Rightarrow> 'e eventfd \<Rightarrow> int \<Rightarrow> ('e, 'k) clientsys \<Rightarrow> bool" where
  "client_start net ctl interest e cur s \<longleftrightarrow>
     epoll_ctl_ok ctl interest \<and>
     (\<exists>c k peer b now p s0. TcpClient_new net peer k = Inr c \<and> usr s0 = setErrorCallback_client b c \<and>
        timers s0 = [] \<and> theap s0 = Map.empty \<and> tid (tloop s0) = cur \<and> 0 < p \<and>
        at_connect (net 0) = Some EINPROGRESS \<and> at_fd (net 0) \<noteq> - 1 \<and> interest k (at_fd (net 0)) = None \<and>
        start_client net ctl e cur now p (\<lambda>_. False) s0 = Inr s)"

lemma client_startI:
  assumes "epoll_ctl_ok ctl interest" and "TcpClient_new net peer k = Inr c" and "usr s0 = setErrorCallback_client b c"
    and "timers s0 = []" and "theap s0 = Map.empty" and "tid (tloop s0) = cur" and "0 < p"
    and "at_connect (net 0) = Some EINPROGRESS" and "at_fd (net 0) \<noteq> - 1" and "interest k (at_fd (net 0)) = None"
    and "start_client net ctl e cur now p (\<lambda>_. False) s0 = Inr s"
  shows "client_start net ctl interest e cur s"
  using assms unfolding client_start_def by blast

lemma start_client_ok:
  assumes ok: "epoll_ctl_ok ctl interest" and new: "TcpClient_new net peer k = Inr c" and u: "usr s0 = setErrorCallback_client b c"
    and q: "timers s0 = []" "theap s0 = Map.empty" "tid (tloop s0) = cur" "0 < p"
    and a: "at_connect (net 0) = Some EINPROGRESS" "at_fd (net 0) \<noteq> - 1" "interest k (at_fd (net 0)) = None"
  shows "\<exists>s. start_client net ctl e cur now p keeps s0 = Inr s \<and> client_inv net interest cur s \<and> waiting net s \<and>
     timers s = [(now + 3000000000, p)] \<and> cl_attempts (usr s) = 1 \<and> cl_chan (usr s) = at_chan (net 0) \<and>
     cl_peer (usr s) = peer \<and> con_peer (cl_connector (usr s)) = peer \<and>
     interest (cl_kernel (usr s)) = (interest k)(at_fd (net 0) \<mapsto> \<lparr>ev_events = EPOLLOUT, ev_ptr = at_chan (net 0)\<rparr>)"
proof -
  define ct where "ct = \<lparr>con_peer = peer, con_fd = at_fd (net 0), con_connected = False, con_started = False,
      con_channel = setWriteCallback True (Channel_new (at_fd (net 0))), con_hasNew = True, con_hasError = b\<rparr>"
  have c: "usr s0 = \<lparr>cl_connected = False, cl_peer = peer, cl_retryTimer = 0, cl_connector = ct, cl_chan = at_chan (net 0),
          cl_connection = None, cl_hasError = b, cl_attempts = 1, cl_errors = 0,
          cl_objs = \<lparr>sobjs = Map.empty, connections = [], closedFds = [], calls = []\<rparr>, cl_kernel = k\<rparr>"
    using new u a(2)
    by (auto simp: TcpClient_new_def Connector_new_def createSocket_def setErrorCallback_client_def setErrorCallback_con_def
        setNewConnectionCallback_con_def ct_def)
  obtain ch k' where st: "start_con ctl True (at_chan (net 0)) (Some EINPROGRESS) (at_soerr (net 0)) (at_local (net 0)) (ct, k) =
        Inr (NoNotice, ct\<lparr>con_started := True, con_channel := ch\<rparr>, k')"
      "agrees interest (at_chan (net 0)) (ch, k')" "chanfd ch = at_fd (net 0)" "pooling ch" "\<not> handlingEvents ch"
      "interest k' = (interest k)(at_fd (net 0) \<mapsto> \<lparr>ev_events = EPOLLOUT, ev_ptr = at_chan (net 0)\<rparr>)"
    using start_in_progress [of ctl interest k "at_fd (net 0)" ct "at_chan (net 0)" "at_soerr (net 0)" "at_local (net 0)"] ok a(3)
    by (auto simp: ct_def)
  let ?c1 = "(usr s0)\<lparr>cl_connector := ct\<lparr>con_started := True, con_channel := ch\<rparr>, cl_kernel := k'\<rparr>"
  let ?w = "now + 3000000000"
  have "start_connector net ctl e cur now keeps s0 = Inr (s0\<lparr>usr := ?c1\<rparr>)"
    using st(1) a(1) q(3) c by (simp add: start_connector_def isInLoopThread_def)
  then have run: "start_client net ctl e cur now p keeps s0 =
      Inr (s0\<lparr>theap := [p \<mapsto> retry_timer ?w], timers := [(?w, p)], armed := Some (max ?w (now + 1000000)),
        usr := ?c1\<lparr>cl_retryTimer := p\<rparr>\<rparr>)" (is "_ = Inr ?t")
    using q
    by (simp add: start_client_def assertInLoopThread_def isInLoopThread_def runEvery_def addTimer_def runInLoop_def
        insertTimer_def timerfdSet_armed Let_def retry_timer_def)
  have "connector_ok net interest (usr ?t)" using st(2-5) c a(2) by (simp add: connector_ok_def ct_def)
  moreover have "waiting net ?t" using c q(4) by (simp add: waiting_def ct_def tried_def)
  ultimately have "client_inv net interest cur ?t" "waiting net ?t" using q(3) by (simp_all add: client_inv_def)
  then show ?thesis using run st(6) c by (intro exI [of _ ?t]) (simp add: ct_def)
qed

lemma client_start_inv:
  assumes "client_start net ctl interest e cur s"
  shows "epoll_ctl_ok ctl interest \<and> client_inv net interest cur s"
proof -
  from assms obtain c k peer b now p s0 where ok: "epoll_ctl_ok ctl interest" and st: "TcpClient_new net peer k = Inr c"
      "usr s0 = setErrorCallback_client b c" "timers s0 = []" "theap s0 = Map.empty" "tid (tloop s0) = cur" "0 < p"
      "at_connect (net 0) = Some EINPROGRESS" "at_fd (net 0) \<noteq> - 1" "interest k (at_fd (net 0)) = None"
    and run: "start_client net ctl e cur now p (\<lambda>_. False) s0 = Inr s"
    unfolding client_start_def by blast
  then show ?thesis
    using start_client_ok [of ctl interest net peer k c s0 b cur p e now "\<lambda>_. False"] by auto
qed

lemma tick_inv:
  assumes "epoll_ctl_ok ctl interest" and i: "client_inv net interest cur s" and "attempt_ok net interest (usr s)"
    and "timers_ready net ctl e cur now now2 keeps s = Inr t"
  shows "client_inv net interest cur t"
proof (cases "waiting net s")
  case True
  then show ?thesis using tick_waiting [OF assms(1,2) True assms(3), of e now now2 keeps] assms(4) by auto
next
  case False
  then have "timers s = []" "tid (tloop s) = cur" using i by (auto simp: client_inv_def opened_def closed_down_def Let_def)
  then have "t = s\<lparr>armed := None\<rparr>" using no_timers [of s cur net ctl e now now2 keeps] assms(4) by simp
  then show ?thesis using i by (simp add: client_inv_def waiting_def opened_def closed_down_def)
qed

interpretation client_run: inductive_invariant "client_start net ctl interest e cur" "client_step net ctl interest e cur"
  "\<lambda>s. epoll_ctl_ok ctl interest \<and> client_inv net interest cur s"
  for net ctl interest e cur
proof
  fix s t
  assume inv: "epoll_ctl_ok ctl interest \<and> client_inv net interest cur s" and "client_step net ctl interest e cur s t"
  then have ok: "epoll_ctl_ok ctl interest" and i: "client_inv net interest cur s" by simp_all
  from \<open>client_step net ctl interest e cur s t\<close> have "client_inv net interest cur t"
  proof cases
    case (client_tick now now2)
    then show ?thesis using tick_inv [OF ok i] by blast
  next
    case (client_ready now soerr lo)
    then have "waiting net s" using i by (auto simp: client_inv_def opened_def closed_down_def Let_def)
    then show ?thesis using ready_waiting [OF ok i, of e now soerr lo] client_ready(2) by auto
  next
    case (client_close i' c)
    then have op: "opened net s" using i by (auto simp: client_inv_def waiting_def closed_down_def Let_def)
    moreover have "i' = cl_attempts (usr s)" using op client_close(2) by (simp add: opened_def Let_def)
    ultimately show ?thesis using close_opened [OF i op] client_close by auto
  next
    case (client_disconnect c)
    then show ?thesis using disconnect_ok [OF i] by auto
  qed
  then show "epoll_ctl_ok ctl interest \<and> client_inv net interest cur t" using ok by simp
qed (rule client_start_inv)

section \<open>Properties\<close>


text \<open>A concrete client: the timer is at address 1, the loop's thread is 1, every connect is in progress.\<close>

definition demo_net :: "errno option \<Rightarrow> nat \<Rightarrow> attempt" where
  "demo_net r n = \<lparr>at_fd = int n + 5, at_chan = n + 1, at_connect = r, at_soerr = Inr None, at_local = InetAddress_any\<rparr>"

definition demo_client :: "(nat, int \<rightharpoonup> epoll_event) clientsys" where
  "demo_client =
     \<lparr>tloop = \<lparr>tid = 1, quit_flag = False, doingPendingTasks = False, pendingTasks = [], wakeupfd = 0\<rparr>,
      theap = Map.empty, timers = [], armed = None, fired = [],
      usr = \<lparr>cl_connected = False, cl_peer = InetAddress_any, cl_retryTimer = 0,
        cl_connector = \<lparr>con_peer = InetAddress_any, con_fd = 5, con_connected = False, con_started = False,
          con_channel = setWriteCallback True (Channel_new 5), con_hasNew = True, con_hasError = False\<rparr>,
        cl_chan = 1, cl_connection = None, cl_hasError = False, cl_attempts = 1, cl_errors = 0,
        cl_objs = \<lparr>sobjs = Map.empty, connections = [], closedFds = [], calls = []\<rparr>, cl_kernel = Map.empty\<rparr>\<rparr>"

lemma demo_new:
  "TcpClient_new (demo_net r) InetAddress_any Map.empty = Inr (usr demo_client)"
  "setErrorCallback_client False (usr demo_client) = usr demo_client"
  by (simp_all add: TcpClient_new_def Connector_new_def createSocket_def demo_net_def demo_client_def
      setNewConnectionCallback_con_def setErrorCallback_client_def setErrorCallback_con_def)

lemma demo_started:
  "\<exists>s. start_client (demo_net (Some EINPROGRESS)) map_ctl counter_efd 1 0 1 (\<lambda>_. False) demo_client = Inr s \<and>
     reach (client_start (demo_net (Some EINPROGRESS)) map_ctl (\<lambda>m. m) counter_efd 1)
       (client_step (demo_net (Some EINPROGRESS)) map_ctl (\<lambda>m. m) counter_efd 1) s \<and>
     waiting (demo_net (Some EINPROGRESS)) s \<and> timers s = [(3000000000, 1)] \<and> cl_attempts (usr s) = 1 \<and>
     cl_chan (usr s) = 1 \<and> cl_kernel (usr s) 6 = None"
proof -
  let ?net = "demo_net (Some EINPROGRESS)"
  have a: "at_connect (?net 0) = Some EINPROGRESS" "at_fd (?net 0) \<noteq> - 1" by (simp_all add: demo_net_def)
  have d: "timers demo_client = []" "theap demo_client = Map.empty" "tid (tloop demo_client) = 1"
    by (simp_all add: demo_client_def)
  obtain s where s: "start_client ?net map_ctl counter_efd 1 0 1 (\<lambda>_. False) demo_client = Inr s"
      "waiting ?net s" "timers s = [(3000000000, 1)]" "cl_attempts (usr s) = 1" "cl_chan (usr s) = 1" "cl_kernel (usr s) 6 = None"
    using start_client_ok [OF map_ctl_ok demo_new(1) demo_new(2) [symmetric] d, of 1 "Some EINPROGRESS" counter_efd 0 "\<lambda>_. False"] a
    by (auto simp: demo_net_def)
  have "client_start ?net map_ctl (\<lambda>m. m) counter_efd 1 s"
    using client_startI [OF map_ctl_ok demo_new(1) demo_new(2) [symmetric] d _ a _ s(1)] by simp
  then have "reach (client_start ?net map_ctl (\<lambda>m. m) counter_efd 1) (client_step ?net map_ctl (\<lambda>m. m) counter_efd 1) s"
    by (rule reach_init)
  then show ?thesis using s by (intro exI [of _ s] conjI)
qed


lemma delete_waiting:
  assumes ok: "epoll_ctl_ok ctl interest" and i: "client_inv net interest cur s" and wt: "waiting net s"
  shows "\<exists>s'. TcpClient_delete ctl e cur now (\<lambda>_. False) s = Inr s' \<and> theap s' = Map.empty \<and> timers s' = [] \<and>
     sobjs (cl_objs (usr s')) = Map.empty \<and> closedFds (cl_objs (usr s')) = tried net (cl_attempts (usr s)) \<and>
     interest (cl_kernel (usr s')) (at_fd (net (cl_attempts (usr s) - 1))) = None"
proof -
  have thread: "tid (tloop s) = cur" and c: "connector_ok net interest (usr s)" using i by (simp_all add: client_inv_def)
  let ?c = "usr s"
  have fd: "0 < cl_attempts ?c" "con_fd (cl_connector ?c) = at_fd (net (cl_attempts ?c - 1))"
    using c by (simp_all add: connector_ok_def Let_def)
  from wt obtain w where w: "timers s = [(w, cl_retryTimer ?c)]" "theap s = [cl_retryTimer ?c \<mapsto> retry_timer w]"
      "0 < cl_retryTimer ?c" "\<not> con_connected (cl_connector ?c)" "cl_connection ?c = None"
      "sobjs (cl_objs ?c) = Map.empty" "closedFds (cl_objs ?c) = tried net (cl_attempts ?c - 1)"
    by (auto simp: waiting_def Let_def)
  obtain k where "Connector_delete ctl True (cl_chan ?c) (cl_connector ?c, cl_kernel ?c) = Inr ([con_fd (cl_connector ?c)], k)"
      "interest k = (interest (cl_kernel ?c))(con_fd (cl_connector ?c) := None)"
    using connector_deleted [OF ok c w(4)] by blast
  then show ?thesis
    using w thread cancel_retry [OF thread w(1,2), of e now] fd tried_Suc [OF fd(1), of net]
    by (simp add: TcpClient_delete_def assign_connection_def isInLoopThread_def)
qed

lemma delete_opened:
  assumes i: "client_inv net interest cur s" and op: "opened net s"
  shows "\<exists>s'. TcpClient_delete ctl e cur now (\<lambda>_. False) s = Inr s' \<and> theap s' = Map.empty \<and> timers s' = [] \<and>
     sobjs (cl_objs (usr s')) = Map.empty \<and> closedFds (cl_objs (usr s')) = tried net (cl_attempts (usr s)) \<and>
     interest (cl_kernel (usr s')) (at_fd (net (cl_attempts (usr s) - 1))) = None"
proof -
  have thread: "tid (tloop s) = cur" and c: "connector_ok net interest (usr s)" using i by (simp_all add: client_inv_def)
  let ?c = "usr s"
  from op obtain st where o: "st = kConnected \<or> st = kDisconnecting" "cl_connection ?c = Some (cl_attempts ?c)"
      "sobjs (cl_objs ?c) = [cl_attempts ?c \<mapsto> \<lparr>sc_fd = at_fd (net (cl_attempts ?c - 1)), sc_state = st, sc_refs = 1\<rparr>]"
    by (auto simp: opened_def Let_def)
  let ?d = "?c\<lparr>cl_objs := (cl_objs ?c)\<lparr>sobjs := (sobjs (cl_objs ?c))(cl_attempts ?c \<mapsto>
      \<lparr>sc_fd = at_fd (net (cl_attempts ?c - 1)), sc_state = kDisconnecting, sc_refs = 1\<rparr>)\<rparr>\<rparr>"
  have dis: "client_inv net interest cur (s\<lparr>usr := ?d\<rparr>)" "opened net (s\<lparr>usr := ?d\<rparr>)"
    using i op o(3) by (auto simp: client_inv_def opened_def connector_ok_def Let_def)
  obtain c' where c': "handleClose_client True (\<lambda>_. False) (cl_attempts ?c) ?d = Inr c'"
      "client_inv net interest cur (s\<lparr>usr := c'\<rparr>)" "closed_down net (s\<lparr>usr := c'\<rparr>)"
      "cl_attempts c' = cl_attempts ?c"
    using close_opened [OF dis] by auto
  have force: "forceClose_client (\<lambda>_. False) (cl_attempts ?c) ?c = Inr c'"
    using o c'(1) by (auto simp: forceClose_client_def on_objs_def set_sstate_def)
  have "connector_ok net interest c'" "con_connected (cl_connector c')" "\<not> pooling (con_channel (cl_connector c'))"
    using c'(2,3) by (simp_all add: client_inv_def closed_down_def Let_def)
  note gone = connected_deleted [OF this]
  show ?thesis
    using o(2) force gone c'(3,4) thread
    by (simp add: TcpClient_delete_def assign_connection_def isInLoopThread_def closed_down_def Let_def)
qed

lemma delete_closed:
  assumes i: "client_inv net interest cur s" and cl: "closed_down net s"
  shows "\<exists>s'. TcpClient_delete ctl e cur now (\<lambda>_. False) s = Inr s' \<and> theap s' = Map.empty \<and> timers s' = [] \<and>
     sobjs (cl_objs (usr s')) = Map.empty \<and> closedFds (cl_objs (usr s')) = tried net (cl_attempts (usr s)) \<and>
     interest (cl_kernel (usr s')) (at_fd (net (cl_attempts (usr s) - 1))) = None"
proof -
  have thread: "tid (tloop s) = cur" and c: "connector_ok net interest (usr s)" using i by (simp_all add: client_inv_def)
  let ?c = "usr s"
  from cl have "con_connected (cl_connector ?c)" "\<not> pooling (con_channel (cl_connector ?c))"
    by (simp_all add: closed_down_def Let_def)
  note gone = connected_deleted [OF c this]
  show ?thesis
    using gone cl thread
    by (simp add: TcpClient_delete_def assign_connection_def isInLoopThread_def closed_down_def Let_def)
qed

text \<open>C33: Destroying a client in its loop's thread leaks nothing, in whatever phase it is: the timer is freed, the
  connection is closed and released, the descriptor of every attempt has been closed, and the last
  connector is no longer registered.\<close>

theorem client_delete:
  assumes "reach (client_start net ctl interest e cur) (client_step net ctl interest e cur) s"
  shows "\<exists>s'. TcpClient_delete ctl e cur now (\<lambda>_. False) s = Inr s' \<and> theap s' = Map.empty \<and> timers s' = [] \<and>
     sobjs (cl_objs (usr s')) = Map.empty \<and> closedFds (cl_objs (usr s')) = tried net (cl_attempts (usr s)) \<and>
     interest (cl_kernel (usr s')) (at_fd (net (cl_attempts (usr s) - 1))) = None"
proof -
  have ok: "epoll_ctl_ok ctl interest" and i: "client_inv net interest cur s"
    using client_run.reachable_inv [OF assms] by simp_all
  consider "waiting net s" | "opened net s" | "closed_down net s" using i by (auto simp: client_inv_def)
  then show ?thesis
    using delete_waiting [OF ok i] delete_opened [OF i] delete_closed [OF i] by cases
qed

theorem client_delete_witness:
  "\<exists>s s'. start_client (demo_net (Some EINPROGRESS)) map_ctl counter_efd 1 0 1 (\<lambda>_. False) demo_client = Inr s \<and>
     TcpClient_delete map_ctl counter_efd 1 9 (\<lambda>_. False) s = Inr s' \<and> theap s' = Map.empty"
proof -
  obtain s where s: "start_client (demo_net (Some EINPROGRESS)) map_ctl counter_efd 1 0 1 (\<lambda>_. False) demo_client = Inr s"
     "reach (client_start (demo_net (Some EINPROGRESS)) map_ctl (\<lambda>m. m) counter_efd 1)
       (client_step (demo_net (Some EINPROGRESS)) map_ctl (\<lambda>m. m) counter_efd 1) s"
    using demo_started by blast
  then show ?thesis using client_delete [OF s(2), of 9] by auto
qed

text \<open>A connect that is over when it returns, on a new connector.\<close>

lemma connect_at_once:
  assumes "epoll_ctl_ok ctl interest" and "interest k f = None"
    and "con_channel ct = setWriteCallback True (Channel_new f)" and "\<not> con_started ct" and "con_hasNew ct"
    and "r \<noteq> Some EINPROGRESS"
  shows "\<exists>ct' k'. start_con ctl True p r (Inr None) lo (ct, k) = Inr (NewConnection (con_fd ct) lo (con_peer ct), ct', k')"
proof -
  have "agrees interest p (con_channel ct, k)" using assms(2,3) by (simp add: new_channel_agrees)
  then show ?thesis
    using handleWrite_con_ok [OF assms(1), of p "ct\<lparr>con_started := True\<rparr>" k "Inr None" lo] assms(4-6)
    by (auto simp: start_con_def)
qed

text \<open>Cancelling the retry timer while it runs deletes it.\<close>

lemma newConnection_in_retry:
  assumes "tid (tloop s) = cur" and "timers s = []" and "theap s = [p \<mapsto> retry_timer w]"
    and "cl_retryTimer (usr s) = p" and "cl_connection (usr s) = None"
  shows "\<exists>s'. newConnection_client e cur now keeps f s = Inr s' \<and> theap s' = Map.empty"
  using assms
  by (simp add: newConnection_client_def assertInLoopThread_def isInLoopThread_def cancelTimer_loop_def cancelTimer_def
      runInLoop_def cancelInLoop_def cancel_def retry_timer_def Timer_new_def delete_timer_def on_objs_def make_shared_def
      copy_ptr_def assign_connection_def set_sstate_def connection_callback_def drop_ptr_def Let_def)

lemma start_at_once:
  assumes ok: "epoll_ctl_ok ctl interest" and r: "at_connect (net 0) \<noteq> Some EINPROGRESS" "at_soerr (net 0) = Inr None"
    and new: "TcpClient_new net peer k = Inr c" "usr s0 = c" and q: "theap s0 = Map.empty" "tid (tloop s0) = cur"
    and fd: "at_fd (net 0) \<noteq> - 1" "interest k (at_fd (net 0)) = None"
  shows "start_client net ctl e cur now p keeps s0 = Inl Use_after_free"
proof -
  let ?ct = "cl_connector c"
  have c: "con_channel ?ct = setWriteCallback True (Channel_new (at_fd (net 0)))" "\<not> con_started ?ct" "con_hasNew ?ct"
      "cl_kernel c = k" "cl_chan c = at_chan (net 0)" "cl_attempts c = 1" "cl_retryTimer c = 0"
    using new(1) fd(1)
    by (auto simp: TcpClient_new_def Connector_new_def createSocket_def setNewConnectionCallback_con_def)
  obtain ct' k' where "start_con ctl True (at_chan (net 0)) (at_connect (net 0)) (Inr None) (at_local (net 0)) (?ct, k) =
      Inr (NewConnection (con_fd ?ct) (at_local (net 0)) (con_peer ?ct), ct', k')"
    using connect_at_once [of ctl interest k "at_fd (net 0)" ?ct "at_connect (net 0)"] ok fd(2) c(1-3) r(1) by blast
  then have "start_connector net ctl e cur now keeps s0 = Inl Use_after_free"
    using c new(2) q r(2)
    by (simp add: start_connector_def newConnection_client_def assertInLoopThread_def isInLoopThread_def
        cancelTimer_loop_def cancelTimer_def runInLoop_def cancelInLoop_def Let_def)
  then show ?thesis using q(2) by (simp add: start_client_def assertInLoopThread_def isInLoopThread_def)
qed

lemma retry_at_once:
  assumes ok: "epoll_ctl_ok ctl interest" and inv: "client_inv net interest cur s" and wt: "waiting net s"
    and n: "cl_attempts (usr s) = n"
    and r: "at_connect (net n) \<noteq> Some EINPROGRESS" "at_soerr (net n) = Inr None"
    and fd: "at_fd (net n) \<noteq> - 1" "interest (cl_kernel (usr s)) (at_fd (net n)) = None" and due: "fst (hd (timers s)) \<le> now"
  shows "timers_ready net ctl e cur now now2 keeps s = Inl Use_after_free"
proof -
  let ?c = "usr s" and ?p = "cl_retryTimer (usr s)" and ?a = "net n"
  obtain w where w: "timers s = [(w, ?p)]" "theap s = [?p \<mapsto> retry_timer w]" "0 < ?p" "\<not> cl_connected ?c"
      "\<not> con_connected (cl_connector ?c)" "cl_connection ?c = None"
    using wt by (auto simp: waiting_def Let_def)
  have thread: "tid (tloop s) = cur" and c: "connector_ok net interest ?c" using inv by (simp_all add: client_inv_def)
  obtain k where k: "Connector_delete ctl True (cl_chan ?c) (cl_connector ?c, cl_kernel ?c) = Inr ([con_fd (cl_connector ?c)], k)"
      "interest k (at_fd ?a) = None"
    using connector_deleted [OF ok c w(5)] fd(2) by auto
  let ?ct = "fresh_connector (cl_peer ?c) (at_fd ?a) (cl_hasError ?c)"
  obtain ct' k' where st: "start_con ctl True (at_chan ?a) (at_connect ?a) (Inr None) (at_local ?a) (?ct, k) =
      Inr (NewConnection (at_fd ?a) (at_local ?a) (cl_peer ?c), ct', k')"
    using connect_at_once [of ctl interest k "at_fd ?a" ?ct "at_connect ?a" "at_chan ?a" "at_local ?a"] ok k(2) r(1)
    by (auto simp: fresh_connector_def)
  let ?s1 = "s\<lparr>armed := None, timers := [], fired := fired s @ [?p]\<rparr>"
  let ?u = "?c\<lparr>cl_chan := at_chan ?a, cl_attempts := Suc n,
        cl_objs := (cl_objs ?c)\<lparr>closedFds := closedFds (cl_objs ?c) @ [con_fd (cl_connector ?c)]\<rparr>,
        cl_connector := ct', cl_kernel := k'\<rparr>"
  have "retry net ctl e cur now keeps ?s1 = newConnection_client e cur now keeps (at_fd ?a) (?s1\<lparr>usr := ?u\<rparr>)"
    using retry_unfold [of ?s1 cur net ctl "[con_fd (cl_connector ?c)]" k e now keeps] w(4) thread k(1) st fd(1) r(2) n
    by (simp add: isInLoopThread_def start_connector_def Let_def)
  then obtain s' where "retry net ctl e cur now keeps ?s1 = Inr s'" "theap s' = Map.empty"
    using newConnection_in_retry [of "?s1\<lparr>usr := ?u\<rparr>" cur ?p w e now keeps "at_fd ?a"] thread w(2,6) by auto
  then have "run_expired (\<lambda>_. retry net ctl e cur now keeps) now (w, ?p) (timerfdRead s\<lparr>timers := []\<rparr>) = Inl Use_after_free"
    using w(1,2) due
    by (simp add: run_expired_def expired_def run_timer_def retry_timer_def Timer_new_def timerfdRead_def Let_def)
  moreover have "getExpired now (timerfdRead s) = ([(w, ?p)], timerfdRead s\<lparr>timers := []\<rparr>)"
    using getExpired_one [of "timerfdRead s" w ?p now] w(1,3) due by (simp add: timerfdRead_def)
  ultimately show ?thesis
    using thread by (simp add: timers_ready_def handleRead_timers_def assertInLoopThread_def isInLoopThread_def)
qed

text \<open>C37: A connect that is over when it returns makes the client touch memory it does not own. In \<open>start\<close> the
  new connection is reported before the retry timer exists, and \<open>newConnection\<close> cancels the null
  pointer. In \<open>retry\<close> it is reported from inside the retry timer's own callback; \<open>newConnection\<close>
  deletes the timer and the timer queue then reads it. This happens for every answer of \<open>connect\<close>
  but EINPROGRESS, as long as no error is pending on the socket.\<close>

theorem immediate_connect_faults:
  assumes "epoll_ctl_ok ctl interest" and "at_connect (net n) \<noteq> Some EINPROGRESS" and "at_soerr (net n) = Inr None"
    and "at_fd (net n) \<noteq> - 1" and "interest (cl_kernel (usr s)) (at_fd (net n)) = None" and "tid (tloop s) = cur"
  shows "(n = 0 \<and> TcpClient_new net peer (cl_kernel (usr s)) = Inr (usr s) \<and> theap s = Map.empty \<longrightarrow>
       start_client net ctl e cur now p keeps s = Inl Use_after_free) \<and>
     (reach (client_start net ctl interest e cur) (client_step net ctl interest e cur) s \<and> waiting net s \<and>
       n = cl_attempts (usr s) \<and> fst (hd (timers s)) \<le> now \<longrightarrow>
       timers_ready net ctl e cur now now2 keeps s = Inl Use_after_free)"
  using start_at_once [of ctl interest net peer "cl_kernel (usr s)" "usr s" s cur e now p keeps]
    retry_at_once [of ctl interest net cur s n now e now2 keeps] client_run.reachable_inv [of net ctl interest e cur s] assms
  by auto

theorem immediate_connect_faults_witness:
  "start_client (demo_net None) map_ctl counter_efd 1 0 1 (\<lambda>_. False) demo_client = Inl Use_after_free"
proof -
  have d: "at_connect (demo_net None 0) \<noteq> Some EINPROGRESS" "at_soerr (demo_net None 0) = Inr None" "at_fd (demo_net None 0) \<noteq> - 1"
      "cl_kernel (usr demo_client) = Map.empty" "tid (tloop demo_client) = 1" "theap demo_client = Map.empty"
    by (simp_all add: demo_net_def demo_client_def)
  then show ?thesis
    using immediate_connect_faults [OF map_ctl_ok, of "demo_net None" 0 demo_client 1 InetAddress_any counter_efd 0 1 "\<lambda>_. False"]
      demo_new(1) [of None] by simp
qed

text \<open>A retry can leave a dangling channel in the list of active channels. If the timer and the connector's
  channel become ready in the same wait and the timer comes first, the retry deletes the connector
  with its channel, and the loop then dispatches the event to the deleted channel.\<close>

theorem retry_dangling_channel:
  assumes "reach (client_start net ctl interest e cur) (client_step net ctl interest e cur) s"
    and "waiting net s" and "attempt_ok net interest (usr s)" and "fst (hd (timers s)) \<le> now"
    and "at_chan (net (cl_attempts (usr s))) \<noteq> cl_chan (usr s)"
  shows "bindE (timers_ready net ctl e cur now now2 (\<lambda>_. False) s)
     (connector_ready ctl e cur now (\<lambda>_. False) soerr lo (cl_chan (usr s))) = Inl Use_after_free"
proof -
  have ok: "epoll_ctl_ok ctl interest" and i: "client_inv net interest cur s"
    using client_run.reachable_inv [OF assms(1)] by simp_all
  obtain s' where "timers_ready net ctl e cur now now2 (\<lambda>_. False) s = Inr s'"
      "cl_chan (usr s') = at_chan (net (cl_attempts (usr s)))"
    using tick_waiting [OF ok i assms(2,3), of e now now2 "\<lambda>_. False"] assms(4) by auto
  then show ?thesis using assms(5) by (simp add: connector_ready_def Let_def)
qed

theorem retry_dangling_channel_witness:
  "\<exists>s. start_client (demo_net (Some EINPROGRESS)) map_ctl counter_efd 1 0 1 (\<lambda>_. False) demo_client = Inr s \<and>
     bindE (timers_ready (demo_net (Some EINPROGRESS)) map_ctl counter_efd 1 3000000000 3000000000 (\<lambda>_. False) s)
       (connector_ready map_ctl counter_efd 1 3000000000 (\<lambda>_. False) (Inr None) InetAddress_any 1) = Inl Use_after_free"
proof -
  obtain s where s: "start_client (demo_net (Some EINPROGRESS)) map_ctl counter_efd 1 0 1 (\<lambda>_. False) demo_client = Inr s"
     "reach (client_start (demo_net (Some EINPROGRESS)) map_ctl (\<lambda>m. m) counter_efd 1)
       (client_step (demo_net (Some EINPROGRESS)) map_ctl (\<lambda>m. m) counter_efd 1) s"
     "waiting (demo_net (Some EINPROGRESS)) s" "timers s = [(3000000000, 1)]" "cl_attempts (usr s) = 1" "cl_chan (usr s) = 1"
     "cl_kernel (usr s) 6 = None"
    using demo_started by blast
  have "attempt_ok (demo_net (Some EINPROGRESS)) (\<lambda>m. m) (usr s)"
    using s(5,7) by (simp add: attempt_ok_def demo_net_def)
  then show ?thesis
    using retry_dangling_channel [OF s(2,3), of 3000000000 3000000000 "Inr None" InetAddress_any] s(1,4-6)
    by (simp add: demo_net_def)
qed

end
