(* ===== verification/Loop_Lifecycle.thy ===== *)
theory Loop_Lifecycle
  imports Timer_Queue Sockets
begin

text \<open>
  Construction and destruction of \<open>class EventLoop\<close> (src/EventLoop.cpp) with its poller, its
  wake-up channel and its timer queue, and the thread-local pointer \<open>t_Eventloop\<close> that keeps one
  loop per thread. The answers of \<open>epoll_create\<close>, \<open>eventfd\<close> and \<open>timerfd_create\<close> and the addresses
  of the objects are arguments.
\<close>

section \<open>Construction and destruction\<close>

text \<open>\<open>owner_tid\<close> is \<open>tid_\<close>; the addresses are those of the loop and of its two channels.\<close>

record 'k loopobj =
  owner_tid :: int
  self_addr :: nat
  wake_addr :: nat
  wake_fd :: int
  wakeupChannel :: channel
  timer_addr :: nat
  timer_fd :: int
  timerChannel :: channel
  lo_kernel :: 'k

text \<open>
  The members are initialised in the order of the class (the poller, the descriptor, the timer
  queue), then the body of the constructor runs. \<open>tls\<close> is \<open>t_Eventloop\<close> of every thread.
\<close>

definition EventLoop_new ::
  "'k epoll_ctl \<Rightarrow> bool \<Rightarrow> int \<Rightarrow> int \<Rightarrow> nat \<Rightarrow> nat \<Rightarrow> nat \<Rightarrow> int \<Rightarrow> 'k \<Rightarrow> (int \<rightharpoonup> nat) \<Rightarrow>
   ('k loopobj \<times> (int \<rightharpoonup> nat)) result" where
  "EventLoop_new ctl created wfd tfd pl pw pt cur k tls =
     bindE (Epoll_new created) (\<lambda>_.
     bindE (TimerQueue_new ctl True tfd pt k) (\<lambda>(tch, k1).
     bindE (errif (wfd = - 1)) (\<lambda>_.
     bindE (enableRead ctl True pw (setReadCallback True (Channel_new wfd), k1)) (\<lambda>(wch, k2).
     bindE (assertE (tls cur = None)) (\<lambda>_.
     Inr (\<lparr>owner_tid = cur, self_addr = pl, wake_addr = pw, wake_fd = wfd, wakeupChannel = wch,
           timer_addr = pt, timer_fd = tfd, timerChannel = tch, lo_kernel = k2\<rparr>, tls(cur \<mapsto> pl)))))))"

text \<open>The destructor, up to the destruction of the members; it returns the descriptors it closes.\<close>

definition EventLoop_delete ::
  "'k epoll_ctl \<Rightarrow> int \<Rightarrow> 'k loopobj \<Rightarrow> (int \<rightharpoonup> nat) \<Rightarrow> (int list \<times> 'k loopobj \<times> (int \<rightharpoonup> nat)) result" where
  "EventLoop_delete ctl cur l tls =
     (let inl = (owner_tid l = cur) in
      bindE (if inl then disableAll ctl inl (wake_addr l) (wakeupChannel l, lo_kernel l)
             else if pooling (wakeupChannel l) then removeChannel ctl inl (wake_addr l) (wakeupChannel l, lo_kernel l)
             else Inr (wakeupChannel l, lo_kernel l)) (\<lambda>(wch, k).
      bindE (Channel_delete wch) (\<lambda>_.
      bindE (if inl then bindE (assertE (tls cur = Some (self_addr l))) (\<lambda>_. Inr (tls(cur := None))) else Inr tls) (\<lambda>tls'.
      Inr (if wake_fd l \<noteq> - 1 then [wake_fd l] else [], l\<lparr>wakeupChannel := wch, lo_kernel := k\<rparr>, tls')))))"

text \<open>
  The whole destruction: after the body of the destructor the timer queue with its channel and the
  poller are destroyed.
\<close>

definition EventLoop_destroy ::
  "'k epoll_ctl \<Rightarrow> int \<Rightarrow> int \<Rightarrow> ('c, 'e, 'u) tq \<Rightarrow> 'k loopobj \<Rightarrow> (int \<rightharpoonup> nat) \<Rightarrow>
   (int list \<times> ('c, 'e, 'u) tq \<times> (int \<rightharpoonup> nat)) result" where
  "EventLoop_destroy ctl cur epfd q l tls =
     bindE (EventLoop_delete ctl cur l tls) (\<lambda>(wfds, _, tls').
     bindE (TimerQueue_delete (timer_fd l) q) (\<lambda>(tfds, q').
     bindE (Channel_delete (timerChannel l)) (\<lambda>_.
     Inr (wfds @ tfds @ Epoll_delete epfd, q', tls'))))"

section \<open>Lemmas\<close>

lemma enableRead_new:
  assumes "epoll_ctl_ok ctl interest" and "interest k f = None"
  shows "\<exists>k'. enableRead ctl True p (setReadCallback True (Channel_new f), k) =
     Inr ((setReadCallback True (Channel_new f))\<lparr>events := EPOLLIN OR EPOLLPRI, pooling := True\<rparr>, k') \<and>
     interest k' = (interest k)(f \<mapsto> \<lparr>ev_events = EPOLLIN OR EPOLLPRI, ev_ptr = p\<rparr>)"
proof -
  let ?ch = "setReadCallback True (Channel_new f)"
  have "agrees interest p (?ch, k)" using assms(2) by (simp add: agrees_def setReadCallback_def Channel_new_def)
  moreover have "EPOLLIN OR EPOLLPRI \<noteq> 0" by (simp add: epoll_consts)
  ultimately show ?thesis
    using update_interest [OF assms(1), of p ?ch k "EPOLLIN OR EPOLLPRI"]
    by (auto simp: enableRead_def setReadCallback_def Channel_new_def)
qed

text \<open>
  A new loop watches its timer and its wake-up descriptor, and its thread points to it; if the
  thread has a loop already, the constructor stops.
\<close>

lemma EventLoop_new_ok:
  assumes "epoll_ctl_ok ctl interest" and "interest k = Map.empty" and "wfd \<noteq> - 1" and "tfd \<noteq> - 1" and "wfd \<noteq> tfd"
  shows "\<exists>l. (\<forall>tls. EventLoop_new ctl True wfd tfd pl pw pt cur k tls =
       (if tls cur = None then Inr (l, tls(cur \<mapsto> pl)) else Inl Assert_fail)) \<and>
     owner_tid l = cur \<and> self_addr l = pl \<and> wake_addr l = pw \<and> wake_fd l = wfd \<and> timer_fd l = tfd \<and>
     wakeupChannel l = (setReadCallback True (Channel_new wfd))\<lparr>events := EPOLLIN OR EPOLLPRI, pooling := True\<rparr> \<and>
     timerChannel l = (setReadCallback True (Channel_new tfd))\<lparr>events := EPOLLIN OR EPOLLPRI, pooling := True\<rparr> \<and>
     interest (lo_kernel l) =
       [tfd \<mapsto> \<lparr>ev_events = EPOLLIN OR EPOLLPRI, ev_ptr = pt\<rparr>, wfd \<mapsto> \<lparr>ev_events = EPOLLIN OR EPOLLPRI, ev_ptr = pw\<rparr>]"
proof -
  obtain k1 where k1: "enableRead ctl True pt (setReadCallback True (Channel_new tfd), k) =
       Inr ((setReadCallback True (Channel_new tfd))\<lparr>events := EPOLLIN OR EPOLLPRI, pooling := True\<rparr>, k1)"
     "interest k1 = [tfd \<mapsto> \<lparr>ev_events = EPOLLIN OR EPOLLPRI, ev_ptr = pt\<rparr>]"
    using enableRead_new [OF assms(1), of k tfd pt] assms(2) by auto
  then obtain k2 where k2: "enableRead ctl True pw (setReadCallback True (Channel_new wfd), k1) =
       Inr ((setReadCallback True (Channel_new wfd))\<lparr>events := EPOLLIN OR EPOLLPRI, pooling := True\<rparr>, k2)"
     "interest k2 = (interest k1)(wfd \<mapsto> \<lparr>ev_events = EPOLLIN OR EPOLLPRI, ev_ptr = pw\<rparr>)"
    using enableRead_new [OF assms(1), of k1 wfd pw] assms(5) by auto
  let ?on = "\<lambda>f. (setReadCallback True (Channel_new f))\<lparr>events := EPOLLIN OR EPOLLPRI, pooling := True\<rparr>"
  have "EventLoop_new ctl True wfd tfd pl pw pt cur k tls =
      (if tls cur = None
       then Inr (\<lparr>owner_tid = cur, self_addr = pl, wake_addr = pw, wake_fd = wfd, wakeupChannel = ?on wfd,
              timer_addr = pt, timer_fd = tfd, timerChannel = ?on tfd, lo_kernel = k2\<rparr>, tls(cur \<mapsto> pl))
       else Inl Assert_fail)" for tls
    using k1(1) k2(1) assms(3,4)
    by (simp add: EventLoop_new_def Epoll_new_def TimerQueue_new_def timerfdCreate_def errif_def assertE_def)
  then show ?thesis
    using k1(2) k2(2)
    by (intro exI [of _ "\<lparr>owner_tid = cur, self_addr = pl, wake_addr = pw, wake_fd = wfd, wakeupChannel = ?on wfd,
          timer_addr = pt, timer_fd = tfd, timerChannel = ?on tfd, lo_kernel = k2\<rparr>"]) simp
qed

text \<open>Destroyed by its own thread, a loop that still watches its wake-up descriptor gives it up.\<close>

lemma EventLoop_delete_own:
  assumes "epoll_ctl_ok ctl interest" and "owner_tid l = cur" and "wake_fd l = wfd" and "wfd \<noteq> - 1"
    and ch: "wakeupChannel l = (setReadCallback True (Channel_new wfd))\<lparr>events := EPOLLIN OR EPOLLPRI, pooling := True\<rparr>"
    and reg: "interest (lo_kernel l) wfd = Some \<lparr>ev_events = EPOLLIN OR EPOLLPRI, ev_ptr = wake_addr l\<rparr>"
    and "tls cur = Some (self_addr l)"
  shows "\<exists>l'. EventLoop_delete ctl cur l tls = Inr ([wfd], l', tls(cur := None)) \<and>
     interest (lo_kernel l') = (interest (lo_kernel l))(wfd := None)"
proof -
  let ?ch = "wakeupChannel l"
  have f: "chanfd ?ch = wfd" "pooling ?ch" "\<not> handlingEvents ?ch" "events ?ch = EPOLLIN OR EPOLLPRI"
    by (simp_all add: ch setReadCallback_def Channel_new_def)
  have "agrees interest (wake_addr l) (?ch, lo_kernel l)" using f reg by (simp add: agrees_def)
  from update_interest [OF assms(1) this, of 0] obtain k' where
     "disableAll ctl True (wake_addr l) (?ch, lo_kernel l) = Inr (?ch\<lparr>events := 0, pooling := False\<rparr>, k')"
     "interest k' = (interest (lo_kernel l))(wfd := None)"
    using f by (auto simp: disableAll_def)
  then show ?thesis using f assms by (simp add: EventLoop_delete_def Channel_delete_def)
qed

lemma EventLoop_destroy_own:
  assumes "epoll_ctl_ok ctl interest" and "owner_tid l = cur" and "wake_fd l = wfd" and "wfd \<noteq> - 1"
    and "wakeupChannel l = (setReadCallback True (Channel_new wfd))\<lparr>events := EPOLLIN OR EPOLLPRI, pooling := True\<rparr>"
    and "interest (lo_kernel l) wfd = Some \<lparr>ev_events = EPOLLIN OR EPOLLPRI, ev_ptr = wake_addr l\<rparr>"
    and "tls cur = Some (self_addr l)" and "\<not> handlingEvents (timerChannel l)"
    and "TimerQueue_delete (timer_fd l) q = Inr (tfds, q')"
  shows "EventLoop_destroy ctl cur epfd q l tls = Inr (wfd # tfds @ Epoll_delete epfd, q', tls(cur := None))"
  using EventLoop_delete_own [of ctl interest l cur wfd tls] assms by (auto simp: EventLoop_destroy_def Channel_delete_def)

section \<open>Properties\<close>

text \<open>C34: One loop per thread, from construction to destruction. In a thread without a loop the
  constructor registers the timer and the wake-up descriptor and makes the loop the thread's own;
  a second loop in the same thread fails the assertion. Destroyed by its own thread, the loop
  takes its wake-up descriptor out of the poller, closes it and leaves the thread free for another
  loop. Destroyed by another thread, the case that the comment in the destructor describes, it
  always fails: the removal from the poller checks the thread too.\<close>

theorem loop_lifecycle:
  assumes "epoll_ctl_ok ctl interest" and "interest k = Map.empty"
    and "wfd \<noteq> - 1" and "tfd \<noteq> - 1" and "wfd \<noteq> tfd" and "tls cur = None"
  shows "\<exists>l. EventLoop_new ctl True wfd tfd pl pw pt cur k tls = Inr (l, tls(cur \<mapsto> pl)) \<and>
     dom (interest (lo_kernel l)) = {wfd, tfd} \<and>
     EventLoop_new ctl True wfd tfd pl' pw pt cur k (tls(cur \<mapsto> pl)) = Inl Assert_fail \<and>
     (\<exists>l'. EventLoop_delete ctl cur l (tls(cur \<mapsto> pl)) = Inr ([wfd], l', tls) \<and>
           dom (interest (lo_kernel l')) = {tfd}) \<and>
     (other \<noteq> cur \<longrightarrow> EventLoop_delete ctl other l tls' = Inl Assert_fail)"
proof -
  obtain l where new: "\<forall>tls. EventLoop_new ctl True wfd tfd pl pw pt cur k tls =
       (if tls cur = None then Inr (l, tls(cur \<mapsto> pl)) else Inl Assert_fail)"
     and own: "owner_tid l = cur" "self_addr l = pl" "wake_addr l = pw" "wake_fd l = wfd"
     "wakeupChannel l = (setReadCallback True (Channel_new wfd))\<lparr>events := EPOLLIN OR EPOLLPRI, pooling := True\<rparr>"
     "interest (lo_kernel l) =
       [tfd \<mapsto> \<lparr>ev_events = EPOLLIN OR EPOLLPRI, ev_ptr = pt\<rparr>, wfd \<mapsto> \<lparr>ev_events = EPOLLIN OR EPOLLPRI, ev_ptr = pw\<rparr>]"
    using EventLoop_new_ok [of ctl interest k wfd tfd pl pw pt cur] assms(1-5) by blast
  have l: "EventLoop_new ctl True wfd tfd pl pw pt cur k tls = Inr (l, tls(cur \<mapsto> pl))" using new assms(6) by simp
  note l = l own
  have second: "EventLoop_new ctl True wfd tfd pl' pw pt cur k (tls(cur \<mapsto> pl)) = Inl Assert_fail"
    using EventLoop_new_ok [of ctl interest k wfd tfd pl' pw pt cur] assms(1-5) by auto
  have wake: "interest (lo_kernel l) wfd = Some \<lparr>ev_events = EPOLLIN OR EPOLLPRI, ev_ptr = wake_addr l\<rparr>"
    using l(4,7) by simp
  obtain l' where l': "EventLoop_delete ctl cur l (tls(cur \<mapsto> pl)) = Inr ([wfd], l', tls)"
     "interest (lo_kernel l') = (interest (lo_kernel l))(wfd := None)"
    using EventLoop_delete_own [of ctl interest l cur wfd "tls(cur \<mapsto> pl)"] assms(1,3,6) l(2,3,5,6) wake
    by (auto simp: fun_upd_idem)
  then have "dom (interest (lo_kernel l')) = {tfd}" using l(7) assms(5) by auto
  moreover have "EventLoop_delete ctl other l tls' = Inl Assert_fail" if "other \<noteq> cur"
    using that l(2,6) by (simp add: EventLoop_delete_def removeChannel_def)
  ultimately show ?thesis using l(1,7) l' second by (intro exI [of _ l]) auto
qed

theorem loop_lifecycle_witness:
  "\<exists>l. EventLoop_new map_ctl True 4 5 1 2 3 77 Map.empty Map.empty = Inr (l, [77 \<mapsto> 1]) \<and>
     EventLoop_delete map_ctl 78 l Map.empty = Inl Assert_fail"
  using loop_lifecycle [OF map_ctl_ok, of Map.empty 4 5 Map.empty 77 1 2 3 6 78 Map.empty] by auto

end
