(* ===== verification/Logger.thy ===== *)
theory Logger
  imports Async_Logging
begin

text \<open>
  The logging interface (include/knetlib/Logger.h, src/Logger.cpp): levels, the text of a log line,
  and where it goes - standard output, a file, or the asynchronous logger of \<open>Async_Logging\<close>. The
  clock, the process number, what a format string expands to and what \<open>strerror\<close> says are
  arguments; a stream is the text written to it.
\<close>

section \<open>The text of a line\<close>

datatype LOG_LEVEL = LOG_TRACE | LOG_DEBUG | LOG_INFO | LOG_WARN | LOG_ERROR | LOG_FATAL

fun level_num :: "LOG_LEVEL \<Rightarrow> nat" where
  "level_num LOG_TRACE = 0"
| "level_num LOG_DEBUG = 1"
| "level_num LOG_INFO = 2"
| "level_num LOG_WARN = 3"
| "level_num LOG_ERROR = 4"
| "level_num LOG_FATAL = 5"

text \<open>Levels are ordered by their numbers.\<close>

lemma level_num_inj [simp]: "level_num l = level_num m \<longleftrightarrow> l = m"
  by (cases l; cases m) simp_all

instantiation LOG_LEVEL :: linorder
begin

definition less_eq_LOG_LEVEL :: "LOG_LEVEL \<Rightarrow> LOG_LEVEL \<Rightarrow> bool" where
  "less_eq_LOG_LEVEL l m \<longleftrightarrow> level_num l \<le> level_num m"

definition less_LOG_LEVEL :: "LOG_LEVEL \<Rightarrow> LOG_LEVEL \<Rightarrow> bool" where
  "less_LOG_LEVEL l m \<longleftrightarrow> level_num l < level_num m"

instance
  by standard (auto simp: less_eq_LOG_LEVEL_def less_LOG_LEVEL_def)

end

lemma level_num_order [simp]: "level_num l < level_num m \<longleftrightarrow> l < m" "level_num l \<le> level_num m \<longleftrightarrow> l \<le> m"
  by (simp_all add: less_LOG_LEVEL_def less_eq_LOG_LEVEL_def)

lemma level_bounds [simp]: "LOG_TRACE \<le> l" "l \<le> LOG_FATAL"
  by (cases l; simp add: less_eq_LOG_LEVEL_def del: level_num_order)+

lemma level_examples [simp]: "LOG_INFO \<le> LOG_WARN" "\<not> LOG_INFO \<le> LOG_DEBUG"
  by (simp_all add: less_eq_LOG_LEVEL_def del: level_num_order)

definition logLevelStr :: "string list" where
  "logLevelStr = [''[ TRACE]'', ''[ DEBUG]'', ''[  INFO]'', ''[  WARN]'', ''[ ERROR]'', ''[ FATAL]'']"

text \<open>\<open>setfill\<close> and \<open>setw\<close>.\<close>

definition pad :: "char \<Rightarrow> nat \<Rightarrow> string \<Rightarrow> string" where
  "pad c w s = replicate (w - length s) c @ s"

text \<open>The fields of \<open>gmtime\<close> that the format uses; the year counts from 1900, the month from 0.\<close>

record tm =
  tm_year :: nat
  tm_mon :: nat
  tm_mday :: nat
  tm_hour :: nat
  tm_min :: nat
  tm_sec :: nat

text \<open>\<open>millis\<close> is the time since the epoch in milliseconds.\<close>

definition timestamp :: "tm \<Rightarrow> nat \<Rightarrow> string" where
  "timestamp t millis =
     (let two = (\<lambda>n. pad CHR ''0'' 2 (to_string n)) in
      pad CHR ''0'' 4 (to_string (tm_year t + 1900)) @ two (tm_mon t + 1) @ two (tm_mday t) @ '' '' @
      two (tm_hour t) @ '':'' @ two (tm_min t) @ '':'' @ two (tm_sec t) @ ''.'' @
      pad CHR ''0'' 3 (to_string (millis mod 1000)))"

text \<open>What \<open>snprintf\<close> leaves in a buffer of 4096 bytes, read as a C string.\<close>

definition format_body :: "string \<Rightarrow> string" where
  "format_body msg = takeWhile (\<lambda>c. c \<noteq> CHR 0x00) (take 4095 msg)"

text \<open>\<open>strrchr(file, '/')\<close>, and the part of the name behind it.\<close>

fun strrchr :: "char \<Rightarrow> string \<Rightarrow> string option" where
  "strrchr c [] = None"
| "strrchr c (x # xs) = (case strrchr c xs of Some r \<Rightarrow> Some r | None \<Rightarrow> if x = c then Some (x # xs) else None)"

definition file_part :: "string \<Rightarrow> string" where
  "file_part path = (case strrchr CHR ''/'' path of Some r \<Rightarrow> tl r | None \<Rightarrow> path)"

text \<open>What the environment contributes to one call.\<close>

record log_env =
  le_tm :: tm
  le_millis :: nat
  le_pid :: nat
  le_strerror :: string

definition base_line :: "log_env \<Rightarrow> string \<Rightarrow> nat \<Rightarrow> LOG_LEVEL \<Rightarrow> string \<Rightarrow> string" where
  "base_line v path line level msg =
     timestamp (le_tm v) (le_millis v) @ '' ['' @ pad CHR '' '' 5 (to_string (le_pid v)) @ '']'' @
     '' '' @ logLevelStr ! level_num level @ '' '' @ format_body msg @
     '' - '' @ file_part path @ '':'' @ to_string line @ [CHR 0x0A]"

definition sys_line :: "log_env \<Rightarrow> string \<Rightarrow> nat \<Rightarrow> bool \<Rightarrow> string \<Rightarrow> string" where
  "sys_line v path line abort msg =
     timestamp (le_tm v) (le_millis v) @ '' ['' @ pad CHR '' '' 5 (to_string (le_pid v)) @ ''] '' @
     (if abort then ''[ SYSFA] '' else ''[SYSERR] '') @ format_body msg @
     '': '' @ le_strerror v @ '' - '' @ file_part path @ '':'' @ to_string line @ [CHR 0x0A]"

section \<open>Where a line goes\<close>

text \<open>
  \<open>ofs\<close> is the name of the file the stream is open on, \<open>out_text\<close> standard output and \<open>disk\<close> the
  files. The asynchronous logger is the system of \<open>Async_Logging\<close>; \<open>flushed\<close> is everything that
  stopped loggers have handed to their files.
\<close>

record logger =
  logLevel :: LOG_LEVEL
  logFileName :: string
  ofs :: "string option"
  out_text :: string
  disk :: "string \<Rightarrow> string"
  useAsyncLogging :: bool
  asyncLogging :: "logsys option"
  flushed :: "byte list"

definition appendToAsyncLog :: "string \<Rightarrow> logger \<Rightarrow> logger result" where
  "appendToAsyncLog line g =
     (case asyncLogging g of
        None \<Rightarrow> Inr g
      | Some a \<Rightarrow>
          bindE (append_log (map of_char line) (shared a)) (\<lambda>sh.
          Inr (g\<lparr>asyncLogging := Some (a\<lparr>shared := sh, appended := appended a @ map of_char line\<rparr>)\<rparr>)))"

definition sync_write :: "string \<Rightarrow> logger \<Rightarrow> logger" where
  "sync_write line g =
     (if logFileName g = [] \<or> logFileName g = ''stdout'' then g\<lparr>out_text := out_text g @ line\<rparr>
      else case ofs g of
        None \<Rightarrow> g
      | Some f \<Rightarrow> g\<lparr>disk := (disk g)(f := disk g f @ line)\<rparr>)"

text \<open>The end that \<open>logBase\<close> and \<open>logSys\<close> share: output, then \<open>abort()\<close> where asked for (the flag).\<close>

definition emit :: "bool \<Rightarrow> string \<Rightarrow> logger \<Rightarrow> (bool \<times> logger) result" where
  "emit abort line g =
     bindE (if useAsyncLogging g \<and> \<not> abort then appendToAsyncLog line g else Inr (sync_write line g)) (\<lambda>g.
     Inr (abort, g))"

definition logBase :: "log_env \<Rightarrow> string \<Rightarrow> nat \<Rightarrow> LOG_LEVEL \<Rightarrow> bool \<Rightarrow> string \<Rightarrow> logger \<Rightarrow> (bool \<times> logger) result" where
  "logBase v path line level abort msg g =
     (if level_num level < level_num (logLevel g) then Inr (False, g)
      else emit abort (base_line v path line level msg) g)"

definition logSys :: "log_env \<Rightarrow> string \<Rightarrow> nat \<Rightarrow> bool \<Rightarrow> string \<Rightarrow> logger \<Rightarrow> (bool \<times> logger) result" where
  "logSys v path line abort msg g = emit abort (sys_line v path line abort msg) g"

text \<open>The macros; \<open>FATAL\<close> and \<open>SYSFATAL\<close> ask for \<open>abort()\<close>.\<close>

datatype log_macro = TRACE | DEBUG | INFO | WARN | ERROR | FATAL | SYSERR | SYSFATAL

fun expand :: "log_macro \<Rightarrow> log_env \<Rightarrow> string \<Rightarrow> nat \<Rightarrow> string \<Rightarrow> logger \<Rightarrow> (bool \<times> logger) result" where
  "expand TRACE v path line msg g = logBase v path line LOG_TRACE False msg g"
| "expand DEBUG v path line msg g = logBase v path line LOG_DEBUG False msg g"
| "expand INFO v path line msg g = logBase v path line LOG_INFO False msg g"
| "expand WARN v path line msg g = logBase v path line LOG_WARN False msg g"
| "expand ERROR v path line msg g = logBase v path line LOG_ERROR False msg g"
| "expand FATAL v path line msg g = logBase v path line LOG_FATAL True msg g"
| "expand SYSERR v path line msg g = logSys v path line False msg g"
| "expand SYSFATAL v path line msg g = logSys v path line True msg g"

definition default_level :: "bool \<Rightarrow> LOG_LEVEL" where
  "default_level ndebug = (if ndebug then LOG_INFO else LOG_DEBUG)"

definition setLogLevel :: "LOG_LEVEL \<Rightarrow> logger \<Rightarrow> logger" where
  "setLogLevel l g = g\<lparr>logLevel := l\<rparr>"

text \<open>\<open>canOpen\<close> says which names \<open>ofs.open\<close> can open. Opening a stream that is open fails and leaves it.\<close>

definition setLogFile :: "(string \<Rightarrow> bool) \<Rightarrow> string \<Rightarrow> logger \<Rightarrow> logger" where
  "setLogFile canOpen f g =
     (let g1 = (if 0 < length (logFileName g) \<and> logFileName g \<noteq> ''stdout'' then g\<lparr>ofs := None\<rparr> else g);
          g2 = (if f \<noteq> ''stdout'' \<and> ofs g1 = None \<and> canOpen f then g1\<lparr>ofs := Some f\<rparr> else g1) in
      g2\<lparr>logFileName := f\<rparr>)"

section \<open>Switching asynchronous logging on and off\<close>

text \<open>
  Stopping: the background thread ends its pass, if it is in one, and then flushes what is left;
  the result is what reaches the files after what had been written before.
\<close>

definition stop_async :: "logsys \<Rightarrow> byte list" where
  "stop_async a =
     (let l1 = (if collected a then (locals a)\<lparr>buffersToWrite := []\<rparr> else locals a);
          l2 = snd (final_collect (stop_log (shared a), l1)) in
      written a @ (if collected a then concat (buffersToWrite (locals a)) else []) @ concat (buffersToWrite l2))"

definition drop_async :: "logger \<Rightarrow> logger" where
  "drop_async g =
     (case asyncLogging g of
        None \<Rightarrow> g
      | Some a \<Rightarrow> g\<lparr>asyncLogging := None, flushed := flushed g @ stop_async a\<rparr>)"

definition setAsyncLogging :: "string \<Rightarrow> int \<Rightarrow> int \<Rightarrow> logger \<Rightarrow> logger" where
  "setAsyncLogging b roll flush g =
     (drop_async g)\<lparr>asyncLogging := Some \<lparr>shared = start_log (AsyncLogging_new b roll flush), locals = thread_start,
        collected = False, appended = [], written = []\<rparr>, useAsyncLogging := True\<rparr>"

definition disableAsyncLogging :: "logger \<Rightarrow> logger" where
  "disableAsyncLogging g = (drop_async g)\<lparr>useAsyncLogging := False\<rparr>"

section \<open>The text\<close>

lemma strrchr_None: "strrchr c xs = None \<longleftrightarrow> c \<notin> set xs"
  by (induction xs) (auto split: option.splits)

lemma strrchr_Some:
  "strrchr c xs = Some r \<Longrightarrow> \<exists>d. xs = d @ r \<and> r \<noteq> [] \<and> hd r = c \<and> c \<notin> set (tl r)"
proof (induction xs)
  case (Cons x xs)
  show ?case
  proof (cases "strrchr c xs")
    case None
    then have "r = x # xs" "x = c" using Cons.prems by (auto split: if_splits)
    then show ?thesis using None strrchr_None [of c xs] by (intro exI [of _ "[]"]) simp
  next
    case (Some r')
    then show ?thesis using Cons by (auto intro: exI [of _ "x # _"])
  qed
qed simp

text \<open>The file name in a line is what follows the last slash.\<close>

lemma file_part_ok: "\<exists>d. path = d @ file_part path \<and> (d = [] \<or> last d = CHR ''/'') \<and> CHR ''/'' \<notin> set (file_part path)"
proof (cases "strrchr CHR ''/'' path")
  case None
  then show ?thesis using strrchr_None [of "CHR ''/''" path] by (simp add: file_part_def)
next
  case (Some r)
  then obtain d where d: "path = d @ r" "r \<noteq> []" "hd r = CHR ''/''" "CHR ''/'' \<notin> set (tl r)"
    using strrchr_Some by blast
  then have "path = (d @ [CHR ''/'']) @ tl r" by (cases r) auto
  then show ?thesis using d(4) Some by (intro exI [of _ "d @ [CHR ''/'']"]) (simp add: file_part_def)
qed

lemma length_pad: "length (pad c w s) = max w (length s)"
  by (simp add: pad_def)

lemma length_two: "n < 100 \<Longrightarrow> length (pad CHR ''0'' 2 (to_string n)) = 2"
  using to_string_length [of 2 n] by (simp add: length_pad)

text \<open>Ordinary values: a year of four digits, the ranges of \<open>gmtime\<close>, and Linux process numbers.\<close>

definition env_ok :: "log_env \<Rightarrow> bool" where
  "env_ok v \<longleftrightarrow>
     (let t = le_tm v in tm_year t < 8100 \<and> tm_mon t < 12 \<and> tm_mday t < 32 \<and> tm_hour t < 24 \<and> tm_min t < 60 \<and> tm_sec t < 61) \<and>
     le_pid v < 2 ^ 22 \<and> length (le_strerror v) \<le> 256"

lemma length_timestamp: "env_ok v \<Longrightarrow> length (timestamp (le_tm v) (le_millis v)) = 21"
proof -
  assume "env_ok v"
  then have v: "tm_year (le_tm v) + 1900 < 10 ^ 4" "tm_mon (le_tm v) + 1 < 100" "tm_mday (le_tm v) < 100" "tm_hour (le_tm v) < 100"
      "tm_min (le_tm v) < 100" "tm_sec (le_tm v) < 100"
    by (simp_all add: env_ok_def Let_def)
  have "length (to_string (tm_year (le_tm v) + 1900)) \<le> 4" using v(1) by (intro to_string_length) simp_all
  moreover have "length (to_string (le_millis v mod 1000)) \<le> 3" by (intro to_string_length) simp_all
  moreover note length_two [OF v(2)] length_two [OF v(3)] length_two [OF v(4)] length_two [OF v(5)] length_two [OF v(6)]
  ultimately show ?thesis by (simp add: timestamp_def length_pad Let_def)
qed

lemma length_format_body: "length (format_body msg) \<le> 4095"
  using length_takeWhile_le [of "\<lambda>c. c \<noteq> CHR 0x00" "take 4095 msg"] by (simp add: format_body_def)

lemma length_pid: "env_ok v \<Longrightarrow> length (pad CHR '' '' 5 (to_string (le_pid v))) \<le> 7"
  using to_string_length [of 7 "le_pid v"] by (simp add: env_ok_def length_pad)

lemma length_level: "length (logLevelStr ! level_num l) = 8"
  by (cases l) (simp_all add: logLevelStr_def)

text \<open>Every line fits a buffer of the asynchronous logger many times over.\<close>

lemma line_bounds:
  assumes "env_ok v" and "length (file_part path) \<le> 4096" and "line < 10 ^ 10"
  shows "length (base_line v path line l msg) \<le> 8300" "length (sys_line v path line b msg) \<le> 8600"
proof -
  have n: "length (to_string line) \<le> 10" using assms(3) by (intro to_string_length) simp_all
  have "length (le_strerror v) \<le> 256" using assms(1) by (simp add: env_ok_def)
  then show "length (base_line v path line l msg) \<le> 8300" "length (sys_line v path line b msg) \<le> 8600"
    using n assms(2) length_timestamp [OF assms(1)] length_pid [OF assms(1)] length_format_body [of msg] length_level [of l]
    by (simp_all add: base_line_def sys_line_def)
qed

section \<open>The synchronous sinks refine a router\<close>



datatype log_op =
    Base log_env string nat LOG_LEVEL string
  | Sys log_env string nat string
  | SetLevel LOG_LEVEL
  | SetFile string




text \<open>The calls of the interface, with \<open>abort\<close> off.\<close>

fun call_op :: "(string \<Rightarrow> bool) \<Rightarrow> log_op \<Rightarrow> logger \<Rightarrow> logger result" where
  "call_op canOpen (Base v path line l msg) g = mapE snd (logBase v path line l False msg g)"
| "call_op canOpen (Sys v path line msg) g = mapE snd (logSys v path line False msg g)"
| "call_op canOpen (SetLevel l) g = Inr (setLogLevel l g)"
| "call_op canOpen (SetFile f) g = Inr (setLogFile canOpen f g)"






section \<open>The asynchronous sink\<close>

text \<open>No buffer ever outgrows the space reserved for it.\<close>

definition buffers_fit :: "logsys \<Rightarrow> bool" where
  "buffers_fit a \<longleftrightarrow> (\<forall>b \<in> set (buffers (shared a)) \<union> set_option (currentBuffer (shared a)) \<union>
     set_option (nextBuffer (shared a)) \<union> set (buffersToWrite (locals a)). length b < kBufferSize)"

lemma append_fits:
  assumes "buffers_fit a" and "log_inv a" and "length line < kBufferSize" and "append_log line (shared a) = Inr sh"
  shows "buffers_fit (a\<lparr>shared := sh, appended := ap\<rparr>)"
proof -
  have n: "nextBuffer (shared a) = None \<or> nextBuffer (shared a) = Some []" using assms(2) by (auto simp: log_inv_def Let_def)
  obtain b where b: "currentBuffer (shared a) = Some b" using assms(2) by (auto simp: log_inv_def Let_def)
  show ?thesis
  proof (cases "length b + length line < kBufferSize")
    case True
    then have "sh = (shared a)\<lparr>currentBuffer := Some (b @ line)\<rparr>" using assms(4) b by (simp add: append_log_def)
    then show ?thesis using assms(1) True by (auto simp: buffers_fit_def)
  next
    case False
    then show ?thesis using assms n b by (auto simp: append_log_def buffers_fit_def Let_def)
  qed
qed

text \<open>A step of the background thread: one that appends nothing.\<close>

definition thread_step :: "logsys \<Rightarrow> logsys \<Rightarrow> bool" where
  "thread_step a a' \<longleftrightarrow> log_step a a' \<and> appended a' = appended a"

lemma thread_step_fits:
  assumes "thread_step a a'" and inv: "log_inv a" and fit: "buffers_fit a"
  shows "buffers_fit a'"
proof -
  have step: "log_step a a'" and same: "appended a' = appended a" using assms(1) by (simp_all add: thread_step_def)
  have k: "0 < kBufferSize" by (simp add: kBufferSize_def)
  from step show ?thesis
  proof (cases rule: log_step.cases)
    case (log_append line sh)
    then show ?thesis using same by simp
  next
    case (log_collect sh lo)
    obtain b where b: "currentBuffer (shared a) = Some b" using inv by (auto simp: log_inv_def Let_def)
    have lo: "locals a = thread_start" using inv log_collect(2) by (auto simp: log_inv_def Let_def)
    have "sh = push_current (shared a)\<lparr>currentBuffer := Some [], buffers := [],
        nextBuffer := Some (case nextBuffer (shared a) of None \<Rightarrow> [] | Some n \<Rightarrow> n)\<rparr>" "buffersToWrite lo = pending (shared a)"
      using log_collect(5) collect_primed [OF b] unfolding lo by auto
    then show ?thesis
      using log_collect(1) fit b k by (auto simp: buffers_fit_def pending_def split: option.splits if_splits)
  next
    case (log_write lo)
    then have "lo = thread_start" using write_inv [OF inv] by simp
    then show ?thesis using log_write(1) fit by (auto simp: buffers_fit_def thread_start_def)
  qed
qed

text \<open>Stopping the logger hands over everything that was appended.\<close>

lemma stop_async_complete:
  assumes inv: "log_inv a" shows "stop_async a = appended a"
proof -
  obtain b where b: "currentBuffer (shared a) = Some b" using inv by (auto simp: log_inv_def Let_def)
  have s: "currentBuffer (stop_log (shared a)) = Some b" "pending (stop_log (shared a)) = pending (shared a)"
    using b by (simp_all add: stop_log_def pending_def)
  have "buffersToWrite (snd (final_collect (stop_log (shared a), l))) = pending (shared a)" if "buffersToWrite l = []" for l
    using that push_current_pending(1) [OF s(1)] s(2) by (auto simp: final_collect_def Let_def)
  then show ?thesis
    using inv by (auto simp: stop_async_def log_inv_def thread_start_def Let_def)
qed

text \<open>
  A program that logs: calls of the interface, with ordinary values, steps of the background
  thread, and switching asynchronous logging on and off. The second component of the state is the
  history: the bytes of all lines given to an asynchronous logger.
\<close>

definition op_ok :: "log_op \<Rightarrow> bool" where
  "op_ok x \<longleftrightarrow>
     (case x of
        Base v path line l msg \<Rightarrow> env_ok v \<and> length (file_part path) \<le> 4096 \<and> line < 10 ^ 10
      | Sys v path line msg \<Rightarrow> env_ok v \<and> length (file_part path) \<le> 4096 \<and> line < 10 ^ 10
      | _ \<Rightarrow> True)"

definition op_line :: "log_op \<Rightarrow> logger \<Rightarrow> string" where
  "op_line x g =
     (case x of
        Base v path line l msg \<Rightarrow> if logLevel g \<le> l then base_line v path line l msg else []
      | Sys v path line msg \<Rightarrow> sys_line v path line False msg
      | _ \<Rightarrow> [])"

inductive prog_step :: "(string \<Rightarrow> bool) \<Rightarrow> logger \<times> byte list \<Rightarrow> logger \<times> byte list \<Rightarrow> bool"
  for canOpen :: "string \<Rightarrow> bool" where
  prog_call: "op_ok x \<Longrightarrow> call_op canOpen x g = Inr g' \<Longrightarrow>
     prog_step canOpen (g, h) (g', h @ (if useAsyncLogging g then map of_char (op_line x g) else []))"
| prog_thread: "asyncLogging g = Some a \<Longrightarrow> thread_step a a' \<Longrightarrow> prog_step canOpen (g, h) (g\<lparr>asyncLogging := Some a'\<rparr>, h)"
| prog_enable: "prog_step canOpen (g, h) (setAsyncLogging b roll fl g, h)"
| prog_disable: "prog_step canOpen (g, h) (disableAsyncLogging g, h)"

definition prog_init :: "logger \<times> byte list \<Rightarrow> bool" where
  "prog_init s \<longleftrightarrow> (\<exists>l d. l \<in> range default_level \<and> s = (\<lparr>logLevel = l, logFileName = [], ofs = None, out_text = [], disk = d,
     useAsyncLogging = False, asyncLogging = None, flushed = []\<rparr>, []))"

definition prog_inv :: "logger \<times> byte list \<Rightarrow> bool" where
  "prog_inv s \<longleftrightarrow>
     (let (g, h) = s in
      case asyncLogging g of
        None \<Rightarrow> \<not> useAsyncLogging g \<and> h = flushed g
      | Some a \<Rightarrow> useAsyncLogging g \<and> h = flushed g @ appended a \<and> log_inv a \<and> buffers_fit a)"

lemma append_async:
  assumes "prog_inv (g, h)" and "asyncLogging g = Some a" and "line \<noteq> []" and "length line < kBufferSize"
  shows "\<exists>g'. appendToAsyncLog line g = Inr g' \<and> prog_inv (g', h @ map of_char line)"
proof -
  have inv: "log_inv a" "buffers_fit a" "useAsyncLogging g" "h = flushed g @ appended a"
    using assms(1,2) by (simp_all add: prog_inv_def)
  obtain sh where sh: "append_log (map of_char line) (shared a) = Inr sh" using append_log_total [OF inv(1)] by blast
  have "log_inv (a\<lparr>shared := sh, appended := appended a @ map of_char line\<rparr>)"
    using append_log_inv [OF inv(1) _ sh] assms(3) by simp
  moreover have "buffers_fit (a\<lparr>shared := sh, appended := appended a @ map of_char line\<rparr>)"
    using append_fits [OF inv(2,1) _ sh] assms(4) by simp
  ultimately show ?thesis
    using sh assms(2) inv(3,4) by (simp add: appendToAsyncLog_def prog_inv_def)
qed

lemma op_line_fits: "op_ok x \<Longrightarrow> length (op_line x g) < kBufferSize"
proof (cases x)
  case (Base v path line l msg)
  then show "op_ok x \<Longrightarrow> ?thesis"
    using line_bounds(1) [of v path line l msg] by (auto simp: op_ok_def op_line_def kBufferSize_def)
next
  case (Sys v path line msg)
  then show "op_ok x \<Longrightarrow> ?thesis"
    using line_bounds(2) [of v path line False msg] by (auto simp: op_ok_def op_line_def kBufferSize_def)
qed (simp_all add: op_line_def kBufferSize_def)

lemma line_not_Nil: "base_line v path line l msg \<noteq> []" "sys_line v path line b msg \<noteq> []"
  by (simp_all add: base_line_def sys_line_def)

lemma prog_inv_frame:
  assumes "prog_inv (g, h)" and "asyncLogging g' = asyncLogging g" and "useAsyncLogging g' = useAsyncLogging g"
    and "flushed g' = flushed g"
  shows "prog_inv (g', h)"
  using assms by (simp add: prog_inv_def split: option.splits)

lemma sync_write_frame [simp]:
  "asyncLogging (sync_write line g) = asyncLogging g" "useAsyncLogging (sync_write line g) = useAsyncLogging g"
  "flushed (sync_write line g) = flushed g"
  by (simp_all add: sync_write_def split: option.splits)

lemma setLogFile_frame [simp]:
  "asyncLogging (setLogFile c f g) = asyncLogging g" "useAsyncLogging (setLogFile c f g) = useAsyncLogging g"
  "flushed (setLogFile c f g) = flushed g"
  by (simp_all add: setLogFile_def Let_def)

text \<open>One line through \<open>emit\<close>.\<close>

lemma emit_inv:
  assumes inv: "prog_inv (g, h)" and "line \<noteq> []" and "length line < kBufferSize"
  shows "\<exists>g'. emit False line g = Inr (False, g') \<and>
     prog_inv (g', h @ (if useAsyncLogging g then map of_char line else []))"
proof (cases "asyncLogging g")
  case None
  then have "\<not> useAsyncLogging g" using inv by (simp add: prog_inv_def)
  then show ?thesis using prog_inv_frame [OF inv, of "sync_write line g"] by (simp add: emit_def)
next
  case (Some a)
  then have "useAsyncLogging g" using inv by (simp add: prog_inv_def)
  then show ?thesis using append_async [OF inv Some assms(2,3)] by (auto simp: emit_def)
qed

lemma call_op_inv:
  assumes inv: "prog_inv (g, h)" and ok: "op_ok x"
  shows "\<exists>g'. call_op canOpen x g = Inr g' \<and>
     prog_inv (g', h @ (if useAsyncLogging g then map of_char (op_line x g) else []))"
proof (cases x)
  case (Base v path line l msg)
  have "length (base_line v path line l msg) < kBufferSize"
    using line_bounds(1) [of v path line l msg] ok Base by (auto simp: op_ok_def kBufferSize_def)
  from emit_inv [OF inv line_not_Nil(1) this] obtain g' where
      "emit False (base_line v path line l msg) g = Inr (False, g')"
      "prog_inv (g', h @ (if useAsyncLogging g then map of_char (base_line v path line l msg) else []))" by blast
  then show ?thesis using Base inv by (auto simp: logBase_def op_line_def)
next
  case (Sys v path line msg)
  then have "length (sys_line v path line False msg) < kBufferSize" using op_line_fits [OF ok, of g] by (simp add: op_line_def)
  from emit_inv [OF inv line_not_Nil(2) this] obtain g' where
      "emit False (sys_line v path line False msg) g = Inr (False, g')"
      "prog_inv (g', h @ (if useAsyncLogging g then map of_char (sys_line v path line False msg) else []))" by blast
  then show ?thesis using Sys by (auto simp: logSys_def op_line_def)
next
  case (SetLevel l)
  then show ?thesis using prog_inv_frame [OF inv, of "setLogLevel l g"] by (simp add: setLogLevel_def op_line_def)
next
  case (SetFile f)
  then show ?thesis using prog_inv_frame [OF inv, of "setLogFile canOpen f g"] by (simp add: op_line_def)
qed

lemma drop_async_inv:
  assumes "prog_inv (g, h)" shows "asyncLogging (drop_async g) = None" "flushed (drop_async g) = h"
  using assms stop_async_complete by (auto simp: drop_async_def prog_inv_def split: option.splits)

interpretation prog_run: inductive_invariant prog_init "prog_step canOpen" prog_inv for canOpen
proof
  fix s
  assume "prog_init s"
  then show "prog_inv s" by (auto simp: prog_init_def prog_inv_def)
next
  fix s t
  assume inv: "prog_inv s" and "prog_step canOpen s t"
  from this(2) show "prog_inv t"
  proof (cases rule: prog_step.cases)
    case (prog_call x g g' h)
    then show ?thesis using call_op_inv [of g h x canOpen] inv by auto
  next
    case (prog_thread g a a' h)
    then have "log_inv a'" "buffers_fit a'"
      using inv log_run.step_inv thread_step_fits by (auto simp: prog_inv_def thread_step_def)
    then show ?thesis using prog_thread inv by (simp add: prog_inv_def thread_step_def)
  next
    case (prog_enable g h b roll fl)
    have "logsys_init \<lparr>shared = start_log (AsyncLogging_new b roll fl), locals = thread_start,
        collected = False, appended = [], written = []\<rparr>"
      by (auto simp: logsys_init_def)
    then show ?thesis
      using prog_enable drop_async_inv [of g h] inv log_run.init_inv
      by (simp add: setAsyncLogging_def prog_inv_def buffers_fit_def start_log_def AsyncLogging_new_def thread_start_def
          kBufferSize_def)
  next
    case (prog_disable g h)
    then show ?thesis using drop_async_inv [of g h] inv by (simp add: disableAsyncLogging_def prog_inv_def)
  qed
qed

section \<open>Properties\<close>


definition quiet_logger :: logger where
  "quiet_logger = \<lparr>logLevel = LOG_INFO, logFileName = [], ofs = None, out_text = [], disk = (\<lambda>_. []),
     useAsyncLogging = False, asyncLogging = None, flushed = []\<rparr>"

definition noon :: log_env where
  "noon = \<lparr>le_tm = \<lparr>tm_year = 124, tm_mon = 0, tm_mday = 2, tm_hour = 12, tm_min = 0, tm_sec = 5\<rparr>,
     le_millis = 7, le_pid = 42, le_strerror = ''Success''\<rparr>"



definition demo_logger :: logger where
  "demo_logger = setAsyncLogging ''app'' 1000 3 quiet_logger"

text \<open>
  Which macros end the program, and that their last line is never left in the asynchronous logger: it
  goes to the synchronous sink.
\<close>

lemma abort_lines:
  assumes "prog_inv (g, h)" and "op_ok (Sys v path line msg)"
  shows "\<exists>g'. expand m v path line msg g = Inr (m \<in> {FATAL, SYSFATAL}, g') \<and>
    (m \<in> {FATAL, SYSFATAL} \<longrightarrow> asyncLogging g' = asyncLogging g \<and>
       g' = sync_write (if m = FATAL then base_line v path line LOG_FATAL msg else sys_line v path line True msg) g)"
proof -
  have base: "\<exists>g'. logBase v path line l False msg g = Inr (False, g')" for l
    using emit_inv [OF assms(1) line_not_Nil(1) op_line_fits [of "Base v path line l msg" "g\<lparr>logLevel := LOG_TRACE\<rparr>", unfolded op_line_def, simplified]]
      assms(2) by (auto simp: logBase_def op_ok_def)
  moreover have "\<exists>g'. logSys v path line False msg g = Inr (False, g')"
    using call_op_inv [OF assms, of "\<lambda>_. True"] emit_inv [OF assms(1) line_not_Nil(2) op_line_fits [OF assms(2), of g, unfolded op_line_def, simplified]]
    by (auto simp: logSys_def)
  moreover have "logBase v path line LOG_FATAL True msg g = Inr (True, sync_write (base_line v path line LOG_FATAL msg) g)"
    using level_bounds(2) [of "logLevel g"] by (simp add: logBase_def emit_def not_less [symmetric] del: level_bounds level_num.simps)
  moreover have "logSys v path line True msg g = Inr (True, sync_write (sys_line v path line True msg) g)"
    by (simp add: logSys_def emit_def)
  ultimately show ?thesis by (cases m) simp_all
qed

lemma noon_ok: "op_ok (Base noon ''src/x.cpp'' 3 LOG_WARN ''hi'')"
  by (simp add: op_ok_def env_ok_def noon_def file_part_def)

lemma demo_logger_reach:
  "\<exists>g. call_op (\<lambda>_. True) (Base noon ''src/x.cpp'' 3 LOG_WARN ''hi'') demo_logger = Inr g \<and>
     reach prog_init (prog_step (\<lambda>_. True)) (g, map of_char (base_line noon ''src/x.cpp'' 3 LOG_WARN ''hi''))"
proof -
  have "prog_init (quiet_logger, [])" by (auto simp: prog_init_def quiet_logger_def default_level_def intro!: rev_image_eqI [of True])
  then have r: "reach prog_init (prog_step (\<lambda>_. True)) (demo_logger, [])"
    unfolding demo_logger_def by (rule reach_step [OF reach_init]) (rule prog_enable)
  have inv: "prog_inv (demo_logger, [])" using r by (rule prog_run.reachable_inv)
  obtain g where g: "call_op (\<lambda>_. True) (Base noon ''src/x.cpp'' 3 LOG_WARN ''hi'') demo_logger = Inr g"
    using call_op_inv [OF inv noon_ok] by blast
  have "useAsyncLogging demo_logger" "logLevel demo_logger = LOG_INFO"
    by (simp_all add: demo_logger_def setAsyncLogging_def drop_async_def quiet_logger_def)
  then have h: "[] @ (if useAsyncLogging demo_logger
        then map of_char (op_line (Base noon ''src/x.cpp'' 3 LOG_WARN ''hi'') demo_logger) else []) =
      map of_char (base_line noon ''src/x.cpp'' 3 LOG_WARN ''hi'')"
    by (simp add: op_line_def)
  have "prog_step (\<lambda>_. True) (demo_logger, []) (g, [] @ (if useAsyncLogging demo_logger
        then map of_char (op_line (Base noon ''src/x.cpp'' 3 LOG_WARN ''hi'') demo_logger) else []))"
    using noon_ok g by (rule prog_call)
  then have "reach prog_init (prog_step (\<lambda>_. True)) (g, map of_char (base_line noon ''src/x.cpp'' 3 LOG_WARN ''hi''))"
    unfolding h by (rule reach_step [OF r])
  then show ?thesis using g by blast
qed


text \<open>C36: Log lines and log buffers are bounded. A line of a program with ordinary values has at most 8600
  characters, whatever the message (it is cut at 4095), so its length fits an \<open>int\<close> and a buffer;
  and in every state of a logging program no buffer of the asynchronous logger is longer than the
  64 KB reserved for it, so that appending never reallocates. The text starts with a time stamp of 21
  characters and names the file without its directory.\<close>

theorem log_lines_bounded:
  assumes "env_ok v" and "length (file_part path) \<le> 4096" and "line < 10 ^ 10"
    and "reach prog_init (prog_step canOpen) (g, h)" and "asyncLogging g = Some a"
  shows "length (base_line v path line l msg) \<le> 8600 \<and> length (sys_line v path line b msg) \<le> 8600 \<and>
     length (timestamp (le_tm v) (le_millis v)) = 21 \<and>
     (\<exists>d. path = d @ file_part path \<and> (d = [] \<or> last d = CHR ''/'') \<and> CHR ''/'' \<notin> set (file_part path)) \<and>
     (\<forall>c \<in> set (buffers (shared a)) \<union> set_option (currentBuffer (shared a)) \<union> set (buffersToWrite (locals a)).
        length c < kBufferSize)"
proof -
  have "buffers_fit a" using prog_run.reachable_inv [OF assms(4)] assms(5) by (simp add: prog_inv_def)
  then have "\<forall>c \<in> set (buffers (shared a)) \<union> set_option (currentBuffer (shared a)) \<union> set (buffersToWrite (locals a)).
        length c < kBufferSize" unfolding buffers_fit_def by blast
  moreover have "length (base_line v path line l msg) \<le> 8600"
    using line_bounds(1) [OF assms(1-3), of l msg] by simp
  ultimately show ?thesis
    using line_bounds(2) [OF assms(1-3), of b msg] length_timestamp [OF assms(1)] file_part_ok [of path] by simp
qed

theorem log_lines_bounded_witness:
  "length (base_line noon ''src/x.cpp'' 3 LOG_WARN (replicate 9000 CHR ''x'')) \<le> 8600"
proof -
  obtain g where g: "reach prog_init (prog_step (\<lambda>_. True)) (g, map of_char (base_line noon ''src/x.cpp'' 3 LOG_WARN ''hi''))"
     "call_op (\<lambda>_. True) (Base noon ''src/x.cpp'' 3 LOG_WARN ''hi'') demo_logger = Inr g"
    using demo_logger_reach by blast
  have "logLevel demo_logger = LOG_INFO" "asyncLogging demo_logger \<noteq> None" "useAsyncLogging demo_logger"
    by (simp_all add: demo_logger_def setAsyncLogging_def drop_async_def quiet_logger_def)
  then obtain a where "asyncLogging g = Some a"
    using g(2) by (auto simp: logBase_def emit_def appendToAsyncLog_def result_iffs split: option.splits)
  then show ?thesis
    using log_lines_bounded [OF _ _ _ g(1), of noon "''src/x.cpp''" 3] noon_ok by (simp add: op_ok_def)
qed

end
