(* ===== verification/Legacy_Server.thy ===== *)
theory Legacy_Server
  imports Buffer Loop_Lifecycle Thread_Pools
begin

text \<open>
  The older interface: \<open>Connection\<close> (src/Connection.cpp), an echoing connection, and \<open>Server\<close>
  (src/Server.cpp), which keeps such connections by descriptor and spreads them over loops that it
  runs on a thread pool. The answers of the system calls are arguments.
\<close>

section \<open>Connection\<close>

record lconn =
  lc_fd :: int
  lc_chan :: channel
  lc_buf :: buffer
  lc_hasDelete :: bool

text \<open>
  \<open>lconns\<close> is \<open>connections\<close>, \<open>lout\<close> records what was written, \<open>lclosed\<close> the descriptors closed;
  \<open>reactors\<close> is the number of loops and \<open>rkernel\<close> the poller of each.
\<close>

record 'k lserver =
  lconns :: "int \<rightharpoonup> lconn"
  lout :: "(int \<times> byte list) list"
  lclosed :: "int list"
  reactors :: nat
  rkernel :: "nat \<Rightarrow> 'k"

definition Connection_new :: "'k epoll_ctl \<Rightarrow> bool \<Rightarrow> nat \<Rightarrow> int \<Rightarrow> 'k \<Rightarrow> (lconn \<times> 'k) result" where
  "Connection_new ctl inl p f k =
     bindE (enableRead ctl inl p (Channel_new f, k)) (\<lambda>(ch, k').
     let ch1 = setUseThreadPool True (setReadCallback True (useET ch)) in
     bindE (Buffer_new kInitialSize) (\<lambda>b.
     Inr (\<lparr>lc_fd = f, lc_chan = ch1, lc_buf = b, lc_hasDelete = False\<rparr>, k')))"

text \<open>The destructor: the channel's own destructor checks that no event is being handled.\<close>

definition Connection_delete :: "lconn \<Rightarrow> int list result" where
  "Connection_delete c = bindE (Channel_delete (lc_chan c)) (\<lambda>_. Inr (Socket_delete (lc_fd c)))"

definition setDeleteConnectionCallBack :: "bool \<Rightarrow> lconn \<Rightarrow> lconn" where
  "setDeleteConnectionCallBack cb c = c\<lparr>lc_hasDelete := cb\<rparr>"

section \<open>Server\<close>

definition deleteConnection :: "int \<Rightarrow> 'k lserver \<Rightarrow> 'k lserver result" where
  "deleteConnection f s =
     (if f = - 1 then Inr s
      else case lconns s f of
        None \<Rightarrow> Inr s
      | Some c \<Rightarrow>
          bindE (Connection_delete c) (\<lambda>fds.
          Inr (s\<lparr>lconns := (lconns s)(f := None), lclosed := lclosed s @ fds\<rparr>)))"

text \<open>
  \<open>inl\<close> says of each loop whether the calling thread is its thread, \<open>p\<close> is the address of the new
  channel. Without loops the remainder is a division by zero.
\<close>

definition newConnection_legacy ::
  "'k epoll_ctl \<Rightarrow> (nat \<Rightarrow> bool) \<Rightarrow> nat \<Rightarrow> int \<Rightarrow> 'k lserver \<Rightarrow> 'k lserver result" where
  "newConnection_legacy ctl inl p f s =
     (if f = - 1 then Inr s
      else if reactors s = 0 then Inl Div_by_zero
      else
        let i = nat f mod reactors s in
        bindE (Socket_new f) (\<lambda>f.
        bindE (Connection_new ctl (inl i) p f (rkernel s i)) (\<lambda>(c, k).
        Inr (s\<lparr>lconns := (lconns s)(f \<mapsto> setDeleteConnectionCallBack True c), rkernel := (rkernel s)(i := k)\<rparr>))))"

section \<open>Echo\<close>

text \<open>\<open>printf("%s", c_str())\<close> reads up to a zero byte.\<close>

definition terminated :: "buffer \<Rightarrow> bool" where
  "terminated b \<longleftrightarrow> 0 \<in> set (drop (c_str b) (storage b))"

text \<open>The branch for EAGAIN: \<open>wr\<close> is what \<open>write\<close> answers, its count is not looked at.\<close>

definition echo_write :: "(byte list \<Rightarrow> errno + nat) \<Rightarrow> int \<Rightarrow> lconn \<Rightarrow> 'k lserver \<Rightarrow> 'k lserver result" where
  "echo_write wr f c s =
     (if \<not> terminated (lc_buf c) then Inl Out_of_bounds
      else
        let data = take (nat (size_b (lc_buf c))) (drop (c_str (lc_buf c)) (storage (lc_buf c))) in
        case wr data of
          Inl e \<Rightarrow> Inl Exit_failure
        | Inr n \<Rightarrow> Inr (s\<lparr>lout := lout s @ [(f, take n data)]\<rparr>))"

text \<open>\<open>deleteConnectionCallBack(sockfd)\<close>: calling an empty \<open>std::function\<close> throws.\<close>

definition call_delete :: "int \<Rightarrow> lconn \<Rightarrow> 'k lserver \<Rightarrow> 'k lserver result" where
  "call_delete f c s = (if lc_hasDelete c then deleteConnection f s else Inl Runtime_error)"

text \<open>
  \<open>echo\<close>: the argument lists what \<open>read\<close> answers until the socket has no more data; after that it
  answers EAGAIN. No bytes means end of file.
\<close>

fun echo ::
  "(byte list \<Rightarrow> errno + nat) \<Rightarrow> (errno + byte list) list \<Rightarrow> int \<Rightarrow> 'k lserver \<Rightarrow> 'k lserver result" where
  "echo wr [] f s = (case lconns s f of None \<Rightarrow> Inl Use_after_free | Some c \<Rightarrow> echo_write wr f c s)"
| "echo wr (r # rs) f s =
     (case lconns s f of
        None \<Rightarrow> Inl Use_after_free
      | Some c \<Rightarrow>
          (case r of
             Inr [] \<Rightarrow> call_delete f c s
           | Inr (x # xs) \<Rightarrow>
               bindE (append_b (x # xs) (lc_buf c)) (\<lambda>b.
               echo wr rs f (s\<lparr>lconns := (lconns s)(f \<mapsto> c\<lparr>lc_buf := b\<rparr>)\<rparr>))
           | Inl e \<Rightarrow>
               if e = EINTR then echo wr rs f s
               else if e = EAGAIN then echo_write wr f c s
               else call_delete f c s))"

text \<open>The event loop dispatches an event to the connection's channel, whose only callback is \<open>echo\<close>.\<close>

definition lchan :: "int \<Rightarrow> 'k lserver \<Rightarrow> channel" where
  "lchan f s = (case lconns s f of None \<Rightarrow> Channel_new f | Some c \<Rightarrow> lc_chan c)"

definition upd_lchan :: "int \<Rightarrow> (channel \<Rightarrow> channel) \<Rightarrow> 'k lserver \<Rightarrow> 'k lserver" where
  "upd_lchan f g s = s\<lparr>lconns := (lconns s)(f := map_option (\<lambda>c. c\<lparr>lc_chan := g (lc_chan c)\<rparr>) (lconns s f))\<rparr>"

definition connection_event ::
  "bool \<Rightarrow> (byte list \<Rightarrow> errno + nat) \<Rightarrow> (errno + byte list) list \<Rightarrow> int \<Rightarrow> 'k lserver \<Rightarrow> 'k lserver result" where
  "connection_event inl wr rs f s = handleEvents inl (\<lambda>_. True) (lchan f) (upd_lchan f) (\<lambda>_. echo wr rs f) s"

text \<open>
  \<open>Connection::send\<close>: the loop over \<open>write\<close>, with the answers it gets. The first component is what
  has been written; \<open>None\<close> means that the loop is still running when the answers are used up.
\<close>

fun send_legacy :: "(errno + nat) list \<Rightarrow> byte list \<Rightarrow> byte list option" where
  "send_legacy rs [] = Some []"
| "send_legacy [] (x # xs) = None"
| "send_legacy (r # rs) (x # xs) =
     (case r of
        Inl e \<Rightarrow> Some []
      | Inr n \<Rightarrow> map_option (\<lambda>out. take n (x # xs) @ out) (send_legacy rs (drop n (x # xs))))"

section \<open>Starting the server\<close>

text \<open>The descriptors and addresses of one event loop.\<close>

record loop_env =
  le_wake :: int
  le_timer :: int
  le_addr :: nat
  le_wakeCh :: nat
  le_timerCh :: nat

definition make_loop ::
  "'k epoll_ctl \<Rightarrow> 'k \<Rightarrow> (nat \<Rightarrow> loop_env) \<Rightarrow> int \<Rightarrow> nat \<Rightarrow> 'k loopobj list \<times> (int \<rightharpoonup> nat) \<Rightarrow>
   ('k loopobj list \<times> (int \<rightharpoonup> nat)) result" where
  "make_loop ctl k0 env cur i s =
     (let (ls, tls) = s; v = env i in
      bindE (EventLoop_new ctl True (le_wake v) (le_timer v) (le_addr v) (le_wakeCh v) (le_timerCh v) cur k0 tls) (\<lambda>(l, tls').
      Inr (ls @ [l], tls')))"

text \<open>
  The constructor: the acceptor, the pool with one thread per core, the loops, and one task per
  loop. A task is the index of the loop it runs.
\<close>

definition Server_new ::
  "'k epoll_ctl \<Rightarrow> 'k \<Rightarrow> (nat \<Rightarrow> loop_env) \<Rightarrow> int \<Rightarrow> int \<Rightarrow> nat \<Rightarrow> sockaddr_in \<Rightarrow> (int \<rightharpoonup> nat) \<Rightarrow>
   (acceptor \<times> 'k loopobj list \<times> nat tpool \<times> (int \<rightharpoonup> nat)) result" where
  "Server_new ctl k0 env cur afd cores lo tls =
     bindE (Acceptor_new afd False False lo) (\<lambda>a.
     bindE (foldE (make_loop ctl k0 env cur) [0..<cores] ([], tls)) (\<lambda>(ls, tls').
     bindE (foldE add_task [0..<cores] (ThreadPool_new (int cores))) (\<lambda>pool.
     Inr (setNewConnectionCallback True a, ls, pool, tls'))))"

text \<open>A worker thread \<open>w\<close> begins \<open>EventLoop::loop\<close> of a loop.\<close>

definition enter_loop :: "int \<Rightarrow> 'k loopobj \<Rightarrow> unit result" where
  "enter_loop w l = assertE (owner_tid l = w)"

text \<open>
  The destructor. First every loop is asked to quit and the pool to stop (\<open>evs\<close> are the task queues of
  the loops); the destructor of the pool then waits for the workers, which is the matter of
  \<open>Thread_Pools\<close>. After that the loops, the acceptor and the connections are deleted: \<open>parts\<close> are the loops
  with their pollers and timers, \<open>order\<close> is the order in which the map of connections is traversed.
\<close>

definition Server_stop ::
  "'w eventfd \<Rightarrow> int \<Rightarrow> ('t, 'w) eventloop list \<times> 'p tpool \<Rightarrow> ('t, 'w) eventloop list \<times> 'p tpool" where
  "Server_stop e cur s = (let (evs, pool) = s in (map (quit e cur) evs, set_stop pool))"

definition Server_free ::
  "'k epoll_ctl \<Rightarrow> int \<Rightarrow> (int \<times> ('c, 'e, 'u) tq \<times> 'k loopobj) list \<Rightarrow> acceptor \<Rightarrow> int list \<Rightarrow> (int \<rightharpoonup> lconn) \<Rightarrow> (int \<rightharpoonup> nat) \<Rightarrow>
   (int list \<times> (int \<rightharpoonup> nat)) result" where
  "Server_free ctl cur parts a order conns tls =
     bindE (foldE (\<lambda>(epfd, q, l) (fds, tls).
        bindE (EventLoop_destroy ctl cur epfd q l tls) (\<lambda>(lfds, _, tls'). Inr (fds @ lfds, tls'))) parts ([], tls)) (\<lambda>(fds, tls').
     bindE (Acceptor_delete a) (\<lambda>afds.
     bindE (foldE (\<lambda>f fds. case conns f of None \<Rightarrow> Inr fds | Some c \<Rightarrow> mapE (\<lambda>cf. fds @ cf) (Connection_delete c)) order (fds @ afds))
       (\<lambda>all.
     Inr (all, tls'))))"

section \<open>Lemmas\<close>

lemma echo_write_contents:
  assumes "buffer_inv (lc_buf c)" and "wr (contents (lc_buf c)) = Inr (length (contents (lc_buf c)))"
  shows "echo_write wr f c s =
     (if terminated (lc_buf c) then Inr (s\<lparr>lout := lout s @ [(f, contents (lc_buf c))]\<rparr>) else Inl Out_of_bounds)"
proof -
  have "take (nat (size_b (lc_buf c))) (drop (c_str (lc_buf c)) (storage (lc_buf c))) = contents (lc_buf c)"
    using readable_prefix [OF assms(1), of "readableBytes (lc_buf c)"] length_contents [OF assms(1)]
    by (simp add: size_b_def c_str_def)
  then show ?thesis using assms(2) by (simp add: echo_write_def Let_def)
qed

text \<open>Answers that deliver data or say that the read was interrupted, and the data they deliver.\<close>

definition data_only :: "(errno + byte list) list \<Rightarrow> bool" where
  "data_only rs \<longleftrightarrow> (\<forall>r \<in> set rs. r = Inl EINTR \<or> (\<exists>d. r = Inr d \<and> d \<noteq> []))"

definition received :: "(errno + byte list) list \<Rightarrow> byte list" where
  "received rs = concat (map (case_sum (\<lambda>_. []) (\<lambda>d. d)) rs)"

lemma received_simps [simp]:
  "received [] = []" "received (Inl e # rs) = received rs" "received (Inr d # rs) = d @ received rs"
  by (simp_all add: received_def)

text \<open>They are consumed into the buffer, in order, before the next answer is looked at.\<close>

lemma echo_data:
  assumes "data_only rs" and "lconns s f = Some c" and "buffer_inv (lc_buf c)"
    and "writerIndex (lc_buf c) + length (received rs) \<le> max_size"
  shows "\<exists>b. buffer_inv b \<and> contents b = contents (lc_buf c) @ received rs \<and>
     echo wr (rs @ rest) f s = echo wr rest f (s\<lparr>lconns := (lconns s)(f \<mapsto> c\<lparr>lc_buf := b\<rparr>)\<rparr>)"
  using assms
proof (induction rs arbitrary: s c)
  case Nil
  have "(lconns s)(f \<mapsto> c) = lconns s" using Nil.prems(2) by (simp add: fun_upd_idem)
  then show ?case using Nil.prems by (intro exI [of _ "lc_buf c"]) simp
next
  case (Cons r rs)
  have rest: "data_only rs" using Cons.prems(1) by (simp add: data_only_def)
  show ?case
  proof (cases "r = Inl EINTR")
    case True
    then show ?thesis using Cons.IH [OF rest, of s c] Cons.prems by simp
  next
    case False
    then obtain d where d: "r = Inr d" "d \<noteq> []" using Cons.prems(1) by (auto simp: data_only_def)
    then obtain x xs where x: "d = x # xs" by (cases d) auto
    have fits: "writerIndex (lc_buf c) + length d + length (received rs) \<le> max_size"
      using Cons.prems(4) d by simp
    then obtain b1 where b1: "append_b d (lc_buf c) = Inr b1" "buffer_inv b1" "contents b1 = contents (lc_buf c) @ d"
        "writerIndex b1 \<le> writerIndex (lc_buf c) + length d"
      using append_ok [OF Cons.prems(3), of d] by auto
    let ?s = "s\<lparr>lconns := (lconns s)(f \<mapsto> c\<lparr>lc_buf := b1\<rparr>)\<rparr>"
    have step: "echo wr ((r # rs) @ rest) f s = echo wr (rs @ rest) f ?s" using d x b1(1) Cons.prems(2) by simp
    have "\<exists>b. buffer_inv b \<and> contents b = contents b1 @ received rs \<and>
       echo wr (rs @ rest) f ?s = echo wr rest f (s\<lparr>lconns := (lconns s)(f \<mapsto> c\<lparr>lc_buf := b\<rparr>)\<rparr>)"
    proof -
      have same: "?s\<lparr>lconns := (lconns ?s)(f \<mapsto> c\<lparr>lc_buf := b1, lc_buf := b\<rparr>)\<rparr> = s\<lparr>lconns := (lconns s)(f \<mapsto> c\<lparr>lc_buf := b\<rparr>)\<rparr>"
        for b by (simp add: fun_upd_def cong: if_cong)
      have "lconns ?s f = Some (c\<lparr>lc_buf := b1\<rparr>)" "buffer_inv (lc_buf (c\<lparr>lc_buf := b1\<rparr>))"
          "writerIndex (lc_buf (c\<lparr>lc_buf := b1\<rparr>)) + length (received rs) \<le> max_size"
        using b1(2,4) fits by simp_all
      from Cons.IH [OF rest this] show ?thesis unfolding same by simp
    qed
    then show ?thesis unfolding step by (simp only: received_simps(3) d(1) b1(3) append_assoc)
  qed
qed

section \<open>Properties\<close>

text \<open>The echoing connection repeats itself. An event on which the socket delivers some data makes the
  connection write everything it has ever received, not only the new data: the buffer is never
  emptied. (Before that it prints the buffer up to a zero byte; if there is none behind the data,
  the print runs past the end of the buffer.)\<close>

theorem echo_repeats:
  assumes "lconns s f = Some c" and "buffer_inv (lc_buf c)" and "\<And>d. wr d = Inr (length d)"
    and "data_only rs" and "writerIndex (lc_buf c) + length (received rs) \<le> max_size"
  shows "\<exists>b. contents b = contents (lc_buf c) @ received rs \<and>
     echo wr rs f s =
       (if terminated b
        then Inr (s\<lparr>lconns := (lconns s)(f \<mapsto> c\<lparr>lc_buf := b\<rparr>), lout := lout s @ [(f, contents b)]\<rparr>)
        else Inl Out_of_bounds)"
proof -
  obtain b where b: "buffer_inv b" "contents b = contents (lc_buf c) @ received rs"
      "echo wr rs f s = echo wr [] f (s\<lparr>lconns := (lconns s)(f \<mapsto> c\<lparr>lc_buf := b\<rparr>)\<rparr>)"
    using echo_data [OF assms(4,1,2,5), of wr "[]"] by auto
  have "wr (contents b) = Inr (length (contents b))" by (rule assms(3))
  then show ?thesis
    using b echo_write_contents [of "c\<lparr>lc_buf := b\<rparr>" wr f "s\<lparr>lconns := (lconns s)(f \<mapsto> c\<lparr>lc_buf := b\<rparr>)\<rparr>"]
    by (intro exI [of _ b]) simp
qed

definition echo_start :: "nat lserver" where
  "echo_start =
     \<lparr>lconns = [7 \<mapsto> \<lparr>lc_fd = 7, lc_chan = Channel_new 7,
        lc_buf = \<lparr>storage = replicate 8 0 @ [104, 105, 0, 0, 0, 0], readerIndex = 8, writerIndex = 10\<rparr>, lc_hasDelete = True\<rparr>],
      lout = [(7, [104, 105])], lclosed = [], reactors = 1, rkernel = (\<lambda>_. 0)\<rparr>"

theorem echo_repeats_witness:
  "\<exists>b. contents b = [104, 105, 33] \<and>
     echo (\<lambda>d. Inr (length d)) [Inl EINTR, Inr [33]] 7 echo_start =
       (if terminated b
        then Inr (echo_start\<lparr>lconns := (lconns echo_start)(7 \<mapsto> (the (lconns echo_start 7))\<lparr>lc_buf := b\<rparr>),
               lout := lout echo_start @ [(7, [104, 105, 33])]\<rparr>)
        else Inl Out_of_bounds)"
proof -
  have c: "lconns echo_start 7 = Some (the (lconns echo_start 7))" "contents (lc_buf (the (lconns echo_start 7))) = [104, 105]"
      "buffer_inv (lc_buf (the (lconns echo_start 7)))" "writerIndex (lc_buf (the (lconns echo_start 7))) = 10"
    by (simp_all add: echo_start_def contents_def slice_def buffer_inv_def kCheapPrepend_def max_size_def)
  then show ?thesis
    using echo_repeats [OF c(1,3), of "\<lambda>d. Inr (length d)" "[Inl EINTR, Inr [33]]"]
    by (auto simp: max_size_def data_only_def)
qed

text \<open>Closing a connection from the peer's side ends the program. When the peer closes (or resets) the
  connection, \<open>echo\<close> has the server delete it from inside the channel's event handler, and the
  channel's destructor asserts that no event is being handled.\<close>

theorem eof_asserts:
  assumes "lconns s f = Some c" and "f \<noteq> - 1" and "lc_hasDelete c" and "buffer_inv (lc_buf c)"
    and "\<not> tied (lc_chan c)" and "hasCb (lc_chan c) = (\<lambda>_. False)(ReadCb := True)" and "wantsRead (revents (lc_chan c))"
    and "data_only rs" and "writerIndex (lc_buf c) + length (received rs) \<le> max_size"
    and "fin = Inr [] \<or> fin = Inl e \<and> e \<noteq> EINTR \<and> e \<noteq> EAGAIN"
  shows "connection_event True wr (rs @ fin # rest) f s = Inl Assert_fail"
proof -
  let ?c = "c\<lparr>lc_chan := (lc_chan c)\<lparr>handlingEvents := True\<rparr>\<rparr>"
  let ?s = "s\<lparr>lconns := (lconns s)(f \<mapsto> ?c)\<rparr>"
  have upd: "upd_lchan f (handlingEvents_update (\<lambda>_. True)) s = ?s" "lchan f ?s = lc_chan ?c" "lchan f s = lc_chan c"
    using assms(1) by (simp_all add: upd_lchan_def lchan_def)
  obtain b where "echo wr (rs @ fin # rest) f ?s = echo wr (fin # rest) f (?s\<lparr>lconns := (lconns ?s)(f \<mapsto> ?c\<lparr>lc_buf := b\<rparr>)\<rparr>)"
    using echo_data [of rs ?s f ?c wr "fin # rest"] assms(4,8,9) by auto
  then have "echo wr (rs @ fin # rest) f ?s = Inl Assert_fail"
    using assms(2,3,10)
    by (auto simp: call_delete_def deleteConnection_def Connection_delete_def Channel_delete_def)
  then show ?thesis
    using assms(5-7) upd
    by (simp add: connection_event_def handleEvents_def handleEventWithGuard_def fire_def)
qed

theorem eof_asserts_witness:
  "connection_event True (\<lambda>d. Inr (length d)) [Inr [33], Inr []] 7
     (echo_start\<lparr>lconns := [7 \<mapsto> (the (lconns echo_start 7))\<lparr>lc_chan := setRevents EPOLLIN (setReadCallback True (Channel_new 7))\<rparr>]\<rparr>)
   = Inl Assert_fail"
proof -
  let ?c = "(the (lconns echo_start 7))\<lparr>lc_chan := setRevents EPOLLIN (setReadCallback True (Channel_new 7))\<rparr>"
  have b: "buffer_inv (lc_buf ?c)" "writerIndex (lc_buf ?c) = 10" "lc_hasDelete ?c"
    by (simp_all add: echo_start_def buffer_inv_def kCheapPrepend_def max_size_def)
  then show ?thesis
    using eof_asserts [of "echo_start\<lparr>lconns := [7 \<mapsto> ?c]\<rparr>" 7 ?c "[Inr [33]]" "Inr []" EPIPE "\<lambda>d. Inr (length d)" "[]"]
    by (simp add: data_only_def max_size_def setRevents_def setReadCallback_def Channel_new_def wantsRead_def epoll_consts)
qed

text \<open>\<open>Connection::send\<close> terminates once the socket has taken everything: as soon as the answers of
  \<open>write\<close> add up to the size of the data the call returns, it has written exactly the data, in
  order, and no byte twice.\<close>

theorem send_legacy_complete:
  assumes "\<forall>r \<in> set rs. \<exists>n. r = Inr n" and "length d \<le> sum_list (map (case_sum (\<lambda>_. 0) (\<lambda>n. n)) rs)"
  shows "send_legacy rs d = Some d"
  using assms
proof (induction rs d rule: send_legacy.induct)
  case (3 r rs x xs)
  obtain n where n: "r = Inr n" using 3(2) by auto
  have "send_legacy rs (drop n (x # xs)) = Some (drop n (x # xs))"
    using 3(1) [OF n] 3(2,3) n by simp
  then show ?case using n by simp
qed simp_all

theorem send_legacy_complete_witness: "send_legacy [Inr 2, Inr 0, Inr 3] [1, 2, 3, 4, 5] = Some [1, 2, 3, 4, 5]"
  by (rule send_legacy_complete) simp_all

text \<open>The loops are made one after the other in one thread.\<close>

lemma make_loop_eq:
  assumes "epoll_ctl_ok ctl interest" and "interest k0 = Map.empty"
    and "le_wake (env i) \<noteq> - 1" and "le_timer (env i) \<noteq> - 1" and "le_wake (env i) \<noteq> le_timer (env i)"
  shows "\<exists>l. owner_tid l = cur \<and> (\<forall>ls tls. make_loop ctl k0 env cur i (ls, tls) =
     (if tls cur = None then Inr (ls @ [l], tls(cur \<mapsto> le_addr (env i))) else Inl Assert_fail))"
proof -
  obtain l where "\<forall>tls. EventLoop_new ctl True (le_wake (env i)) (le_timer (env i)) (le_addr (env i)) (le_wakeCh (env i))
       (le_timerCh (env i)) cur k0 tls =
       (if tls cur = None then Inr (l, tls(cur \<mapsto> le_addr (env i))) else Inl Assert_fail)" "owner_tid l = cur"
    using EventLoop_new_ok [of ctl interest k0 "le_wake (env i)" "le_timer (env i)" "le_addr (env i)" "le_wakeCh (env i)"
        "le_timerCh (env i)" cur] assms by blast
  then show ?thesis by (intro exI [of _ l]) (simp add: make_loop_def)
qed

text \<open>Deleting connections that are not handling an event closes their descriptors, in order.\<close>

lemma free_connections:
  assumes "\<forall>f \<in> set order. \<exists>c. conns f = Some c \<and> lc_fd c = f \<and> f \<noteq> - 1 \<and> \<not> handlingEvents (lc_chan c)"
  shows "foldE (\<lambda>f fds. case conns f of None \<Rightarrow> Inr fds | Some c \<Rightarrow> mapE (\<lambda>cf. fds @ cf) (Connection_delete c)) order fds = Inr (fds @ order)"
  using assms
proof (induction order arbitrary: fds)
  case (Cons f order)
  then obtain c where "conns f = Some c" "lc_fd c = f" "f \<noteq> - 1" "\<not> handlingEvents (lc_chan c)" by auto
  then have "Connection_delete c = Inr [f]" by (simp add: Connection_delete_def Channel_delete_def Socket_delete_def)
  then show ?case using Cons \<open>conns f = Some c\<close> by simp
qed simp

text \<open>Destroying the server. With its loops idle in its own thread it closes every descriptor once: those of
  the loop, the listening socket and the sockets of the connections, and leaves the thread without a loop.
  A loop of another thread cannot be deleted at all. Every loop has been asked to quit before.\<close>

theorem legacy_server_delete:
  assumes "epoll_ctl_ok ctl interest" and "Acceptor_new afd False False lo = Inr a" and "afd \<noteq> - 1"
    and "\<forall>f \<in> set order. \<exists>c. conns f = Some c \<and> lc_fd c = f \<and> f \<noteq> - 1 \<and> \<not> handlingEvents (lc_chan c)"
    and "tls cur = Some (self_addr l)" and "owner_tid l = cur" and "wake_fd l = wfd" and "wfd \<noteq> - 1"
    and "wakeupChannel l = (setReadCallback True (Channel_new wfd))\<lparr>events := EPOLLIN OR EPOLLPRI, pooling := True\<rparr>"
    and "interest (lo_kernel l) wfd = Some \<lparr>ev_events = EPOLLIN OR EPOLLPRI, ev_ptr = wake_addr l\<rparr>"
    and "\<not> handlingEvents (timerChannel l)" and "timer_fd l = tfd" and "tfd \<noteq> - 1" and "tq_inv {} q" and "epfd \<noteq> - 1"
  shows "Server_free ctl cur [(epfd, q, l)] a order conns tls = Inr ([wfd, tfd, epfd, afd] @ order, tls(cur := None)) \<and>
     (other \<noteq> cur \<longrightarrow> Server_free ctl other [(epfd, q, l)] a order conns tls' = Inl Assert_fail) \<and>
     (\<forall>ev \<in> set (fst (Server_stop e cur (evs, pool))). quit_flag ev) \<and> stop_flag (snd (Server_stop e cur (evs, pool)))"
proof -
  obtain q' where q': "TimerQueue_delete (timer_fd l) q = Inr ([tfd], q')"
    using timer_queue_delete [OF assms(14), of tfd] assms(12,13) by auto
  have "EventLoop_destroy ctl cur epfd q l tls = Inr ([wfd, tfd, epfd], q', tls(cur := None))"
    using EventLoop_destroy_own [of ctl interest l cur wfd tls q "[tfd]" q' epfd] assms q' by (simp add: Epoll_delete_def)
  moreover have "Acceptor_delete a = Inr [afd]"
    using assms(2,3) by (auto simp: Acceptor_new_def createSocket_def Acceptor_delete_def Channel_delete_def Channel_new_def)
  ultimately have "Server_free ctl cur [(epfd, q, l)] a order conns tls = Inr ([wfd, tfd, epfd, afd] @ order, tls(cur := None))"
    using free_connections [OF assms(4)] by (simp add: Server_free_def)
  moreover have "Server_free ctl other [(epfd, q, l)] a order conns tls' = Inl Assert_fail" if "other \<noteq> cur"
    using that assms(6,9) by (simp add: Server_free_def EventLoop_destroy_def EventLoop_delete_def removeChannel_def)
  moreover have "\<forall>ev \<in> set (fst (Server_stop e cur (evs, pool))). quit_flag ev" "stop_flag (snd (Server_stop e cur (evs, pool)))"
    by (auto simp: Server_stop_def set_stop_def quit_def set_quit_def wakeup_def Let_def)
  ultimately show ?thesis by simp
qed

text \<open>The older server cannot serve, whatever the number of cores. It makes all its loops in the thread
  that constructs it, so the second loop, or already the first if that thread has a loop, fails the
  assertion of one loop per thread. With a single core and no loop in the thread it is constructed,
  but the loop belongs to the constructing thread and the worker that is to run it fails the
  thread check. With no core reported there is no loop to choose for a connection, and choosing
  divides by zero. And in no case does the constructor make the acceptor listen.\<close>

theorem legacy_server_unusable:
  assumes "epoll_ctl_ok ctl interest" and "interest k0 = Map.empty" and "afd \<noteq> - 1"
    and "\<forall>i. le_wake (env i) \<noteq> - 1 \<and> le_timer (env i) \<noteq> - 1 \<and> le_wake (env i) \<noteq> le_timer (env i)"
  shows "(0 < cores \<and> tls cur \<noteq> None \<or> 1 < cores \<longrightarrow> Server_new ctl k0 env cur afd cores lo tls = Inl Assert_fail) \<and>
     (cores = 1 \<and> tls cur = None \<and> worker \<noteq> cur \<longrightarrow>
       (\<exists>a l pool tls'. Server_new ctl k0 env cur afd cores lo tls = Inr (a, [l], pool, tls') \<and>
          tasks_q pool = [0] \<and> enter_loop worker l = Inl Assert_fail)) \<and>
     (\<forall>a ls pool tls'. Server_new ctl k0 env cur afd cores lo tls = Inr (a, ls, pool, tls') \<longrightarrow> \<not> listening a) \<and>
     (f \<noteq> - 1 \<and> reactors s = 0 \<longrightarrow> newConnection_legacy ctl inl p f s = Inl Div_by_zero)"
proof -
  obtain l0 where l0: "owner_tid l0 = cur" "\<And>ls tls. make_loop ctl k0 env cur 0 (ls, tls) =
     (if tls cur = None then Inr (ls @ [l0], tls(cur \<mapsto> le_addr (env 0))) else Inl Assert_fail)"
    using make_loop_eq [of ctl interest k0 env 0 cur] assms by blast
  obtain l1 where l1: "\<And>ls tls. make_loop ctl k0 env cur 1 (ls, tls) =
     (if tls cur = None then Inr (ls @ [l1], tls(cur \<mapsto> le_addr (env 1))) else Inl Assert_fail)"
    using make_loop_eq [of ctl interest k0 env 1 cur] assms by blast
  have acc: "\<exists>a. Acceptor_new afd False False lo = Inr a" using assms(3) by (simp add: Acceptor_new_def createSocket_def)
  have "Server_new ctl k0 env cur afd cores lo tls = Inl Assert_fail" if "0 < cores" "tls cur \<noteq> None"
    using that acc l0(2) by (auto simp: Server_new_def upt_rec [of 0])
  moreover have "Server_new ctl k0 env cur afd cores lo tls = Inl Assert_fail" if "1 < cores" "tls cur = None"
    using that acc l0(2) l1 by (auto simp: Server_new_def upt_rec [of 0] upt_rec [of "Suc 0"])
  moreover have "\<exists>a l pool tls'. Server_new ctl k0 env cur afd 1 lo tls = Inr (a, [l], pool, tls') \<and>
          tasks_q pool = [0] \<and> enter_loop worker l = Inl Assert_fail" if "tls cur = None" "worker \<noteq> cur"
    using that acc l0 by (auto simp: Server_new_def add_task_def ThreadPool_new_def enter_loop_def)
  moreover have "newConnection_legacy ctl inl p f s = Inl Div_by_zero" if "f \<noteq> - 1" "reactors s = 0"
    using that by (simp add: newConnection_legacy_def)
  moreover have "\<not> listening a" if "Server_new ctl k0 env cur afd cores lo tls = Inr (a, ls, pool, tls')" for a ls pool tls'
    using that by (auto simp: Server_new_def Acceptor_new_def setNewConnectionCallback_def result_iffs split: if_splits)
  ultimately show ?thesis by blast
qed

theorem legacy_server_unusable_witness:
  "Server_new map_ctl Map.empty (\<lambda>i. \<lparr>le_wake = 10, le_timer = 11, le_addr = i + 1, le_wakeCh = 100, le_timerCh = 101\<rparr>)
     1 9 8 InetAddress_any Map.empty = Inl Assert_fail"
  using legacy_server_unusable [OF map_ctl_ok, of Map.empty 9
      "\<lambda>i. \<lparr>le_wake = 10, le_timer = 11, le_addr = i + 1, le_wakeCh = 100, le_timerCh = 101\<rparr>" 8 Map.empty 1 InetAddress_any 0
      _ _ "\<lambda>_. True" 0]
  by simp

end
