(* ===== verification/Http_Server.thy ===== *)
theory Http_Server
  imports Tcp_Connection_Safety
begin

text \<open>
  The HTTP server of examples/benchmark_server.cpp, the larger of the two servers written on top of
  the library: the request parser (\<open>HttpRequest::parse\<close>), the two response generators and the
  message callback that connects them to a connection. \<open>std::getline\<close>, \<open>operator>>\<close> and the
  searching and erasing operations of \<open>std::string\<close> are modelled with \<open>npos\<close> as the largest
  \<open>size_t\<close>, so that the idiom \<open>erase(find_last_not_of(...) + 1)\<close> relies on the wrap-around of
  \<open>npos + 1\<close> here as it does in the code. The parser is proved equal to a reference definition that
  splits the text into lines and words.
\<close>

section \<open>Strings and streams\<close>

definition npos :: nat where
  "npos = 2 ^ 64 - 1"

definition LF :: char where "LF = CHR 0x0A"
definition CR :: char where "CR = CHR 0x0D"
definition crlf :: string where "crlf = [CR, LF]"

text \<open>
  A string stream by the characters still to be read. \<open>getline\<close> fails exactly if there are none; the
  last line need not be terminated.
\<close>

definition getline :: "string \<Rightarrow> (string \<times> string) option" where
  "getline s = (if s = [] then None
     else Some (takeWhile (\<lambda>c. c \<noteq> LF) s, drop 1 (dropWhile (\<lambda>c. c \<noteq> LF) s)))"

definition isspace :: "char \<Rightarrow> bool" where
  "isspace c \<longleftrightarrow> c \<in> set [CHR 0x20, CHR 0x09, LF, CHR 0x0B, CHR 0x0C, CR]"

text \<open>\<open>operator>>\<close> for strings: without a further word the variable keeps its value.\<close>

definition read_word :: "string \<Rightarrow> string \<Rightarrow> string \<times> string" where
  "read_word old s = (let t = dropWhile isspace s in
     if t = [] then (old, []) else (takeWhile (\<lambda>c. \<not> isspace c) t, dropWhile (\<lambda>c. \<not> isspace c) t))"

definition find_first :: "(char \<Rightarrow> bool) \<Rightarrow> string \<Rightarrow> nat" where
  "find_first p s = (if \<exists>c \<in> set s. p c then length (takeWhile (\<lambda>c. \<not> p c) s) else npos)"

definition find_last :: "(char \<Rightarrow> bool) \<Rightarrow> string \<Rightarrow> nat" where
  "find_last p s = (if \<exists>c \<in> set s. p c then length s - 1 - length (takeWhile (\<lambda>c. \<not> p c) (rev s)) else npos)"

definition substr :: "nat \<Rightarrow> nat \<Rightarrow> string \<Rightarrow> string result" where
  "substr pos n s = (if length s < pos then Inl Out_of_range else Inr (take n (drop pos s)))"

definition erase :: "nat \<Rightarrow> nat \<Rightarrow> string \<Rightarrow> string result" where
  "erase pos n s = (if length s < pos then Inl Out_of_range
     else Inr (take pos s @ drop (min n (length s - pos)) (drop pos s)))"

section \<open>The request parser\<close>

record HttpRequest =
  req_method :: string
  req_path :: string
  req_version :: string
  req_headers :: "string \<rightharpoonup> string"
  req_body :: string

definition HttpRequest_new :: HttpRequest where
  "HttpRequest_new = \<lparr>req_method = [], req_path = [], req_version = [], req_headers = Map.empty, req_body = []\<rparr>"

definition blank :: "char \<Rightarrow> bool" where
  "blank c \<longleftrightarrow> c \<in> set [CHR 0x20, CHR 0x09, CR, LF]"

definition trim :: "string \<Rightarrow> string result" where
  "trim s =
     bindE (erase 0 (find_first (\<lambda>c. \<not> blank c) s) s) (\<lambda>s1.
     erase (size_add (find_last (\<lambda>c. \<not> blank c) s1) 1) npos s1)"

definition parse_header :: "string \<Rightarrow> (string \<rightharpoonup> string) \<Rightarrow> (string \<rightharpoonup> string) result" where
  "parse_header line hs =
     (let pos = find_first (\<lambda>c. c = CHR '':'') line in
      if pos \<noteq> npos then
        bindE (substr 0 pos line) (\<lambda>key.
        bindE (substr (size_add pos 1) npos line) (\<lambda>value.
        bindE (trim key) (\<lambda>key.
        bindE (trim value) (\<lambda>value.
        Inr (hs(key \<mapsto> value))))))
      else Inr hs)"

lemma getline_shorter: "getline s = Some (line, rest) \<Longrightarrow> length rest < length s"
  using length_dropWhile_le [of "\<lambda>c. c \<noteq> LF" "tl s"]
  by (cases s) (auto simp: getline_def split: if_splits)

function parse_headers :: "string \<Rightarrow> (string \<rightharpoonup> string) \<Rightarrow> (string \<rightharpoonup> string) result" where
  "parse_headers s hs =
     (case getline s of
        None \<Rightarrow> Inr hs
      | Some (line, rest) \<Rightarrow>
          if line \<noteq> [CR] \<and> line \<noteq> [] then
            (case parse_header line hs of Inl e \<Rightarrow> Inl e | Inr hs' \<Rightarrow> parse_headers rest hs')
          else Inr hs)"
  by pat_completeness auto

termination
  by (relation "measure (length \<circ> fst)") (auto dest: getline_shorter)

declare parse_headers.simps [simp del]

definition parse :: "string \<Rightarrow> HttpRequest \<Rightarrow> (bool \<times> HttpRequest) result" where
  "parse raw r =
     (case getline raw of
        None \<Rightarrow> Inr (False, r)
      | Some (line, rest) \<Rightarrow>
          let (m, l1) = read_word (req_method r) line;
              (p, l2) = read_word (req_path r) l1;
              (v, l3) = read_word (req_version r) l2 in
          bindE (parse_headers rest (req_headers r)) (\<lambda>hs.
          Inr (True, r\<lparr>req_method := m, req_path := p, req_version := v, req_headers := hs\<rparr>)))"

section \<open>Responses\<close>

definition generateHttpResponse :: "string \<Rightarrow> string \<Rightarrow> string" where
  "generateHttpResponse content contentType =
     ''HTTP/1.1 200 OK'' @ crlf @
     ''Content-Type: '' @ contentType @ crlf @
     ''Content-Length: '' @ to_string (length content) @ crlf @
     ''Connection: keep-alive'' @ crlf @
     ''Server: KnetLib/1.0'' @ crlf @
     crlf @ content"

definition generateHtmlResponse :: "string \<Rightarrow> string \<Rightarrow> string" where
  "generateHtmlResponse title bdy =
     ''<!DOCTYPE html>'' @ [LF] @
     ''<html><head><title>'' @ title @ ''</title></head>'' @ [LF] @
     ''<body><h1>'' @ title @ ''</h1>'' @ [LF] @
     ''<p>'' @ bdy @ ''</p>'' @ [LF] @
     ''</body></html>'' @ [LF]"

definition json_text :: string where
  "json_text = ''{'' @ [CHR 0x22] @ ''status'' @ [CHR 0x22] @ '':'' @ [CHR 0x22] @ ''ok'' @ [CHR 0x22] @ '','' @
     [CHR 0x22] @ ''message'' @ [CHR 0x22] @ '':'' @ [CHR 0x22] @ ''KnetLib Performance Test'' @ [CHR 0x22] @ ''}''"

definition not_found :: string where
  "not_found = ''HTTP/1.1 404 Not Found'' @ crlf @ ''Content-Type: text/html'' @ crlf @
     ''Content-Length: 0'' @ crlf @ ''Connection: keep-alive'' @ crlf @ crlf"

definition bad_request :: string where
  "bad_request = ''HTTP/1.1 400 Bad Request'' @ crlf @ ''Content-Type: text/html'' @ crlf @
     ''Content-Length: 0'' @ crlf @ ''Connection: close'' @ crlf @ crlf"

definition route :: "string \<Rightarrow> string" where
  "route p =
     (if p = ''/'' \<or> p = ''/index.html'' then
        generateHttpResponse (generateHtmlResponse ''KnetLib Performance Test''
          ''Welcome to KnetLib HTTP Server Performance Test'') ''text/html''
      else if p = ''/hello'' then
        generateHttpResponse (generateHtmlResponse ''Hello'' ''Hello from KnetLib!'') ''text/html''
      else if p = ''/plain'' then generateHttpResponse ''OK'' ''text/plain''
      else if p = ''/json'' then generateHttpResponse json_text ''application/json''
      else not_found)"

definition answer :: "string \<Rightarrow> string result" where
  "answer raw =
     bindE (parse raw HttpRequest_new) (\<lambda>(ok, r).
     Inr (if ok then route (req_path r) else bad_request))"

text \<open>The bytes of a buffer are the characters of a string.\<close>

definition string_of :: "byte list \<Rightarrow> string" where
  "string_of bs = map (\<lambda>b. char_of (unat b)) bs"

definition bytes_of :: "string \<Rightarrow> byte list" where
  "bytes_of s = map of_char s"

definition http_message :: "('k, 'e) env \<Rightarrow> int \<Rightarrow> ('k, 'e) world \<Rightarrow> ('k, 'e) world result" where
  "http_message env cur w =
     bindE (retrieveAllAsString (inputBuffer (cn w))) (\<lambda>(request, b').
     bindE (answer (string_of request)) (\<lambda>response.
     send env cur (bytes_of response) (upd_conn (inputBuffer_update (\<lambda>_. b')) w)))"

definition http_env :: "('k, 'e) env \<Rightarrow> int \<Rightarrow> ('k, 'e) env" where
  "http_env env cur = env\<lparr>messageCallback := Some (http_message env cur), writeCompleteCallback := None,
     highWaterMarkCallback := None\<rparr>"

section \<open>A reference for the parser\<close>

text \<open>
  \<open>splits p s\<close> are the pieces between the characters that satisfy \<open>p\<close>, empty ones included; lines
  and words are two uses of it. \<open>strip\<close> removes blanks at both ends.
\<close>

fun splits :: "(char \<Rightarrow> bool) \<Rightarrow> string \<Rightarrow> string list" where
  "splits p [] = [[]]"
| "splits p (c # s) = (if p c then [] # splits p s
     else (case splits p s of [] \<Rightarrow> [[c]] | w # ws \<Rightarrow> (c # w) # ws))"

definition words_of :: "string \<Rightarrow> string list" where
  "words_of s = filter (\<lambda>w. w \<noteq> []) (splits isspace s)"

definition strip :: "string \<Rightarrow> string" where
  "strip s = rev (dropWhile blank (rev (dropWhile blank s)))"

definition header_of :: "string \<Rightarrow> (string \<times> string) option" where
  "header_of line = (if CHR '':'' \<in> set line
     then Some (strip (takeWhile (\<lambda>c. c \<noteq> CHR '':'') line), strip (drop 1 (dropWhile (\<lambda>c. c \<noteq> CHR '':'') line)))
     else None)"

definition header_lines :: "string list \<Rightarrow> (string \<times> string) list" where
  "header_lines ls = List.map_filter header_of (takeWhile (\<lambda>l. l \<noteq> [CR] \<and> l \<noteq> []) ls)"

definition word_or :: "string \<Rightarrow> nat \<Rightarrow> string list \<Rightarrow> string" where
  "word_or old i ws = (if i < length ws then ws ! i else old)"

definition reference_parse :: "string \<Rightarrow> HttpRequest \<Rightarrow> HttpRequest" where
  "reference_parse raw r =
     (let ls = splits (\<lambda>c. c = LF) raw; ws = words_of (hd ls) in
      r\<lparr>req_method := word_or (req_method r) 0 ws, req_path := word_or (req_path r) 1 ws,
        req_version := word_or (req_version r) 2 ws,
        req_headers := req_headers r ++ map_of (rev (header_lines (tl ls)))\<rparr>)"

section \<open>The parser equals the reference\<close>

lemma splits_not_Nil [simp]: "splits p s \<noteq> []"
  by (induction s) (auto split: list.splits)

lemma splits_first:
  "splits p s = takeWhile (\<lambda>c. \<not> p c) s #
     (if dropWhile (\<lambda>c. \<not> p c) s = [] then [] else splits p (drop 1 (dropWhile (\<lambda>c. \<not> p c) s)))"
  by (induction s) auto

lemma splits_at: "p c \<Longrightarrow> \<forall>x \<in> set a. \<not> p x \<Longrightarrow> splits p (a @ c # b) = a # splits p b"
  by (induction a) auto

lemma splits_none: "\<forall>x \<in> set a. \<not> p x \<Longrightarrow> splits p a = [a]"
  by (induction a) auto

lemma words_of_Nil [simp]: "words_of [] = []"
  by (simp add: words_of_def)

lemma words_of_space [simp]: "isspace c \<Longrightarrow> words_of (c # s) = words_of s"
  by (simp add: words_of_def)

lemma words_of_skip: "words_of (dropWhile isspace s) = words_of s"
  by (induction s) auto

lemma words_of_word:
  assumes "\<not> isspace c"
  shows "words_of (c # s) = takeWhile (\<lambda>c. \<not> isspace c) (c # s) # words_of (dropWhile (\<lambda>c. \<not> isspace c) (c # s))"
proof (cases "dropWhile (\<lambda>c. \<not> isspace c) s")
  case Nil
  then show ?thesis
    using assms splits_first [of isspace "c # s"] by (simp add: words_of_def del: dropWhile_eq_Nil_conv)
next
  case (Cons d t)
  then have "isspace d" by (simp add: dropWhile_eq_Cons_conv)
  then show ?thesis using assms splits_first [of isspace "c # s"] Cons by (simp add: words_of_def)
qed

lemma read_word_words:
  "fst (read_word old s) = word_or old 0 (words_of s)" "words_of (snd (read_word old s)) = tl (words_of s)"
proof -
  have "fst (read_word old s) = word_or old 0 (words_of s) \<and> words_of (snd (read_word old s)) = tl (words_of s)"
  proof (cases "dropWhile isspace s")
    case Nil
    then have "words_of s = []" using words_of_skip [of s] by (simp del: dropWhile_eq_Nil_conv)
    then show ?thesis using Nil by (simp add: read_word_def word_or_def)
  next
    case (Cons c t)
    then have "\<not> isspace c" by (simp add: dropWhile_eq_Cons_conv)
    then have "words_of s = takeWhile (\<lambda>c. \<not> isspace c) (c # t) # words_of (dropWhile (\<lambda>c. \<not> isspace c) (c # t))"
      using Cons words_of_skip [of s] words_of_word by simp
    then show ?thesis using Cons \<open>\<not> isspace c\<close> by (simp add: read_word_def word_or_def)
  qed
  then show "fst (read_word old s) = word_or old 0 (words_of s)" "words_of (snd (read_word old s)) = tl (words_of s)"
    by simp_all
qed

lemma word_or_tl [simp]: "word_or old i (tl ws) = word_or old (Suc i) ws"
  by (cases ws) (auto simp: word_or_def)

lemma takeWhile_shorter: "c \<in> set s \<Longrightarrow> \<not> p c \<Longrightarrow> length (takeWhile p s) < length s"
  by (induction s) auto

lemma takeWhile_all: "\<forall>c \<in> set s. p c \<Longrightarrow> takeWhile p s = s"
  by (simp add: takeWhile_eq_all_conv)

lemma erase_front:
  "length s < npos \<Longrightarrow> erase 0 (find_first (\<lambda>c. \<not> p c) s) s = Inr (dropWhile p s)"
  using length_takeWhile_le [of p s]
  by (auto simp: erase_def find_first_def dropWhile_eq_drop min_absorb1 takeWhile_all)

lemma erase_back:
  assumes "length s < npos"
  shows "erase (size_add (find_last (\<lambda>c. \<not> p c) s) 1) npos s = Inr (rev (dropWhile p (rev s)))"
proof (cases "\<exists>c \<in> set s. \<not> p c")
  case True
  let ?n = "length (takeWhile p (rev s))"
  have "?n < length s"
    using True takeWhile_shorter [of _ "rev s" p] by auto
  then have "size_add (find_last (\<lambda>c. \<not> p c) s) 1 = length s - ?n"
    using True assms by (simp add: find_last_def size_add_def npos_def)
  then show ?thesis using assms by (simp add: erase_def dropWhile_eq_drop rev_drop)
next
  case False
  then have "size_add (find_last (\<lambda>c. \<not> p c) s) 1 = 0" by (simp add: find_last_def size_add_def npos_def)
  moreover have "dropWhile p (rev s) = []" using False by (simp add: dropWhile_eq_Nil_conv)
  ultimately show ?thesis using assms by (simp add: erase_def)
qed

lemma trim_strip: "length s < npos \<Longrightarrow> trim s = Inr (strip s)"
  using length_dropWhile_le [of blank s] by (simp add: trim_def strip_def erase_front erase_back del: One_nat_def)

lemma parse_header_ref:
  assumes "length line < npos"
  shows "parse_header line hs = Inr (case header_of line of None \<Rightarrow> hs | Some (k, v) \<Rightarrow> hs(k \<mapsto> v))"
proof (cases "CHR '':'' \<in> set line")
  case True
  let ?k = "takeWhile (\<lambda>c. c \<noteq> CHR '':'') line"
  have len: "length ?k < length line" using takeWhile_shorter [OF True] by simp
  then have pos: "find_first (\<lambda>c. c = CHR '':'') line = length ?k" "length ?k \<noteq> npos" "size_add (length ?k) 1 = Suc (length ?k)"
    using True assms by (simp_all add: find_first_def npos_def)
  have "take (length ?k) line = ?k" by (metis takeWhile_eq_take)
  moreover have "drop (Suc (length ?k)) line = drop 1 (dropWhile (\<lambda>c. c \<noteq> CHR '':'') line)"
    by (simp add: dropWhile_eq_drop)
  moreover have "length (drop 1 (dropWhile (\<lambda>c. c \<noteq> CHR '':'') line)) < npos"
    using assms length_dropWhile_le [of "\<lambda>c. c \<noteq> CHR '':''" line] by simp
  ultimately show ?thesis
    using True len pos assms by (simp add: parse_header_def substr_def header_of_def trim_strip del: One_nat_def)
next
  case False
  then show ?thesis by (auto simp: parse_header_def find_first_def header_of_def)
qed

lemma parse_headers_ref:
  "length s < npos \<Longrightarrow> parse_headers s hs = Inr (hs ++ map_of (rev (header_lines (splits (\<lambda>c. c = LF) s))))"
proof (induction s hs rule: parse_headers.induct)
  case (1 s hs)
  show ?case
  proof (cases "s = []")
    case True
    then show ?thesis by (simp add: parse_headers.simps getline_def header_lines_def map_filter_simps)
  next
    case False
    let ?line = "takeWhile (\<lambda>c. c \<noteq> LF) s" and ?rest = "drop 1 (dropWhile (\<lambda>c. c \<noteq> LF) s)"
    have g: "getline s = Some (?line, ?rest)" using False by (simp add: getline_def)
    have len: "length ?line < npos" "length ?rest < npos"
      using 1(2) getline_shorter [OF g] length_takeWhile_le [of "\<lambda>c. c \<noteq> LF" s] by simp_all
    let ?hs = "case header_of ?line of None \<Rightarrow> hs | Some (k, v) \<Rightarrow> hs(k \<mapsto> v)"
    have IH: "parse_headers ?rest ?hs = Inr (?hs ++ map_of (rev (header_lines (splits (\<lambda>c. c = LF) ?rest))))"
      if "?line \<noteq> [CR] \<and> ?line \<noteq> []"
      using 1(1) [OF g refl that parse_header_ref [OF len(1)] len(2)] .
    have "header_lines (splits (\<lambda>c. c = LF) ?rest) = []" if "dropWhile (\<lambda>c. c \<noteq> LF) s = []"
      using that by (simp add: header_lines_def map_filter_simps del: dropWhile_eq_Nil_conv)
    moreover have "hs(k \<mapsto> v) ++ m = hs ++ ([k \<mapsto> v] ++ m)" for k v m
      by (simp only: map_add_assoc map_add_upd map_add_empty)
    ultimately show ?thesis
      using g IH parse_header_ref [OF len(1)] splits_first [of "\<lambda>c. c = LF" s]
      by (auto simp: parse_headers.simps [of s] header_lines_def map_filter_simps split: option.splits)
  qed
qed

lemma parse_ref:
  assumes "length raw < npos"
  shows "parse raw r = Inr (if raw = [] then (False, r) else (True, reference_parse raw r))"
proof (cases "raw = []")
  case True
  then show ?thesis by (simp add: parse_def getline_def)
next
  case False
  let ?line = "takeWhile (\<lambda>c. c \<noteq> LF) raw" and ?rest = "drop 1 (dropWhile (\<lambda>c. c \<noteq> LF) raw)"
  have g: "getline raw = Some (?line, ?rest)" using False by (simp add: getline_def)
  have ls: "hd (splits (\<lambda>c. c = LF) raw) = ?line"
      "header_lines (tl (splits (\<lambda>c. c = LF) raw)) = header_lines (splits (\<lambda>c. c = LF) ?rest)"
    using splits_first [of "\<lambda>c. c = LF" raw]
    by (simp_all add: header_lines_def map_filter_simps del: dropWhile_eq_Nil_conv)
  have "length ?rest < npos" using assms getline_shorter [OF g] by simp
  from parse_headers_ref [OF this] show ?thesis
    using g ls False by (simp add: parse_def split_def Let_def read_word_words reference_parse_def numeral_2_eq_2)
qed

section \<open>Writing a message\<close>

text \<open>
  The text of a message with a first line, a list of headers and a body, and the headers that can be
  read back: no colon in the key, no line end, no blanks at the ends.
\<close>

definition header_text :: "string \<times> string \<Rightarrow> string" where
  "header_text h = fst h @ '': '' @ snd h @ [CR]"

definition print_message :: "string \<Rightarrow> (string \<times> string) list \<Rightarrow> string \<Rightarrow> string" where
  "print_message start hs content =
     start @ crlf @ concat (map (\<lambda>h. header_text h @ [LF]) hs) @ crlf @ content"

definition stripped :: "string \<Rightarrow> bool" where
  "stripped s \<longleftrightarrow> s = [] \<or> \<not> blank (hd s) \<and> \<not> blank (last s)"

definition valid_header :: "string \<times> string \<Rightarrow> bool" where
  "valid_header h \<longleftrightarrow> stripped (fst h) \<and> stripped (snd h) \<and> CHR '':'' \<notin> set (fst h) \<and>
     LF \<notin> set (fst h) \<and> LF \<notin> set (snd h)"

definition is_word :: "string \<Rightarrow> bool" where
  "is_word s \<longleftrightarrow> s \<noteq> [] \<and> (\<forall>c \<in> set s. \<not> isspace c)"

lemma break_at:
  assumes "\<forall>x \<in> set a. p x" and "\<not> p c"
  shows "takeWhile p (a @ c # b) = a" "dropWhile p (a @ c # b) = c # b"
  using assms by (induction a) auto

lemma strip_padded:
  assumes "stripped s" and "\<forall>c \<in> set a. blank c" and "\<forall>c \<in> set b. blank c"
  shows "strip (a @ s @ b) = s"
proof (cases "s = []")
  case True
  then have "dropWhile blank (a @ s @ b) = []" using assms by auto
  then show ?thesis using True by (simp add: strip_def del: dropWhile_eq_Nil_conv)
next
  case False
  then obtain c t where s: "s = c # t" "\<not> blank c" using assms(1) by (cases s) (auto simp: stripped_def)
  obtain t' d where s': "s = t' @ [d]" "\<not> blank d"
    using assms(1) False by (cases s rule: rev_cases) (auto simp: stripped_def)
  have "dropWhile blank (a @ s @ b) = s @ b" using break_at(2) [of a blank c] assms(2) s by simp
  moreover have "dropWhile blank (rev b @ d # rev t') = d # rev t'" using assms(3) s'(2) by (simp add: break_at)
  ultimately show ?thesis using s'(1) by (simp add: strip_def)
qed

lemma header_of_text:
  assumes "valid_header h" shows "header_of (header_text h) = Some h"
proof -
  have "\<forall>c \<in> set (fst h). c \<noteq> CHR '':''" using assms by (auto simp: valid_header_def)
  from break_at [of "fst h" "\<lambda>c. c \<noteq> CHR '':''", OF this] show ?thesis
    using assms strip_padded [of "snd h" "'' ''" "[CR]"] strip_padded [of "fst h" "[]" "[]"]
    by (simp add: valid_header_def header_of_def header_text_def blank_def)
qed

lemma header_lines_text:
  assumes "\<forall>h \<in> set hs. valid_header h"
  shows "header_lines (map header_text hs @ [CR] # rest) = hs"
proof -
  have "\<forall>h \<in> set hs. header_text h \<noteq> [CR] \<and> header_text h \<noteq> []"
    by (auto simp: header_text_def append_eq_Cons_conv)
  then have "takeWhile (\<lambda>l. l \<noteq> [CR] \<and> l \<noteq> []) (map header_text hs @ [CR] # rest) = map header_text hs"
    by (induction hs) auto
  moreover have "List.map_filter header_of (map header_text hs) = hs"
    using assms by (induction hs) (auto simp: map_filter_simps header_of_text)
  ultimately show ?thesis by (simp add: header_lines_def)
qed

lemma splits_message:
  assumes "LF \<notin> set start" and "\<forall>h \<in> set hs. valid_header h"
  shows "splits (\<lambda>c. c = LF) (print_message start hs content) =
    (start @ [CR]) # map header_text hs @ [CR] # splits (\<lambda>c. c = LF) content"
proof -
  have cr: "CR \<noteq> LF" by (simp add: CR_def LF_def)
  have "splits (\<lambda>c. c = LF) (concat (map (\<lambda>h. header_text h @ [LF]) hs) @ CR # LF # content) =
      map header_text hs @ [CR] # splits (\<lambda>c. c = LF) content"
    using assms(2)
  proof (induction hs)
    case Nil
    show ?case using cr by simp
  next
    case (Cons h hs)
    have "LF \<notin> set (header_text h)"
      using Cons.prems cr by (auto simp: valid_header_def header_text_def LF_def)
    then have "\<forall>x \<in> set (header_text h). \<not> x = LF" by auto
    from splits_at [of "\<lambda>c. c = LF", OF refl this] show ?case using Cons by simp
  qed
  moreover have "\<forall>x \<in> set (start @ [CR]). \<not> x = LF" using assms(1) cr by auto
  ultimately show ?thesis
    using splits_at [of "\<lambda>c. c = LF" LF "start @ [CR]"] by (simp add: print_message_def crlf_def)
qed

lemma parse_message:
  assumes "LF \<notin> set start" and "\<forall>h \<in> set hs. valid_header h"
    and "length (print_message start hs content) < npos"
  shows "parse (print_message start hs content) HttpRequest_new =
    Inr (True, HttpRequest_new\<lparr>req_method := word_or [] 0 (words_of (start @ [CR])),
      req_path := word_or [] 1 (words_of (start @ [CR])), req_version := word_or [] 2 (words_of (start @ [CR])),
      req_headers := map_of (rev hs)\<rparr>)"
proof -
  have "print_message start hs content \<noteq> []" by (simp add: print_message_def crlf_def)
  then show ?thesis
    using parse_ref [OF assms(3)] splits_message [OF assms(1,2)] header_lines_text [OF assms(2)]
    by (simp add: reference_parse_def HttpRequest_new_def Let_def)
qed

lemma words_of_is_word: "is_word w \<Longrightarrow> isspace c \<Longrightarrow> words_of (w @ c # s) = w # words_of s"
  using break_at [of "tl w" "\<lambda>c. \<not> isspace c" c s] by (cases w) (auto simp: is_word_def words_of_word)

lemma plain_stripped: "\<forall>c \<in> set s. \<not> blank c \<Longrightarrow> stripped s"
  by (auto simp: stripped_def)

lemma to_string_value: "stripped (to_string n)" "LF \<notin> set (to_string n)"
proof -
  have "\<not> blank c \<and> c \<noteq> LF" if "48 \<le> (of_char c :: nat)" for c
    using that by (auto simp: blank_def LF_def CR_def)
  then have "\<forall>c \<in> set (to_string n). \<not> blank c \<and> c \<noteq> LF" using to_string_digits by blast
  then show "stripped (to_string n)" "LF \<notin> set (to_string n)" by (auto intro!: plain_stripped)
qed

text \<open>The headers of a response with content, and every response as a message.\<close>

definition ok_headers :: "string \<Rightarrow> string \<Rightarrow> (string \<times> string) list" where
  "ok_headers contentType content = [(''Content-Type'', contentType), (''Content-Length'', to_string (length content)),
     (''Connection'', ''keep-alive''), (''Server'', ''KnetLib/1.0'')]"

definition no_content :: "string \<Rightarrow> (string \<times> string) list" where
  "no_content connection = [(''Content-Type'', ''text/html''), (''Content-Length'', to_string 0),
     (''Connection'', connection)]"

lemma generateHttpResponse_message:
  "generateHttpResponse content ty = print_message ''HTTP/1.1 200 OK'' (ok_headers ty content) content"
  by (simp add: generateHttpResponse_def print_message_def ok_headers_def header_text_def crlf_def)

lemma empty_messages:
  "not_found = print_message ''HTTP/1.1 404 Not Found'' (no_content ''keep-alive'') []"
  "bad_request = print_message ''HTTP/1.1 400 Bad Request'' (no_content ''close'') []"
  by (simp_all add: not_found_def bad_request_def print_message_def no_content_def header_text_def crlf_def
      to_string.simps [of 0] digit_char_def char_of_def bit_0)

lemma response_headers_valid:
  "stripped ty \<Longrightarrow> LF \<notin> set ty \<Longrightarrow> \<forall>h \<in> set (ok_headers ty content). valid_header h"
  "stripped x \<Longrightarrow> LF \<notin> set x \<Longrightarrow> \<forall>h \<in> set (no_content x). valid_header h"
  using to_string_value by (auto simp: ok_headers_def no_content_def valid_header_def)
    (simp_all add: stripped_def blank_def LF_def CR_def)

definition pages :: "string list" where
  "pages = [''/'', ''/index.html'', ''/hello'', ''/plain'', ''/json'']"

lemma ok_page:
  assumes "ty \<in> {''text/html'', ''text/plain'', ''application/json''}" and "length content \<le> 500"
  shows "\<exists>hs content'. generateHttpResponse content ty = print_message ''HTTP/1.1 200 OK'' hs content' \<and>
     (\<forall>h \<in> set hs. valid_header h) \<and> map_of (rev hs) ''Content-Length'' = Some (to_string (length content')) \<and>
     length (generateHttpResponse content ty) \<le> 1000"
proof (intro exI conjI)
  show "generateHttpResponse content ty = print_message ''HTTP/1.1 200 OK'' (ok_headers ty content) content"
    by (rule generateHttpResponse_message)
  have "stripped ty" "LF \<notin> set ty" using assms(1) by (auto simp: stripped_def blank_def LF_def CR_def)
  then show "\<forall>h \<in> set (ok_headers ty content). valid_header h" by (rule response_headers_valid)
  show "map_of (rev (ok_headers ty content)) ''Content-Length'' = Some (to_string (length content))"
    by (simp add: ok_headers_def)
  have "length (to_string (length content)) \<le> 3" using assms(2) by (intro to_string_length) simp_all
  then show "length (generateHttpResponse content ty) \<le> 1000"
    using assms by (auto simp: generateHttpResponse_def crlf_def)
qed

lemma route_message:
  "\<exists>hs content. route p = print_message (if p \<in> set pages then ''HTTP/1.1 200 OK'' else ''HTTP/1.1 404 Not Found'') hs content \<and>
     (\<forall>h \<in> set hs. valid_header h) \<and> map_of (rev hs) ''Content-Length'' = Some (to_string (length content)) \<and>
     length (route p) \<le> 1000"
proof -
  have none: "\<forall>h \<in> set (no_content ''keep-alive''). valid_header h"
    by (rule response_headers_valid) (simp_all add: stripped_def blank_def LF_def CR_def)
  have "length (generateHtmlResponse ''KnetLib Performance Test'' ''Welcome to KnetLib HTTP Server Performance Test'') \<le> 500"
      "length (generateHtmlResponse ''Hello'' ''Hello from KnetLib!'') \<le> 500" "length ''OK'' \<le> 500" "length json_text \<le> 500"
    by (simp_all add: generateHtmlResponse_def json_text_def)
  note pages = this
  have page: ?thesis if "p \<in> set pages" "route p = generateHttpResponse content ty"
      "ty \<in> {''text/html'', ''text/plain'', ''application/json''}" "length content \<le> 500" for content ty
    using ok_page [OF that(3,4)] that(1,2) by simp
  show ?thesis
  proof (cases "p \<in> set pages")
    case True
    then consider "p = ''/'' \<or> p = ''/index.html''" | "p = ''/hello''" | "p = ''/plain''" | "p = ''/json''"
      by (auto simp: pages_def)
    then show ?thesis
    proof cases
      case 1
      then show ?thesis using page [OF True _ _ pages(1), of "''text/html''"] by (simp only: route_def if_True) blast
    next
      case 2
      then show ?thesis using page [OF True _ _ pages(2), of "''text/html''"] by (simp add: route_def)
    next
      case 3
      then show ?thesis using page [OF True _ _ pages(3), of "''text/plain''"] by (simp add: route_def)
    next
      case 4
      then show ?thesis using page [OF True _ _ pages(4), of "''application/json''"] by (simp add: route_def)
    qed
  next
    case False
    then have "route p = not_found" by (simp add: route_def pages_def)
    moreover have "length not_found \<le> 1000" by (simp add: not_found_def crlf_def)
    moreover have "map_of (rev (no_content ''keep-alive'')) ''Content-Length'' = Some (to_string (length ([] :: string)))"
      by (simp add: no_content_def)
    ultimately show ?thesis
      using False none empty_messages(1)
      by (intro exI [of _ "no_content ''keep-alive''"] exI [of _ "[]"]) simp
  qed
qed

lemma answer_ref:
  assumes "length raw < npos"
  shows "answer raw = Inr (if raw = [] then bad_request else route (req_path (reference_parse raw HttpRequest_new)))"
  using parse_ref [OF assms] by (simp add: answer_def)

lemma answer_message:
  assumes "length raw < npos"
  shows "\<exists>hs content. answer raw = Inr (print_message (if raw = [] then ''HTTP/1.1 400 Bad Request''
      else if req_path (reference_parse raw HttpRequest_new) \<in> set pages then ''HTTP/1.1 200 OK''
      else ''HTTP/1.1 404 Not Found'') hs content) \<and> (\<forall>h \<in> set hs. valid_header h) \<and>
    length (print_message (if raw = [] then ''HTTP/1.1 400 Bad Request''
      else if req_path (reference_parse raw HttpRequest_new) \<in> set pages then ''HTTP/1.1 200 OK''
      else ''HTTP/1.1 404 Not Found'') hs content) \<le> 1000 \<and>
    map_of (rev hs) ''Content-Length'' = Some (to_string (length content))"
proof (cases "raw = []")
  case True
  have bad: "\<forall>h \<in> set (no_content ''close''). valid_header h"
    by (rule response_headers_valid) (simp_all add: stripped_def blank_def LF_def CR_def)
  have len: "length bad_request \<le> 1000" by (simp add: bad_request_def crlf_def)
  have cl: "map_of (rev (no_content ''close'')) ''Content-Length'' = Some (to_string (length ([] :: string)))"
    by (simp add: no_content_def)
  have "answer raw = Inr bad_request" using answer_ref [OF assms] True by simp
  then show ?thesis
    using True bad len cl unfolding empty_messages(2)
    by (intro exI [of _ "no_content ''close''"] exI [of _ "[]"]) simp
next
  case False
  let ?p = "req_path (reference_parse raw HttpRequest_new)"
  obtain hs content where "route ?p = print_message (if ?p \<in> set pages then ''HTTP/1.1 200 OK'' else ''HTTP/1.1 404 Not Found'') hs content"
      "\<forall>h \<in> set hs. valid_header h" "map_of (rev hs) ''Content-Length'' = Some (to_string (length content))"
      "length (route ?p) \<le> 1000"
    using route_message by blast
  then show ?thesis
    using answer_ref [OF assms] False by (intro exI [of _ hs] exI [of _ content]) simp
qed

section \<open>The server on a connection\<close>

lemma string_of_length [simp]: "length (string_of bs) = length bs"
  by (simp add: string_of_def)

lemma bytes_of_length [simp]: "length (bytes_of s) = length s"
  by (simp add: bytes_of_def)

lemma answer_outcome:
  assumes "length raw < npos" shows "\<exists>resp. answer raw = Inr resp \<and> length resp \<le> 1000"
  using answer_message [OF assms] by (elim exE conjE) (intro exI conjI)

context conn_client
begin

lemma http_safe:
  assumes "inv w" shows "safe w (http_message env cur w)"
proof -
  let ?f = "\<lambda>msg. if length msg < npos then mapE bytes_of (answer (string_of msg)) else Inl Length_error"
  have "buffer_inv (inputBuffer (cn w))" using assms by (simp add: conn_inv_def conn_base_def)
  then have "length (contents (inputBuffer (cn w))) < npos"
    using inv_bounds [of "inputBuffer (cn w)"] by (simp add: length_contents readableBytes_eq max_size_def npos_def)
  moreover obtain b' where "retrieveAllAsString (inputBuffer (cn w)) = Inr (contents (inputBuffer (cn w)), b')"
    using retrieveAsString_ok [OF \<open>buffer_inv _\<close> order_refl] \<open>buffer_inv _\<close>
    by (auto simp: retrieveAllAsString_def length_contents)
  ultimately have "http_message env cur w = bindE (retrieveAllAsString (inputBuffer (cn w))) (\<lambda>(msg, b').
      bindE (?f msg) (\<lambda>out. send env cur out (upd_conn (inputBuffer_update (\<lambda>_. b')) w)))"
    by (simp add: http_message_def mapE_def bindE_assoc)
  moreover have "outcome {Length_error} (\<lambda>out. length out \<le> max_size) (?f msg)" for msg
    using answer_outcome [of "string_of msg"] by (auto simp: mapE_def max_size_def)
  ultimately show ?thesis using answer_safe [OF assms, of ?f] by simp
qed

end

lemma http_client:
  assumes "conn_client interest (only_close env) cur"
  shows "conn_client interest (http_env (only_close env) cur) cur"
  using message_client [OF assms conn_client.http_safe [OF assms]] by (simp add: http_env_def)

text \<open>The server over a kernel that delivers two bytes at a time and accepts everything.\<close>

definition greedy_os :: "(int \<rightharpoonup> epoll_event) os" where
  "greedy_os = demo_os\<lparr>os_write := \<lambda>f d k. (Inr (length d), k)\<rparr>"

lemma greedy_os_ok: "os_ok greedy_os (\<lambda>k. k)"
  using demo_os_ok by (simp add: os_ok_def greedy_os_def)

definition http_demo_env :: "(int \<rightharpoonup> epoll_event, nat) env" where
  "http_demo_env = http_env \<lparr>os_of = greedy_os, efd_of = counter_efd, ptr = 7, messageCallback = None,
     writeCompleteCallback = None, highWaterMarkCallback = None, closeCallback = Some (\<lambda>w. Inr w)\<rparr> 1"

interpretation http_server: conn_client "\<lambda>k. k" http_demo_env 1
proof -
  let ?env = "\<lparr>os_of = greedy_os, efd_of = counter_efd, ptr = 7, messageCallback = None,
     writeCompleteCallback = None, highWaterMarkCallback = None, closeCallback = Some (\<lambda>w. Inr w)\<rparr>
     :: (int \<rightharpoonup> epoll_event, nat) env"
  have "conn_client (\<lambda>k. k) ?env 1"
    using greedy_os_ok by (intro conn_client.intro) (simp_all add: hooks_ok_def call_opt_def safe_from_def)
  then show "conn_client (\<lambda>k. k) http_demo_env 1"
    using http_client [of "\<lambda>k. k" ?env 1] by (simp add: http_demo_env_def)
qed

lemma http_message_result:
  assumes c: "conn_client interest env cur" and inv: "conn_inv interest env cur w"
    and st: "state (cn w) = kConnected"
    and wr: "\<And>d k. fst (os_write (os_of env) (sockfd (cn w)) d k) \<notin> {Inl EPIPE, Inl ECONNRESET}"
    and run: "http_message env cur w = Inr w'"
  shows "\<exists>resp. answer (string_of (contents (inputBuffer (cn w)))) = Inr resp \<and>
    submitted w' = submitted w @ bytes_of resp \<and> contents (inputBuffer (cn w')) = [] \<and> state (cn w') = kConnected"
proof -
  let ?b = "inputBuffer (cn w)"
  have binv: "buffer_inv ?b" using inv by (simp add: conn_inv_def conn_base_def)
  then obtain b' where b': "retrieveAllAsString ?b = Inr (contents ?b, b')" "buffer_inv b'" "contents b' = []"
    using retrieveAsString_ok [OF binv order_refl] by (auto simp: retrieveAllAsString_def length_contents)
  let ?w = "upd_conn (inputBuffer_update (\<lambda>_. b')) w"
  have w: "conn_inv interest env cur ?w" "state (cn ?w) = kConnected" "submitted ?w = submitted w"
      "inputBuffer (cn ?w) = b'" "sockfd (cn ?w) = sockfd (cn w)"
    using inv b'(2) st
    by (simp_all add: conn_inv_def conn_base_def live_def registered_def dead_def world_defs)
  have "length (string_of (contents ?b)) < npos"
    using binv inv_bounds [of ?b] by (simp add: length_contents readableBytes_eq max_size_def npos_def)
  then obtain hs content start where resp: "answer (string_of (contents ?b)) = Inr (print_message start hs content)"
      "length (print_message start hs content) \<le> 1000"
    using answer_message by blast
  let ?resp = "bytes_of (print_message start hs content)"
  have "send env cur ?resp ?w = Inr w'" using run b'(1) resp(1) by (simp add: http_message_def)
  then have "sendInLoop env cur ?resp ?w = Inr w'" using w(2) conn_inv_inLoop [OF w(1)] by (simp add: send_def)
  moreover have "?resp \<noteq> []" "length ?resp \<le> max_size"
    using resp(2) by (simp_all add: bytes_of_def print_message_def crlf_def max_size_def)
  ultimately show ?thesis
    using sendInLoop_result [OF c w(1)] w(2-5) wr resp(1) b'(3) by simp
qed

section \<open>Properties of the HTTP server\<close>

text \<open>C27: The request parser equals its reference. For every text that fits a \<open>std::string\<close>, and whatever
  the request held before, \<open>parse\<close> never throws, returns false exactly for the empty text, and
  otherwise takes the first three words of the first line as method, path and version and adds the
  headers of the lines up to the first blank one, keys and values freed of surrounding blanks, later
  ones replacing earlier ones.\<close>

theorem parse_equals_reference:
  assumes "length raw < npos"
  shows "parse raw r = Inr (if raw = [] then (False, r) else (True, reference_parse raw r))"
  using assms by (rule parse_ref)

theorem parse_equals_reference_witness:
  "parse (''GET  /plain'' @ [LF] @ ''a : b'' @ crlf @ ''x'') HttpRequest_new =
     Inr (True, HttpRequest_new\<lparr>req_method := ''GET'', req_path := ''/plain'', req_headers := [''a'' \<mapsto> ''b'']\<rparr>)"
  using parse_equals_reference [of "''GET  /plain'' @ [LF] @ ''a : b'' @ crlf @ ''x''" HttpRequest_new]
  by (simp add: npos_def reference_parse_def words_of_def word_or_def header_lines_def header_of_def strip_def
      blank_def isspace_def crlf_def LF_def CR_def HttpRequest_new_def map_filter_simps)

text \<open>C28: A request that was written is read back. For a method, a path and a version without white space
  and headers whose keys and values have no line end, no blanks at their ends and no colon in the
  key, parsing the written request gives exactly these, whatever body follows the blank line.\<close>

theorem request_roundtrip:
  assumes "is_word m" and "is_word p" and "is_word v" and "\<forall>h \<in> set hs. valid_header h"
    and "length (print_message (m @ '' '' @ p @ '' '' @ v) hs content) < npos"
  shows "parse (print_message (m @ '' '' @ p @ '' '' @ v) hs content) HttpRequest_new =
    Inr (True, \<lparr>req_method = m, req_path = p, req_version = v, req_headers = map_of (rev hs), req_body = []\<rparr>)"
proof -
  have sp: "isspace (CHR '' '')" "isspace CR" "isspace LF" by (simp_all add: isspace_def)
  then have lf: "LF \<notin> set (m @ '' '' @ p @ '' '' @ v)"
    using assms(1-3) by (auto simp: is_word_def LF_def)
  have "words_of ((m @ '' '' @ p @ '' '' @ v) @ [CR]) = [m, p, v]"
    using words_of_is_word [OF assms(1) sp(1), of "p @ '' '' @ v @ [CR]"]
      words_of_is_word [OF assms(2) sp(1), of "v @ [CR]"] words_of_is_word [OF assms(3) sp(2), of "[]"] by simp
  then show ?thesis
    using parse_message [OF lf assms(4,5)] by (simp add: word_or_def HttpRequest_new_def)
qed

theorem request_roundtrip_witness:
  "parse (print_message (''GET'' @ '' '' @ ''/json'' @ '' '' @ ''HTTP/1.1'') [(''Host'', ''a:80'')] ''body'') HttpRequest_new =
     Inr (True, \<lparr>req_method = ''GET'', req_path = ''/json'', req_version = ''HTTP/1.1'',
       req_headers = [''Host'' \<mapsto> ''a:80''], req_body = []\<rparr>)"
  using request_roundtrip [of "''GET''" "''/json''" "''HTTP/1.1''" "[(''Host'', ''a:80'')]" "''body''"]
  by (simp add: is_word_def isspace_def valid_header_def stripped_def blank_def LF_def CR_def print_message_def
      header_text_def crlf_def npos_def)

text \<open>C29: Every answer of the HTTP server is a well-formed message that announces the length of its content:
  status 200 for the five pages, 404 for every other path and 400 exactly for an empty request. Read
  with the same parser, the answer has a Content-Length that is the number of characters after its
  blank line.\<close>

theorem answer_framed:
  assumes "length raw < npos"
  shows "\<exists>hs content resp r.
    resp = print_message (if raw = [] then ''HTTP/1.1 400 Bad Request''
      else if req_path (reference_parse raw HttpRequest_new) \<in> set pages then ''HTTP/1.1 200 OK''
      else ''HTTP/1.1 404 Not Found'') hs content \<and>
    answer raw = Inr resp \<and> (\<forall>h \<in> set hs. valid_header h) \<and> length resp \<le> 1000 \<and>
    parse resp HttpRequest_new = Inr (True, r) \<and>
    req_headers r ''Content-Length'' = Some (to_string (length content))"
proof -
  define status where "status = (if raw = [] then ''HTTP/1.1 400 Bad Request''
      else if req_path (reference_parse raw HttpRequest_new) \<in> set pages then ''HTTP/1.1 200 OK''
      else ''HTTP/1.1 404 Not Found'')"
  have "\<exists>hs content. answer raw = Inr (print_message status hs content) \<and> (\<forall>h \<in> set hs. valid_header h) \<and>
      length (print_message status hs content) \<le> 1000 \<and>
      map_of (rev hs) ''Content-Length'' = Some (to_string (length content))"
    using answer_message [OF assms] unfolding status_def .
  then obtain hs content where m: "answer raw = Inr (print_message status hs content)" "\<forall>h \<in> set hs. valid_header h"
      "length (print_message status hs content) \<le> 1000"
      "map_of (rev hs) ''Content-Length'' = Some (to_string (length content))"
    by blast
  have "LF \<notin> set status" by (simp add: status_def LF_def)
  moreover have "length (print_message status hs content) < npos" using m(3) by (simp add: npos_def)
  ultimately show ?thesis
    using m parse_message [of status hs content] unfolding status_def [symmetric]
    by - (rule exI [of _ hs], rule exI [of _ content], simp)
qed

theorem answer_framed_witness:
  "\<exists>hs content. answer ''GET /plain HTTP/1.1'' = Inr (print_message ''HTTP/1.1 200 OK'' hs content)"
proof -
  have "req_path (reference_parse ''GET /plain HTTP/1.1'' HttpRequest_new) = ''/plain''"
    by (simp add: reference_parse_def words_of_def word_or_def isspace_def LF_def CR_def)
  then show ?thesis
    using answer_framed [of "''GET /plain HTTP/1.1''"] by (auto simp: npos_def pages_def)
qed

text \<open>C30: The HTTP server answers what it reads. When data arrives on a connected connection and the answer can
  be written or stored, the bytes submitted grow by exactly the answer to the unread input followed
  by the new data, the input is used up and the connection stays open. Each arrival is answered on
  its own: a request that arrives in two pieces gets two answers.\<close>

theorem http_serves:
  assumes "os_ok (os_of env) interest" and "hooks_ok interest (only_close env) cur"
    and "reach (conn_start interest (http_env (only_close env) cur) cur) (conn_step (http_env (only_close env) cur) cur alive) w"
    and "state (cn w) = kConnected"
    and "fst (os_readv (os_of env) (sockfd (cn w)) (readFd_iov (inputBuffer (cn w))) (kern w)) = Inr bs" and "bs \<noteq> []"
    and "\<And>d k. fst (os_write (os_of env) (sockfd (cn w)) d k) \<notin> {Inl EPIPE, Inl ECONNRESET}"
    and "handleRead (http_env (only_close env) cur) cur w = Inr w'"
  shows "\<exists>resp. answer (string_of (contents (inputBuffer (cn w)) @ bs)) = Inr resp \<and>
    submitted w' = submitted w @ bytes_of resp \<and> contents (inputBuffer (cn w')) = [] \<and> state (cn w') = kConnected"
proof -
  let ?env = "only_close env" and ?e = "http_env (only_close env) cur" and ?b = "inputBuffer (cn w)"
  have c: "conn_client interest ?env cur" using assms(1,2) by (intro conn_client.intro) simp_all
  have "conn_inv interest ?e cur w"
    using conn_run.reachable_inv [OF assms(3)] http_client [OF c] by simp
  moreover have "conn_inv interest ?e cur = conn_inv interest ?env cur"
    by (rule conn_inv_env) (simp_all add: http_env_def)
  ultimately have inv: "conn_inv interest ?env cur w" by simp
  let ?rd = "\<lambda>iov. fst (os_readv (os_of env) (sockfd (cn w)) iov (kern w))"
  let ?k = "snd (os_readv (os_of env) (sockfd (cn w)) (readFd_iov ?b) (kern w))"
  have binv: "buffer_inv ?b" using inv by (simp add: conn_inv_def conn_base_def)
  have "length bs \<le> sum_list (readFd_iov ?b)"
    using assms(1,5) by (simp add: os_ok_def readv_ok_def)
  from readFd_outcome [of ?b ?rd bs, OF binv assms(5) this]
  obtain n e b' where b': "readFd ?rd ?b = Inr (n, e, b')" "n = int (length bs)" "buffer_inv b'" "contents b' = contents ?b @ bs"
    using assms(4,8) conn_inv_inLoop [OF inv]
    by (cases "readFd ?rd ?b") (auto simp: handleRead_def http_env_def Let_def)
  let ?w = "upd_conn (inputBuffer_update (\<lambda>_. b')) (w\<lparr>kern := ?k\<rparr>)"
  have w: "conn_inv interest ?env cur ?w" "state (cn ?w) = kConnected" "submitted ?w = submitted w"
      "inputBuffer (cn ?w) = b'" "sockfd (cn ?w) = sockfd (cn w)"
    using inv b'(3) assms(4) conn_client.sys_interest(2) [OF c]
    by (simp_all add: conn_inv_def conn_base_def live_def registered_def dead_def agrees_def world_defs)
  have "http_message ?env cur ?w = Inr w'"
    using assms(4,6,8) b'(1,2) conn_inv_inLoop [OF inv]
    by (simp add: handleRead_def http_env_def call_opt_def Let_def)
  from http_message_result [OF c w(1,2) _ this] show ?thesis using w(3-5) b'(4) assms(7) by simp
qed

theorem http_serves_witness:
  "\<exists>w' resp. handleRead http_demo_env 1 demo_world = Inr w' \<and> answer ''hi'' = Inr resp \<and> submitted w' = bytes_of resp"
proof -
  let ?E = "\<lparr>os_of = greedy_os, efd_of = counter_efd, ptr = 7, messageCallback = None,
     writeCompleteCallback = None, highWaterMarkCallback = None, closeCallback = Some (\<lambda>w. Inr w)\<rparr>
     :: (int \<rightharpoonup> epoll_event, nat) env"
  let ?rd = "\<lambda>iov. fst (os_readv greedy_os 5 iov (kern demo_world))"
  have d: "inputBuffer (cn demo_world) = fresh_buffer" "sockfd (cn demo_world) = 5" "state (cn demo_world) = kConnected"
      "submitted demo_world = []" "isWriting (chan (cn demo_world)) = False" "outputBuffer (cn demo_world) = fresh_buffer"
      "tid (evloop demo_world) = 1"
    by (simp_all add: demo_world_def isWriting_def epoll_consts)
  have fb: "buffer_inv fresh_buffer" "contents fresh_buffer = []" "readableBytes fresh_buffer = 0" "writableBytes fresh_buffer = 1024"
    by (simp_all add: fresh_buffer_def buffer_inv_def contents_def slice_def kCheapPrepend_def max_size_def
        readableBytes_def writableBytes_def size_sub_def)
  have rd: "?rd (readFd_iov fresh_buffer) = Inr [104, 105]"
    by (simp add: greedy_os_def demo_os_def readFd_iov_def fb Let_def)
  obtain b' where b': "readFd ?rd fresh_buffer = Inr (2, None, b')" "buffer_inv b'" "contents b' = [104, 105]"
    using readFd_fit [of fresh_buffer ?rd "[104, 105]", OF fb(1) rd] fb by auto
  obtain b2 where b2: "retrieveAllAsString b' = Inr ([104, 105], b2)"
    using retrieveAsString_ok [OF b'(2) order_refl] b'(2,3)
    by (auto simp: retrieveAllAsString_def length_contents [symmetric])
  obtain resp where resp: "answer (string_of [104, 105]) = Inr resp"
    using answer_outcome [of "string_of [104, 105]"] by (auto simp: npos_def)
  have "\<exists>w'. handleRead http_demo_env 1 demo_world = Inr w'"
    using b'(1) b2 resp d fb
    by (simp add: handleRead_def http_demo_env_def http_env_def http_message_def call_opt_def Let_def send_def
        sendInLoop_def send_rest_def world_defs greedy_os_def)
  then obtain w' where w': "handleRead http_demo_env 1 demo_world = Inr w'" by blast
  have e: "http_demo_env = http_env (only_close ?E) 1"
    by (simp add: http_demo_env_def)
  have start: "conn_start (\<lambda>k. k) http_demo_env 1 demo_world"
    using demo_start_env [of http_demo_env 0] by (simp add: http_demo_env_def http_env_def greedy_os_def demo_os_def)
      (simp add: demo_world_def)
  have h: "hooks_ok (\<lambda>k. k) (only_close ?E) 1"
    by (simp add: hooks_ok_def call_opt_def safe_from_def)
  have r: "reach (conn_start (\<lambda>k. k) (http_env (only_close ?E) 1) 1) (conn_step (http_env (only_close ?E) 1) 1 (\<lambda>_. True)) demo_world"
    by (rule reach_init) (rule start [unfolded e])
  have "string_of [104, 105] = ''hi''" by (simp add: string_of_def char_of_def bit_0)
  then show ?thesis
    using http_serves [OF _ h r, of "[104, 105]" w'] w' d fb rd greedy_os_ok
    unfolding e by (simp add: greedy_os_def) blast
qed

end
