(* ===== verification/Chat_Client.thy ===== *)
theory Chat_Client
  imports Prelude
begin

text \<open>
  The interactive client of examples/client.cpp: a program with two threads, the one that runs the
  event loop with the callbacks of the client and the one that reads lines from the terminal, and a
  signal handler that interrupts either of them. They share four variables and a mutex. Each function
  is a sequence of small steps between which the other thread may run; a thread whose handler runs
  makes no step of its own. Terminal output is left out, a line is a string, and the end of the
  list of lines is the end of the input. The connection is what the program asks of it:
  \<open>g_connection\<close> is \<open>None\<close> for the null pointer and otherwise holds the answer of \<open>connected()\<close>.
  The model begins when \<open>loop()\<close> is running; a \<open>quit()\<close> before that would be lost (theorem
  \<open>early_quit_lost\<close> of \<open>Event_Loop\<close>).
\<close>

section \<open>State\<close>

datatype chat_thread = Loop_thread | Input_thread

text \<open>Where the input thread, the loop thread and the signal handler are.\<close>

datatype input_pos =
    Wait nat | After_wait | Read_line | Got string | Lock_for string | Locked_for string | Leave | Done

datatype loop_pos = In_loop | Callback_lock bool | Callback_locked bool | Joining | Returned

datatype handler_pos = Handler_lock | Handler_locked | Handler_quit

record chat =
  g_should_exit :: bool
  g_connected :: bool
  g_connection :: "bool option"
  g_conn_mutex :: "chat_thread option"
  quit_asked :: bool
  input_at :: input_pos
  loop_at :: loop_pos
  handler_at :: "(chat_thread \<times> handler_pos) option"
  cin :: "string list"
  sent_lines :: "string list"

definition chat_init :: "string list \<Rightarrow> chat" where
  "chat_init ls = \<lparr>g_should_exit = False, g_connected = False, g_connection = None, g_conn_mutex = None,
     quit_asked = False, input_at = Wait 0, loop_at = In_loop, handler_at = None, cin = ls, sent_lines = []\<rparr>"

section \<open>The input thread\<close>

definition max_waits :: nat where
  "max_waits = 100"

definition is_quit :: "string \<Rightarrow> bool" where
  "is_quit line \<longleftrightarrow> line = ''quit'' \<or> line = ''exit''"

text \<open>\<open>None\<close> is a thread that has returned or waits for the mutex.\<close>

definition inputThread :: "chat \<Rightarrow> chat option" where
  "inputThread s =
     (case input_at s of
        Wait wait_count \<Rightarrow>
          Some (if \<not> g_should_exit s \<and> \<not> g_connected s \<and> wait_count < max_waits
                then s\<lparr>input_at := Wait (Suc wait_count)\<rparr> else s\<lparr>input_at := After_wait\<rparr>)
      | After_wait \<Rightarrow> Some (s\<lparr>input_at := if g_connected s then Read_line else Leave\<rparr>)
      | Read_line \<Rightarrow>
          Some (if g_should_exit s then s\<lparr>input_at := Leave\<rparr>
                else (case cin s of [] \<Rightarrow> s\<lparr>input_at := Leave\<rparr> | line # ls \<Rightarrow> s\<lparr>cin := ls, input_at := Got line\<rparr>))
      | Got line \<Rightarrow>
          Some (if g_should_exit s then s\<lparr>input_at := Leave\<rparr>
                else if is_quit line then s\<lparr>g_should_exit := True, input_at := Leave\<rparr>
                else s\<lparr>input_at := Lock_for line\<rparr>)
      | Lock_for line \<Rightarrow>
          (if g_conn_mutex s = None then Some (s\<lparr>g_conn_mutex := Some Input_thread, input_at := Locked_for line\<rparr>)
           else None)
      | Locked_for line \<Rightarrow>
          Some (if g_connection s = Some True
                then s\<lparr>sent_lines := sent_lines s @ [line], g_conn_mutex := None, input_at := Read_line\<rparr>
                else s\<lparr>g_conn_mutex := None, input_at := Leave\<rparr>)
      | Leave \<Rightarrow> Some (s\<lparr>g_should_exit := True, quit_asked := True, input_at := Done\<rparr>)
      | Done \<Rightarrow> None)"

section \<open>The loop thread\<close>

text \<open>
  The connection callback takes the mutex first; its argument is the answer of \<open>connected()\<close>. When
  \<open>loop\<close> has returned, \<open>main\<close> waits for the input thread.
\<close>

definition connectionCallback :: "bool \<Rightarrow> chat \<Rightarrow> chat" where
  "connectionCallback up s =
     (if up then s\<lparr>g_connection := Some True, g_connected := True\<rparr>
      else s\<lparr>g_connected := False, g_connection := None\<rparr>)"

definition errorCallback :: "chat \<Rightarrow> chat" where
  "errorCallback s = s\<lparr>g_should_exit := True, quit_asked := True\<rparr>"

datatype loop_event = Conn_event bool | Conn_closes | Conn_error | Loop_returns

definition loop_thread :: "loop_event \<Rightarrow> chat \<Rightarrow> chat option" where
  "loop_thread ev s =
     (case loop_at s of
        In_loop \<Rightarrow>
          (case ev of
             Conn_event up \<Rightarrow> Some (s\<lparr>loop_at := Callback_lock up\<rparr>)
           | Conn_closes \<Rightarrow> Some (s\<lparr>g_connection := map_option (\<lambda>_. False) (g_connection s)\<rparr>)
           | Conn_error \<Rightarrow> Some (errorCallback s)
           | Loop_returns \<Rightarrow> if quit_asked s then Some (s\<lparr>loop_at := Joining\<rparr>) else None)
      | Callback_lock up \<Rightarrow>
          (if g_conn_mutex s = None then Some (s\<lparr>g_conn_mutex := Some Loop_thread, loop_at := Callback_locked up\<rparr>)
           else None)
      | Callback_locked up \<Rightarrow> Some ((connectionCallback up s)\<lparr>g_conn_mutex := None, loop_at := In_loop\<rparr>)
      | Joining \<Rightarrow> if input_at s = Done then Some (s\<lparr>loop_at := Returned\<rparr>) else None
      | Returned \<Rightarrow> None)"

section \<open>The signal handler\<close>

definition handler_start :: "chat_thread \<Rightarrow> chat \<Rightarrow> chat option" where
  "handler_start t s =
     (if handler_at s = None then Some (s\<lparr>g_should_exit := True, handler_at := Some (t, Handler_lock)\<rparr>) else None)"

text \<open>\<open>shutdown\<close> leaves the connection disconnecting, so that \<open>connected()\<close> is false afterwards.\<close>

definition signalHandler :: "chat \<Rightarrow> chat option" where
  "signalHandler s =
     (case handler_at s of
        None \<Rightarrow> None
      | Some (t, Handler_lock) \<Rightarrow>
          (if g_conn_mutex s = None then Some (s\<lparr>g_conn_mutex := Some t, handler_at := Some (t, Handler_locked)\<rparr>)
           else None)
      | Some (t, Handler_locked) \<Rightarrow>
          Some (s\<lparr>g_connection := (if g_connection s = Some True then Some False else g_connection s),
                  g_conn_mutex := None, handler_at := Some (t, Handler_quit)\<rparr>)
      | Some (t, Handler_quit) \<Rightarrow> Some (s\<lparr>quit_asked := True, handler_at := None\<rparr>))"

definition interrupted :: "chat_thread \<Rightarrow> chat \<Rightarrow> bool" where
  "interrupted t s \<longleftrightarrow> map_option fst (handler_at s) = Some t"

inductive chat_step :: "chat \<Rightarrow> chat \<Rightarrow> bool" where
  step_input: "\<not> interrupted Input_thread s \<Longrightarrow> inputThread s = Some s' \<Longrightarrow> chat_step s s'"
| step_loop: "\<not> interrupted Loop_thread s \<Longrightarrow> loop_thread ev s = Some s' \<Longrightarrow> chat_step s s'"
| step_signal: "handler_start t s = Some s' \<Longrightarrow> chat_step s s'"
| step_handler: "signalHandler s = Some s' \<Longrightarrow> chat_step s s'"

section \<open>Invariant\<close>

text \<open>
  \<open>typed ls p out rest\<close>: of the lines \<open>ls\<close> typed, those in \<open>out\<close> were sent, none of them a command to
  quit, those in \<open>rest\<close> are still to come, and at position \<open>p\<close> at most one is in between. The
  threads inside the critical sections are collected in \<open>critical\<close>.
\<close>

definition quiet_lines :: "string list \<Rightarrow> bool" where
  "quiet_lines out \<longleftrightarrow> (\<forall>l \<in> set out. \<not> is_quit l)"

fun typed :: "string list \<Rightarrow> input_pos \<Rightarrow> string list \<Rightarrow> string list \<Rightarrow> bool" where
  "typed ls (Got l) out rest \<longleftrightarrow> ls = out @ l # rest \<and> quiet_lines out"
| "typed ls (Lock_for l) out rest \<longleftrightarrow> ls = out @ l # rest \<and> quiet_lines (out @ [l])"
| "typed ls (Locked_for l) out rest \<longleftrightarrow> ls = out @ l # rest \<and> quiet_lines (out @ [l])"
| "typed ls Leave out rest \<longleftrightarrow> (\<exists>h. ls = out @ h @ rest \<and> length h \<le> 1) \<and> quiet_lines out"
| "typed ls Done out rest \<longleftrightarrow> (\<exists>h. ls = out @ h @ rest \<and> length h \<le> 1) \<and> quiet_lines out"
| "typed ls _ out rest \<longleftrightarrow> ls = out @ rest \<and> quiet_lines out"

fun input_critical :: "input_pos \<Rightarrow> chat_thread list" where
  "input_critical (Locked_for l) = [Input_thread]"
| "input_critical _ = []"

fun loop_critical :: "loop_pos \<Rightarrow> chat_thread list" where
  "loop_critical (Callback_locked up) = [Loop_thread]"
| "loop_critical _ = []"

fun handler_critical :: "(chat_thread \<times> handler_pos) option \<Rightarrow> chat_thread list" where
  "handler_critical (Some (t, Handler_locked)) = [t]"
| "handler_critical _ = []"

definition critical :: "chat \<Rightarrow> chat_thread list" where
  "critical s = input_critical (input_at s) @ loop_critical (loop_at s) @ handler_critical (handler_at s)"

definition chat_inv :: "string list \<Rightarrow> chat \<Rightarrow> bool" where
  "chat_inv ls s \<longleftrightarrow>
     typed ls (input_at s) (sent_lines s) (cin s) \<and>
     critical s = (case g_conn_mutex s of None \<Rightarrow> [] | Some t \<Rightarrow> [t]) \<and>
     (input_at s = Done \<longrightarrow> g_should_exit s \<and> quit_asked s) \<and>
     (loop_at s = Returned \<longrightarrow> input_at s = Done)"

lemma typed_short: "typed ls p out rest \<Longrightarrow> (\<exists>h. ls = out @ h @ rest \<and> length h \<le> 1) \<and> quiet_lines out"
  by (cases p) (auto simp: quiet_lines_def intro: exI [of _ "[]"] exI [of _ "[_]"])

lemma inputThread_inv:
  assumes inv: "chat_inv ls s" and step: "inputThread s = Some s'"
  shows "chat_inv ls s'"
proof (cases "input_at s")
  case (Read_line)
  then show ?thesis
    using inv step
    by (cases "cin s") (auto simp: inputThread_def chat_inv_def critical_def split: if_splits)
next
  case (Got line)
  then show ?thesis
    using inv step typed_short [of ls "Got line" "sent_lines s" "cin s"]
    by (auto simp: inputThread_def chat_inv_def critical_def quiet_lines_def simp del: typed.simps split: if_splits)
      (auto simp: quiet_lines_def)
next
  case (Locked_for line)
  then have m: "g_conn_mutex s = Some Input_thread" "critical s = [Input_thread]"
    using inv by (auto simp: chat_inv_def critical_def split: option.splits)
  then show ?thesis
    using Locked_for inv step typed_short [of ls "Locked_for line" "sent_lines s" "cin s"]
    by (cases "g_connection s = Some True") (auto simp: inputThread_def chat_inv_def critical_def)
qed (use inv step in \<open>auto simp: inputThread_def chat_inv_def critical_def split: if_splits\<close>)

lemma loop_thread_inv:
  assumes inv: "chat_inv ls s" and step: "loop_thread ev s = Some s'"
  shows "chat_inv ls s'"
proof (cases "loop_at s")
  case In_loop
  then show ?thesis
    using inv step by (cases ev) (auto simp: loop_thread_def errorCallback_def chat_inv_def critical_def split: if_splits)
next
  case (Callback_locked up)
  then have "g_conn_mutex s = Some Loop_thread" "critical s = [Loop_thread]"
    using inv by (auto simp: chat_inv_def critical_def append_eq_Cons_conv split: option.splits)
  then show ?thesis
    using Callback_locked inv step
    by (cases up) (auto simp: loop_thread_def connectionCallback_def chat_inv_def critical_def append_eq_Cons_conv)
qed (use inv step in \<open>auto simp: loop_thread_def chat_inv_def critical_def split: if_splits\<close>)

lemma handler_start_inv: "chat_inv ls s \<Longrightarrow> handler_start t s = Some s' \<Longrightarrow> chat_inv ls s'"
  by (auto simp: handler_start_def chat_inv_def critical_def split: if_splits)

lemma signalHandler_inv:
  assumes inv: "chat_inv ls s" and step: "signalHandler s = Some s'"
  shows "chat_inv ls s'"
proof -
  obtain t p where h: "handler_at s = Some (t, p)" using step by (auto simp: signalHandler_def split: option.splits)
  show ?thesis
  proof (cases p)
    case Handler_locked
    then have "g_conn_mutex s = Some t" "critical s = [t]"
      using inv h by (auto simp: chat_inv_def critical_def append_eq_Cons_conv split: option.splits)
    then show ?thesis
      using Handler_locked h inv step by (auto simp: signalHandler_def chat_inv_def critical_def append_eq_Cons_conv)
  qed (use h inv step in \<open>auto simp: signalHandler_def chat_inv_def critical_def split: if_splits\<close>)
qed

interpretation chat_run: inductive_invariant "\<lambda>s. s = chat_init ls" chat_step "chat_inv ls" for ls
proof
  show "chat_inv ls s" if "s = chat_init ls" for s
    using that by (simp add: chat_init_def chat_inv_def critical_def quiet_lines_def)
  show "chat_inv ls t" if "chat_inv ls s" "chat_step s t" for s t
    using that(2) by cases (rule inputThread_inv loop_thread_inv handler_start_inv signalHandler_inv; (rule that(1) | assumption))+
qed

section \<open>Progress of the input thread\<close>

text \<open>An upper bound for the number of steps the input thread still makes.\<close>

fun rank :: "input_pos \<Rightarrow> nat \<Rightarrow> nat" where
  "rank (Wait n) k = 4 * k + 4 + (max_waits - n)"
| "rank After_wait k = 4 * k + 3"
| "rank Read_line k = 4 * k + 2"
| "rank (Got l) k = 4 * k + 5"
| "rank (Lock_for l) k = 4 * k + 4"
| "rank (Locked_for l) k = 4 * k + 3"
| "rank Leave k = 1"
| "rank Done k = 0"

lemma inputThread_rank:
  assumes "inputThread s = Some s'"
  shows "rank (input_at s') (length (cin s')) < rank (input_at s) (length (cin s))"
proof (cases "input_at s")
  case Read_line
  then show ?thesis using assms by (cases "cin s") (auto simp: inputThread_def split: if_splits)
qed (use assms in \<open>auto simp: inputThread_def max_waits_def split: if_splits\<close>)

lemma inputThread_free:
  assumes "chat_inv ls s" and "inputThread s = Some s'" and "g_conn_mutex s \<in> {None, Some Input_thread}"
  shows "g_conn_mutex s' \<in> {None, Some Input_thread}"
  using assms(2,3) by (cases "input_at s") (auto simp: inputThread_def split: if_splits list.splits)

lemma inputThread_stuck:
  assumes "chat_inv ls s" and "inputThread s = None" and "g_conn_mutex s \<in> {None, Some Input_thread}"
    and "handler_at s = None"
  shows "input_at s = Done"
proof (cases "input_at s")
  case (Lock_for l)
  then have "critical s = [Input_thread]"
    using assms(1-3) by (auto simp: inputThread_def chat_inv_def split: if_splits)
  then show ?thesis
    using Lock_for assms(4) by (cases "loop_at s") (auto simp: critical_def)
qed (use assms(2) in \<open>auto simp: inputThread_def split: if_splits list.splits\<close>)

lemma inputThread_ends:
  assumes "chat_inv ls s" and "g_conn_mutex s \<in> {None, Some Input_thread}" and "handler_at s = None"
  shows "\<exists>n s'. n \<le> rank (input_at s) (length (cin s)) \<and> ((\<lambda>a b. inputThread a = Some b) ^^ n) s s' \<and>
    chat_inv ls s' \<and> input_at s' = Done"
  using assms
proof (induction "rank (input_at s) (length (cin s))" arbitrary: s rule: less_induct)
  case less
  show ?case
  proof (cases "inputThread s")
    case None
    then show ?thesis
      using inputThread_stuck [OF less.prems(1) None less.prems(2,3)] less.prems(1)
      by (intro exI [of _ 0] exI [of _ s]) simp
  next
    case (Some t)
    have t: "chat_inv ls t" "g_conn_mutex t \<in> {None, Some Input_thread}"
      using inputThread_inv [OF less.prems(1) Some] inputThread_free [OF less.prems(1) Some less.prems(2)] .
    have h: "handler_at t = None"
      using Some less.prems(3)
      by (cases "input_at s") (auto simp: inputThread_def split: if_splits list.splits)
    obtain n s' where "n \<le> rank (input_at t) (length (cin t))" "((\<lambda>a b. inputThread a = Some b) ^^ n) t s'"
        "chat_inv ls s'" "input_at s' = Done"
      using less.hyps [OF inputThread_rank [OF Some] t h] by blast
    moreover from this have "((\<lambda>a b. inputThread a = Some b) ^^ Suc n) s s'"
      using Some by (intro relpowp_Suc_I2 [of _ s t]) simp_all
    ultimately show ?thesis
      using inputThread_rank [OF Some] by (intro exI [of _ "Suc n"] exI [of _ s']) simp
  qed
qed

definition stuck :: "string list \<Rightarrow> chat_thread \<Rightarrow> chat \<Rightarrow> bool" where
  "stuck ls t s \<longleftrightarrow> chat_inv ls s \<and> handler_at s = Some (t, Handler_lock) \<and> g_conn_mutex s = Some t"

lemma stuck_holder:
  assumes "stuck ls t s"
  shows "case t of Input_thread \<Rightarrow> (\<exists>l. input_at s = Locked_for l) \<and> loop_critical (loop_at s) = []
    | Loop_thread \<Rightarrow> (\<exists>up. loop_at s = Callback_locked up) \<and> input_critical (input_at s) = []"
proof -
  have "input_critical (input_at s) @ loop_critical (loop_at s) = [t]"
    using assms by (auto simp: stuck_def chat_inv_def critical_def)
  then show ?thesis by (cases "input_at s"; cases "loop_at s"; cases t) simp_all
qed

lemma stuck_step:
  assumes "stuck ls t s" and "chat_step s s'"
  shows "stuck ls t s'"
proof -
  have s: "handler_at s = Some (t, Handler_lock)" "g_conn_mutex s = Some t" and inv: "chat_inv ls s'"
    using assms chat_run.step_inv by (auto simp: stuck_def)
  have "handler_at s' = Some (t, Handler_lock) \<and> g_conn_mutex s' = Some t"
    using assms(2)
  proof cases
    case step_input
    then have "t = Loop_thread" using s by (cases t) (auto simp: interrupted_def)
    then show ?thesis
      using stuck_holder [OF assms(1)] step_input(2) s
      by (cases "input_at s") (auto simp: inputThread_def split: if_splits list.splits)
  next
    case (step_loop ev)
    then have "t = Input_thread" using s by (cases t) (auto simp: interrupted_def)
    then show ?thesis
      using stuck_holder [OF assms(1)] step_loop(2) s
      by (cases "loop_at s"; cases ev) (auto simp: loop_thread_def errorCallback_def split: if_splits)
  qed (use s in \<open>auto simp: handler_start_def signalHandler_def\<close>)
  then show ?thesis using inv by (simp add: stuck_def)
qed

text \<open>A run given by who makes the next step.\<close>

datatype chat_move = Input_move | Loop_move loop_event | Signal_to chat_thread | Handler_move

fun move :: "chat_move \<Rightarrow> chat \<Rightarrow> chat option" where
  "move Input_move s = (if interrupted Input_thread s then None else inputThread s)"
| "move (Loop_move ev) s = (if interrupted Loop_thread s then None else loop_thread ev s)"
| "move (Signal_to t) s = handler_start t s"
| "move Handler_move s = signalHandler s"

fun moves :: "chat_move list \<Rightarrow> chat \<Rightarrow> chat option" where
  "moves [] s = Some s"
| "moves (m # ms) s = (case move m s of None \<Rightarrow> None | Some s' \<Rightarrow> moves ms s')"

lemma move_step: "move m s = Some s' \<Longrightarrow> chat_step s s'"
  by (cases m) (auto intro: chat_step.intros split: if_splits)

lemma moves_reach:
  "reach init chat_step s \<Longrightarrow> moves ms s = Some s' \<Longrightarrow> reach init chat_step s'"
  by (induction ms arbitrary: s) (auto split: option.splits dest: move_step reach_step)

text \<open>The connection comes up and the first of two lines is typed and sent; then a signal reaches the holder of the mutex.\<close>

definition two_lines :: "string list" where
  "two_lines = [''hello'', ''quit'']"

lemma after_connect:
  "\<exists>s. reach (\<lambda>s. s = chat_init two_lines) chat_step s \<and> g_conn_mutex s = None \<and> handler_at s = None \<and>
       sent_lines s = [''hello''] \<and> cin s = [''quit''] \<and> input_at s = Read_line"
proof -
  let ?ms = "[Loop_move (Conn_event True), Loop_move Conn_closes, Loop_move Conn_closes, Input_move, Input_move, Input_move,
    Input_move, Input_move, Input_move]"
  obtain s where s: "moves ?ms (chat_init two_lines) = Some s" "g_conn_mutex s = None" "handler_at s = None"
      "sent_lines s = [''hello'']" "cin s = [''quit'']" "input_at s = Read_line"
    by (simp add: chat_init_def two_lines_def interrupted_def inputThread_def loop_thread_def connectionCallback_def
        max_waits_def is_quit_def)
  have "reach (\<lambda>s. s = chat_init two_lines) chat_step (chat_init two_lines)" by (rule reach_init) simp
  from moves_reach [OF this s(1)] show ?thesis using s(2-6) by blast
qed

lemma interrupted_holder:
  "\<exists>s. reach (\<lambda>s. s = chat_init two_lines) chat_step s \<and> handler_at s = Some (Loop_thread, Handler_lock) \<and>
       g_conn_mutex s = Some Loop_thread"
proof -
  let ?ms = "[Loop_move (Conn_event True), Loop_move Conn_closes, Signal_to Loop_thread]"
  obtain s where s: "moves ?ms (chat_init two_lines) = Some s" "handler_at s = Some (Loop_thread, Handler_lock)"
      "g_conn_mutex s = Some Loop_thread"
    by (simp add: chat_init_def two_lines_def interrupted_def loop_thread_def handler_start_def)
  have "reach (\<lambda>s. s = chat_init two_lines) chat_step (chat_init two_lines)" by (rule reach_init) simp
  from moves_reach [OF this s(1)] show ?thesis using s(2,3) by blast
qed

section \<open>Properties of the client program\<close>

text \<open>C31: The interactive client sends what is typed. In every reachable state the lines sent are the first
  lines typed, in order and without a command to quit; at most one line is neither sent nor still to
  be read. The two threads and the signal handler exclude each other at the shared pointer. When the input
  thread has ended, the program was told to exit and the loop to quit, and \<open>main\<close> returns only then.\<close>

theorem chat_sends_typed:
  assumes "reach (\<lambda>s. s = chat_init ls) chat_step s"
  shows "(\<exists>h. ls = sent_lines s @ h @ cin s \<and> length h \<le> 1) \<and> (\<forall>l \<in> set (sent_lines s). \<not> is_quit l) \<and>
    length (critical s) \<le> 1 \<and>
    (input_at s = Done \<longrightarrow> g_should_exit s \<and> quit_asked s) \<and> (loop_at s = Returned \<longrightarrow> input_at s = Done)"
  using chat_run.reachable_inv [OF assms] typed_short [of ls "input_at s" "sent_lines s" "cin s"]
  by (auto simp: chat_inv_def quiet_lines_def split: option.splits)

theorem chat_sends_typed_witness:
  "\<exists>s. sent_lines s = [''hello''] \<and> cin s = [''quit''] \<and> length (critical s) \<le> 1 \<and>
       reach (\<lambda>s. s = chat_init two_lines) chat_step s"
  using after_connect chat_sends_typed [of two_lines] by blast

text \<open>C32: The input thread ends. From every reachable state in which it can get the mutex and no signal is being
  handled, at most \<open>104 + 4 n\<close> steps, for \<open>n\<close> lines to come, lead to its end, without a connection too: it
  gives up after a hundred waits. Then the loop has been told to quit.\<close>

theorem chat_input_ends:
  assumes "reach (\<lambda>s. s = chat_init ls) chat_step s"
    and "g_conn_mutex s \<in> {None, Some Input_thread}" and "handler_at s = None"
  shows "\<exists>n s'. n \<le> 104 + 4 * length (cin s) \<and>
    ((\<lambda>a b. inputThread a = Some b) ^^ n) s s' \<and> input_at s' = Done \<and> g_should_exit s' \<and> quit_asked s'"
proof -
  have "rank (input_at s) (length (cin s)) \<le> 104 + 4 * length (cin s)"
    by (cases "input_at s") (simp_all add: max_waits_def)
  moreover obtain n s' where n: "n \<le> rank (input_at s) (length (cin s))" "((\<lambda>a b. inputThread a = Some b) ^^ n) s s'"
      "chat_inv ls s'" "input_at s' = Done"
    using inputThread_ends [OF chat_run.reachable_inv [OF assms(1)] assms(2,3)] by blast
  ultimately show ?thesis by (intro exI [of _ n] exI [of _ s']) (auto simp: chat_inv_def)
qed

theorem chat_input_ends_witness:
  "\<exists>s n s'. sent_lines s = [''hello''] \<and> n \<le> 108 \<and> ((\<lambda>a b. inputThread a = Some b) ^^ n) s s' \<and> input_at s' = Done \<and> quit_asked s'"
proof -
  obtain s where "reach (\<lambda>s. s = chat_init two_lines) chat_step s" "g_conn_mutex s = None" "handler_at s = None"
      "sent_lines s = [''hello'']" "cin s = [''quit'']"
    using after_connect by blast
  then show ?thesis using chat_input_ends [of two_lines s] by fastforce
qed

text \<open>A signal delivered to the thread that holds the mutex stops the program for good: the handler waits for a
  mutex that its own thread holds, and whatever else happens \<open>main\<close> never returns.\<close>

theorem signal_deadlocks:
  assumes "reach (\<lambda>s. s = chat_init ls) chat_step s"
    and "handler_at s = Some (t, Handler_lock)" and "g_conn_mutex s = Some t" and "chat_step\<^sup>*\<^sup>* s s'"
  shows "handler_at s' = Some (t, Handler_lock) \<and> g_conn_mutex s' = Some t \<and> loop_at s' \<noteq> Returned"
proof -
  have "stuck ls t s" using assms(2,3) chat_run.reachable_inv [OF assms(1)] by (simp add: stuck_def)
  with assms(4) have st: "stuck ls t s'" by (induction rule: rtranclp_induct) (auto intro: stuck_step)
  moreover have "loop_at s' \<noteq> Returned"
    using stuck_holder [OF st] st by (cases t) (auto simp: stuck_def chat_inv_def)
  ultimately show ?thesis by (simp add: stuck_def)
qed

theorem signal_deadlocks_witness:
  "\<exists>s. g_conn_mutex s = Some Loop_thread \<and> (\<forall>s'. chat_step\<^sup>*\<^sup>* s s' \<longrightarrow> loop_at s' \<noteq> Returned)"
  using interrupted_holder signal_deadlocks [of two_lines] by blast

end
