(* ===== verification/Conn_View.thy ===== *)
theory Conn_View
  imports Tcp_Connection_Safety
begin

text \<open>
  What a connection does to the data that passes through it. A \<open>view\<close> of a connection is a property of
  its state, the bytes the kernel accepted, the bytes submitted, the unread input and the kernel. The
  locales \<open>conn_flow\<close> and \<open>conn_view\<close> list what the system calls and the callbacks must do to such a property; their
  lemmas show that then every event, task and call keeps it, whatever else happens. Properties of a
  server or a client that concern its data (what it answered, what it printed) are instances.
\<close>

type_synonym 'k stream_pred = "conn_state \<Rightarrow> byte list \<Rightarrow> byte list \<Rightarrow> byte list \<Rightarrow> 'k \<Rightarrow> bool"

text \<open>
  \<open>okd\<close> is what other parties may send on the connection; such data may wait in the queue of the
  loop. \<open>fd\<close> is the descriptor of the channel: the poller is only asked about it.
\<close>

definition view :: "int \<Rightarrow> (byte list \<Rightarrow> bool) \<Rightarrow> int \<Rightarrow> 'k stream_pred \<Rightarrow> ('k, 'e) world \<Rightarrow> bool" where
  "view cur okd fd P w \<longleftrightarrow> tid (evloop w) = cur \<and> chanfd (chan (cn w)) = fd \<and>
     P (state (cn w)) (sent w) (submitted w) (contents (inputBuffer (cn w))) (kern w) \<and>
     buffer_inv (inputBuffer (cn w)) \<and>
     (\<forall>d. SendTask d \<in> set (pendingTasks (evloop w)) \<longrightarrow> okd d)"

text \<open>An event whose data, if it sends any, is allowed.\<close>

fun event_data_ok :: "(byte list \<Rightarrow> bool) \<Rightarrow> conn_event \<Rightarrow> bool" where
  "event_data_ok okd (Call c (Send d)) \<longleftrightarrow> okd d"
| "event_data_ok okd _ \<longleftrightarrow> True"

lemma view_frame:
  assumes "view cur okd fd P w" and "state (cn w') = state (cn w)" "sent w' = sent w" "submitted w' = submitted w"
    "inputBuffer (cn w') = inputBuffer (cn w)" "chanfd (chan (cn w')) = chanfd (chan (cn w))" "kern w' = kern w" "pendingTasks (evloop w') = pendingTasks (evloop w)"
    "tid (evloop w') = tid (evloop w)"
  shows "view cur okd fd P w'"
  using assms by (simp add: view_def)

lemma view_chan [simp]:
  "view cur okd fd P (upd_chan (handlingEvents_update f) w) = view cur okd fd P w"
  "view cur okd fd P (upd_chan (setRevents r) w) = view cur okd fd P w"
  by (simp_all add: view_def upd_chan_def setRevents_def)

lemma view_queue:
  "view cur okd fd P w \<Longrightarrow> (\<And>d. t = SendTask d \<Longrightarrow> okd d) \<Longrightarrow> view cur okd fd P (queue env c t w)"
  by (auto simp: view_def)

text \<open>The poller changes the kernel only through \<open>epoll_ctl\<close>.\<close>

lemma updateChannel_op_kernel:
  assumes "updateChannel_op ctl x p ch k = Inr k'" and "\<And>k x ev. Q k \<Longrightarrow> Q (snd (ctl x (chanfd ch) ev k))" and "Q k"
  shows "Q k'"
  using assms(1) assms(2) [OF assms(3), of x "\<lparr>ev_events = events ch, ev_ptr = p\<rparr>"]
  by (auto simp: updateChannel_op_def split: prod.splits option.splits if_splits)

lemma registration_kernel:
  assumes "f \<in> {enableRead ctl b p, enableWrite ctl b p, disableRead ctl b p, disableWrite ctl b p, removeChannel ctl b p}"
    and "f (ch, k) = Inr (ch', k')" and "\<And>k x ev. Q k \<Longrightarrow> Q (snd (ctl x (chanfd ch) ev k))" and "Q k"
  shows "Q k' \<and> chanfd ch' = chanfd ch"
proof -
  have op: "Q k'" if "updateChannel_op ctl x p c k = Inr k'" "chanfd c = chanfd ch" for x c
    using updateChannel_op_kernel [OF that(1), of Q] assms(3,4) that(2) by simp
  have "Q k' \<and> chanfd ch' = chanfd ch" if "update ctl b p (c, k) = Inr (ch', k')" "chanfd c = chanfd ch" for c
    using that by (auto simp: update_def updateChannel_def Let_def result_iffs intro: op split: if_splits)
  moreover have "Q k' \<and> chanfd ch' = chanfd ch" if "removeChannel ctl b p (ch, k) = Inr (ch', k')"
    using that assms(4) by (auto simp: removeChannel_def result_iffs intro: op split: if_splits)
  ultimately show ?thesis
    using assms(1,2) by (auto simp: enableRead_def enableWrite_def disableRead_def disableWrite_def)
qed

section \<open>The laws\<close>

locale conn_flow =
  fixes env :: "('k, 'e) env" and cur :: int and okd :: "byte list \<Rightarrow> bool" and fd :: int and S :: "'k stream_pred"
  assumes ctl_S: "S st s u i k \<Longrightarrow> S st s u i (snd (os_ctl (os_of env) x fd ev k))"
    and write_S: "S st s u i k \<Longrightarrow> fst (os_write (os_of env) f d k) = Inr n \<Longrightarrow>
      S st (s @ take n d) u i (snd (os_write (os_of env) f d k))"
    and no_write_S: "S st s u i k \<Longrightarrow> fst (os_write (os_of env) f d k) = Inl e \<Longrightarrow>
      S st s u i (snd (os_write (os_of env) f d k))"
    and sockopt_S: "S st s u i k \<Longrightarrow> S st s u i (snd (os_getsockopt (os_of env) f k))"
    and shutdown_S: "S st s u i k \<Longrightarrow> S st s u i (snd (os_shutdown (os_of env) f k))"
    and close_S: "S st s u i k \<Longrightarrow> st' \<in> {kDisconnecting, kDisconnected} \<Longrightarrow> S st' s u i k"
    and closed_S: "view cur okd fd S w \<Longrightarrow> call_opt (closeCallback env) w = Inr w' \<Longrightarrow> view cur okd fd S w'"
begin

abbreviation keeps :: "('k, 'e) world result \<Rightarrow> bool" where
  "keeps \<equiv> outcome UNIV (view cur okd fd S)"

lemma keepsI: "(\<And>w'. r = Inr w' \<Longrightarrow> view cur okd fd S w') \<Longrightarrow> keeps r"
  by (cases r) auto

lemma keeps_bind: "keeps r \<Longrightarrow> (\<And>w. view cur okd fd S w \<Longrightarrow> keeps (f w)) \<Longrightarrow> keeps (bindE r f)"
  unfolding outcome_bindE by (rule outcome_weaken)

lemma view_state: "view cur okd fd S w \<Longrightarrow> st \<in> {kDisconnecting, kDisconnected} \<Longrightarrow> view cur okd fd S (set_state st w)"
  using close_S by (auto simp: view_def world_defs)

lemma registration_keeps:
  assumes "view cur okd fd S w"
    and "f \<in> {enableRead (os_ctl (os_of env)) b p, enableWrite (os_ctl (os_of env)) b p,
      disableRead (os_ctl (os_of env)) b p, disableWrite (os_ctl (os_of env)) b p, removeChannel (os_ctl (os_of env)) b p}"
  shows "keeps (chan_do f w)"
proof (rule keepsI)
  fix w' assume run: "chan_do f w = Inr w'"
  then obtain ch k where fk: "f (chan (cn w), kern w) = Inr (ch, k)" and k: "kern w' = k"
    by (auto simp: chan_do_def upd_chan_def result_iffs)
  let ?Q = "S (state (cn w)) (sent w) (submitted w) (contents (inputBuffer (cn w)))"
  have fd: "chanfd (chan (cn w)) = fd" using assms(1) by (simp add: view_def)
  have "?Q k \<and> chanfd ch = chanfd (chan (cn w))"
    by (rule registration_kernel [OF assms(2) fk]) (use assms(1) fd ctl_S in \<open>simp_all add: view_def\<close>)
  moreover have "chan (cn w') = ch" using run fk by (auto simp: chan_do_def upd_chan_def)
  ultimately show "view cur okd fd S w'"
    using assms(1) k chan_do_frame [OF run] by (simp add: view_def)
qed

lemma channel_keeps:
  assumes "view cur okd fd S w"
  shows "keeps (chan_do (enableRead (os_ctl (os_of env)) b p) w)" "keeps (chan_do (enableWrite (os_ctl (os_of env)) b p) w)"
    "keeps (chan_do (disableRead (os_ctl (os_of env)) b p) w)" "keeps (chan_do (disableWrite (os_ctl (os_of env)) b p) w)"
    "keeps (chan_do (removeChannel (os_ctl (os_of env)) b p) w)"
  by (rule registration_keeps [OF assms, of _ b p], simp)+

section \<open>The operations keep a view\<close>

lemma handleClose_keeps:
  assumes "view cur okd fd S w" shows "keeps (handleClose env cur w)"
proof -
  have cb: "keeps (case closeCallback env of None \<Rightarrow> Inr v | Some cb \<Rightarrow> cb (v\<lparr>closeCalls := Suc (closeCalls v)\<rparr>))"
    if "view cur okd fd S v" for v
  proof (cases "closeCallback env")
    case (Some cb)
    have "view cur okd fd S (v\<lparr>closeCalls := Suc (closeCalls v)\<rparr>)" by (rule view_frame [OF that]) simp_all
    from closed_S [OF this] show ?thesis using Some by (simp add: call_opt_def keepsI)
  qed (simp add: that)
  have rem: "keeps (chan_do (removeChannel (os_ctl (os_of env)) b (ptr env)) (set_state kDisconnected w))" for b
    by (rule channel_keeps) (simp add: view_state assms)
  show ?thesis
    unfolding handleClose_def Let_def outcome_bindE outcome_assertE
    by (intro conjI impI outcome_weaken [OF rem cb]) simp_all
qed

lemma handleError_keeps: "view cur okd fd S w \<Longrightarrow> keeps (handleError env cur w)"
  using handleClose_keeps [of "w\<lparr>kern := snd (os_getsockopt (os_of env) (sockfd (cn w)) (kern w))\<rparr>"] sockopt_S
  by (auto simp: handleError_def outcome_simps view_def)

lemma shutdownInLoop_keeps: "view cur okd fd S w \<Longrightarrow> keeps (shutdownInLoop env c w)"
  using shutdown_S by (auto simp: shutdownInLoop_def outcome_simps view_def)

lemma send_rest_keeps:
  assumes "view cur okd fd S w" shows "keeps (send_rest env cur flt rest w)"
proof -
  have "keeps (bindE (append_b rest (outputBuffer (cn v))) (\<lambda>out'.
      chan_do (enableWrite (os_ctl (os_of env)) b (ptr env)) (upd_conn (outputBuffer_update (\<lambda>_. out')) v)))"
    if "view cur okd fd S v" for v b
  proof (cases "append_b rest (outputBuffer (cn v))")
    case (Inr out')
    have "view cur okd fd S (upd_conn (outputBuffer_update (\<lambda>_. out')) v)" using that by (simp add: view_def upd_conn_def)
    then show ?thesis using Inr channel_keeps(2) by simp
  qed simp
  moreover have "view cur okd fd S (queue env cur (HighWaterMarkTask n) w)" for n using assms by (rule view_queue) simp
  ultimately show ?thesis
    using assms by (simp add: send_rest_def Let_def inLoop_def upd_conn_def del: outcome_Inl)
qed

lemma drained_keeps:
  assumes "view cur okd fd S w"
  shows "keeps (bindE (chan_do (disableWrite (os_ctl (os_of env)) inl (ptr env)) w) (\<lambda>w3.
     bindE (if state (cn w3) = kDisconnecting then shutdownInLoop env cur w3 else Inr w3) (\<lambda>w4.
     Inr (if writeCompleteCallback env \<noteq> None then queue env cur WriteCompleteTask w4 else w4))))"
proof -
  have last: "keeps (Inr (if writeCompleteCallback env \<noteq> None then queue env cur WriteCompleteTask v else v))"
    if "view cur okd fd S v" for v using that by (auto intro: view_queue)
  have mid: "keeps (if state (cn v) = kDisconnecting then shutdownInLoop env cur v else Inr v)" if "view cur okd fd S v" for v
    using that shutdownInLoop_keeps by simp
  show ?thesis by (rule keeps_bind [OF channel_keeps(4) [OF assms] keeps_bind [OF mid last]])
qed

lemma handleWrite_keeps:
  assumes "view cur okd fd S w" shows "keeps (handleWrite env cur w)"
proof -
  let ?out = "outputBuffer (cn w)"
  let ?data = "take (readableBytes ?out) (drop (peek ?out) (storage ?out))"
  let ?r = "os_write (os_of env) (sockfd (cn w)) ?data (kern w)"
  let ?w1 = "w\<lparr>kern := snd ?r\<rparr>"
  have err: "keeps (if e \<noteq> EAGAIN then (if e = EPIPE \<or> e = ECONNRESET then handleError env cur ?w1 else Inr ?w1) else Inr ?w1)"
    if "fst ?r = Inl e" for e
  proof -
    have "view cur okd fd S ?w1" using assms no_write_S that by (simp add: view_def)
    then show ?thesis using handleError_keeps by simp
  qed
  have ok: "keeps (bindE (retrieve n ?out) (\<lambda>out'.
      let w2 = upd_conn (outputBuffer_update (\<lambda>_. out')) (?w1\<lparr>sent := sent ?w1 @ take n ?data\<rparr>) in
      if readableBytes out' = 0 then
        bindE (chan_do (disableWrite (os_ctl (os_of env)) (inLoop cur w2) (ptr env)) w2) (\<lambda>w3.
        bindE (if state (cn w3) = kDisconnecting then shutdownInLoop env cur w3 else Inr w3) (\<lambda>w4.
        Inr (if writeCompleteCallback env \<noteq> None then queue env cur WriteCompleteTask w4 else w4)))
      else Inr w2))" if n: "fst ?r = Inr n" for n
  proof (cases "retrieve n ?out")
    case (Inr out')
    let ?w2 = "upd_conn (outputBuffer_update (\<lambda>_. out')) (?w1\<lparr>sent := sent ?w1 @ take n ?data\<rparr>)"
    have w2: "view cur okd fd S ?w2" using assms write_S [OF _ n] by (simp add: view_def upd_conn_def del: take_take)
    from drained_keeps [OF w2] show ?thesis using Inr w2 by (simp add: Let_def)
  qed simp
  show ?thesis
  proof (cases "fst ?r")
    case (Inl e)
    then show ?thesis using assms err [OF Inl] by (simp add: handleWrite_def outcome_simps Let_def)
  next
    case (Inr n)
    then show ?thesis using assms ok [OF Inr] by (simp add: handleWrite_def outcome_bindE outcome_assertE Let_def)
  qed
qed

text \<open>Sending keeps a view that holds with the data already counted as submitted.\<close>

lemma sendInLoop_keeps:
  assumes "state (cn w) = kDisconnected \<Longrightarrow> view cur okd fd S w" and after: "state (cn w) \<noteq> kDisconnected \<Longrightarrow> view cur okd fd S (w\<lparr>submitted := submitted w @ data\<rparr>)"
  shows "keeps (sendInLoop env cur data w)"
proof (cases "state (cn w) = kDisconnected")
  case True
  then show ?thesis using assms(1) by (simp add: sendInLoop_def outcome_simps)
next
  case live: False
  let ?w0 = "w\<lparr>submitted := submitted w @ data\<rparr>"
  let ?r = "os_write (os_of env) (sockfd (cn w)) data (kern w)"
  let ?w1 = "?w0\<lparr>kern := snd ?r\<rparr>"
  have w0: "view cur okd fd S ?w0" using after live by simp
  show ?thesis
  proof (cases "fst ?r")
    case (Inl e)
    have w1: "view cur okd fd S ?w1" using w0 no_write_S Inl by (simp add: view_def)
    have "keeps (bindE (handleClose env cur ?w1) (send_rest env cur True data))"
      by (rule keeps_bind [OF handleClose_keeps [OF w1] send_rest_keeps])
    then show ?thesis
      using live Inl send_rest_keeps [OF w0] send_rest_keeps [OF w1]
      by (simp add: sendInLoop_def outcome_bindE outcome_assertE Let_def)
  next
    case (Inr n)
    let ?w2 = "?w1\<lparr>sent := sent w @ take n data\<rparr>"
    have w2: "view cur okd fd S ?w2" using w0 write_S Inr by (simp add: view_def)
    define w3 where "w3 = (if length data - n = 0 \<and> writeCompleteCallback env \<noteq> None
      then queue env cur WriteCompleteTask ?w2 else ?w2)"
    have "view cur okd fd S w3" using w2 view_queue [OF w2, of WriteCompleteTask] unfolding w3_def by (simp del: take_all take_all_iff)
    moreover have "sendInLoop env cur data w = bindE (assertE (inLoop cur w)) (\<lambda>_.
        if isWriting (chan (cn w)) then send_rest env cur False data ?w0
        else bindE (assertE (readableBytes (outputBuffer (cn w)) = 0)) (\<lambda>_. send_rest env cur False (drop n data) w3))"
      using live Inr unfolding w3_def by (simp add: sendInLoop_def Let_def)
    ultimately show ?thesis
      using send_rest_keeps [OF w0] send_rest_keeps by (simp add: outcome_simps)
  qed
qed

lemma send_keeps:
  assumes "tid (evloop w) = cur" and "state (cn w) \<noteq> kConnected \<Longrightarrow> view cur okd fd S w"
    and "state (cn w) = kConnected \<Longrightarrow> view cur okd fd S (w\<lparr>submitted := submitted w @ d\<rparr>)"
  shows "keeps (send env cur d w)"
proof -
  have "inLoop cur w" using assms(1) by (simp add: inLoop_def isInLoopThread_def)
  then show ?thesis using assms sendInLoop_keeps [of w d] by (auto simp: send_def)
qed

end

text \<open>
  With reading: \<open>M\<close> holds between the arrival of data and the message callback, which restores \<open>S\<close>.
\<close>

locale conn_view = conn_flow env cur okd fd S
  for env :: "('k, 'e) env" and cur :: int and okd :: "byte list \<Rightarrow> bool" and fd :: int and S :: "'k stream_pred" +
  fixes M :: "'k stream_pred"
  assumes read_S: "S st s u i k \<Longrightarrow> st \<noteq> kDisconnected \<Longrightarrow> fst (os_readv (os_of env) f v k) = Inr bs \<Longrightarrow> bs \<noteq> [] \<Longrightarrow>
      M st s u (i @ bs) (snd (os_readv (os_of env) f v k))"
    and no_read_S: "S st s u i k \<Longrightarrow> fst (os_readv (os_of env) f v k) \<in> insert (Inr []) (range Inl) \<Longrightarrow>
      S st s u i (snd (os_readv (os_of env) f v k))"
    and send_S: "S st s u i k \<Longrightarrow> okd d \<Longrightarrow> S st s (u @ d) i k"
    and readv: "readv_ok (\<lambda>v. fst (os_readv (os_of env) f v k))"
    and message_S: "view cur okd fd M w \<Longrightarrow> call_opt (messageCallback env) w = Inr w' \<Longrightarrow> view cur okd fd S w'"
    and complete_S: "view cur okd fd S w \<Longrightarrow> call_opt (writeCompleteCallback env) w = Inr w' \<Longrightarrow> view cur okd fd S w'"
    and mark_S: "view cur okd fd S w \<Longrightarrow> call_opt (map_option (\<lambda>cb. cb n) (highWaterMarkCallback env)) w = Inr w' \<Longrightarrow> view cur okd fd S w'"
begin

lemma handleRead_keeps:
  assumes "view cur okd fd S w" shows "keeps (handleRead env cur w)"
proof (cases "state (cn w) = kDisconnected \<or> \<not> inLoop cur w")
  case True
  then show ?thesis using assms by (auto simp: handleRead_def outcome_simps)
next
  case live: False
  let ?b = "inputBuffer (cn w)" and ?fd = "sockfd (cn w)"
  let ?r = "os_readv (os_of env) ?fd (readFd_iov ?b) (kern w)"
  let ?rd = "\<lambda>iov. fst (os_readv (os_of env) ?fd iov (kern w))"
  let ?w1 = "\<lambda>b'. upd_conn (inputBuffer_update (\<lambda>_. b')) (w\<lparr>kern := snd ?r\<rparr>)"
  have binv: "buffer_inv ?b" using assms by (simp add: view_def)
  have run: "handleRead env cur w = bindE (readFd ?rd ?b) (\<lambda>(n, e, b').
      if n = - 1 then handleError env cur (?w1 b') else if n = 0 then handleClose env cur (?w1 b')
      else call_opt (messageCallback env) (?w1 b'))"
    using live by (simp add: handleRead_def Let_def)
  show ?thesis
  proof (cases "fst ?r")
    case (Inl e)
    then have "view cur okd fd S (?w1 ?b)" using assms no_read_S by (simp add: view_def upd_conn_def)
    then show ?thesis using run Inl handleError_keeps by (simp add: readFd_def)
  next
    case (Inr bs)
    then have "length bs \<le> sum_list (readFd_iov ?b)" using readv by (simp add: readv_ok_def)
    note rd = readFd_outcome [of ?b ?rd bs, OF binv Inr this]
    have after: "keeps (if n = - 1 then handleError env cur (?w1 b') else if n = 0 then handleClose env cur (?w1 b')
        else call_opt (messageCallback env) (?w1 b'))"
      if n: "n = int (length bs)" and b': "buffer_inv b'" "contents b' = contents ?b @ bs" for n b'
    proof (cases "bs = []")
      case True
      then have "view cur okd fd S (?w1 b')" using assms no_read_S Inr b' by (simp add: view_def upd_conn_def)
      then show ?thesis using True n handleClose_keeps by simp
    next
      case False
      then have "view cur okd fd M (?w1 b')" using assms read_S live Inr b' by (simp add: view_def upd_conn_def)
      then show ?thesis using False n message_S by (auto intro: keepsI)
    qed
    show ?thesis
      unfolding run outcome_bindE
      by (rule outcome_mono [OF rd]) (use after in \<open>auto split: prod.splits\<close>)
  qed
qed

lemma send_data_keeps: "view cur okd fd S w \<Longrightarrow> okd d \<Longrightarrow> keeps (sendInLoop env cur d w)"
  using send_S by (intro sendInLoop_keeps) (auto simp: view_def)

lemma forceCloseInLoop_keeps: "view cur okd fd S w \<Longrightarrow> keeps (forceCloseInLoop env cur w)"
  using handleClose_keeps by (simp add: forceCloseInLoop_def outcome_simps)

lemma read_switch_keeps:
  "view cur okd fd S w \<Longrightarrow> keeps (stopReadInLoop env cur w)" "view cur okd fd S w \<Longrightarrow> keeps (startReadInLoop env cur w)"
  using channel_keeps by (simp_all add: stopReadInLoop_def startReadInLoop_def)

lemma run_task_keeps:
  assumes "view cur okd fd S w" and "\<And>d. t = SendTask d \<Longrightarrow> okd d"
  shows "keeps (run_task env cur t w)"
proof (cases t)
  case WriteCompleteTask
  then show ?thesis using complete_S [OF assms(1)] by (simp add: keepsI)
next
  case (HighWaterMarkTask n)
  then show ?thesis
    using mark_S [OF assms(1), of n] assms(1)
    by (cases "highWaterMarkCallback env") (simp_all add: call_opt_def keepsI)
qed (use assms send_data_keeps shutdownInLoop_keeps forceCloseInLoop_keeps read_switch_keeps in simp_all)

lemma tasks_keep:
  assumes "view cur okd fd S w" shows "keeps (doPendingTasks cur evloop upd_loop (run_task env cur) w)"
proof (cases "isInLoopThread cur (evloop w)")
  case True
  show ?thesis
  proof (rule conn_loop.doPendingTasks_outcome)
    show "isInLoopThread cur (evloop w)" and "view cur okd fd S w" using True assms .
    show "view cur okd fd S v \<Longrightarrow> view cur okd fd S (upd_loop (doingPendingTasks_update f) v)" for v f
      by (simp add: view_def upd_loop_def)
    show "view cur okd fd S v \<Longrightarrow> view cur okd fd S (upd_loop (\<lambda>l. snd (take_batch l)) v)" for v
      by (simp add: view_def upd_loop_def take_batch_def)
    show "t \<in> set (pendingTasks (evloop w)) \<Longrightarrow> view cur okd fd S v \<Longrightarrow> keeps (run_task env cur t v)" for t v
      using assms by (intro run_task_keeps) (auto simp: view_def)
  qed
next
  case False
  then show ?thesis by (simp add: doPendingTasks_def assertInLoopThread_def outcome_simps)
qed

lemma call_keeps:
  assumes v: "view cur okd fd S w" and ok: "event_data_ok okd (Call c op)"
  shows "keeps (call_api env c op w)"
proof -
  have dis: "view cur okd fd S (set_state kDisconnecting w)" using v by (rule view_state) simp
  have thread: "inLoop c w \<longleftrightarrow> c = cur" using v by (auto simp: view_def inLoop_def isInLoopThread_def)
  then have thread': "inLoop c (set_state kDisconnecting w) \<longleftrightarrow> c = cur" by (simp add: world_defs)
  show ?thesis
  proof (cases op)
    case (Send d)
    then show ?thesis using v ok thread send_data_keeps by (auto simp: send_def intro: view_queue)
  next
    case Shutdown
    then show ?thesis
      using v dis thread' shutdownInLoop_keeps [OF dis]
      by (auto simp: shutdown_def stateAtomicGetAndSet_def outcome_simps Let_def intro: view_queue)
  next
    case ForceClose
    then show ?thesis
      using v dis thread' forceCloseInLoop_keeps [OF dis]
      by (auto simp: forceClose_def stateAtomicGetAndSet_def Let_def intro: view_queue)
  next
    case StopRead
    then show ?thesis
      using v thread read_switch_keeps
      by (auto simp: stopRead_def runInLoop_def inLoop_def queue_def [symmetric] intro: view_queue)
  next
    case StartRead
    then show ?thesis
      using v thread read_switch_keeps
      by (auto simp: startRead_def runInLoop_def inLoop_def queue_def [symmetric] intro: view_queue)
  qed
qed

lemma callback_keeps: "view cur okd fd S w \<Longrightarrow> keeps (conn_callback env cur c w)"
  by (cases c) (simp_all add: handleRead_keeps handleWrite_keeps handleClose_keeps handleError_keeps)

lemma dispatch_keeps:
  assumes "view cur okd fd S w" shows "keeps (conn_handleEvents env cur alive w)"
proof -
  have fire: "keeps (fire (\<lambda>w. chan (cn w)) (conn_callback env cur) cond c v)" if "view cur okd fd S v" for cond c v
    using that callback_keeps by (simp add: fire_def)
  have "keeps (handleEventWithGuard (\<lambda>w. chan (cn w)) upd_chan (conn_callback env cur) w)"
    unfolding handleEventWithGuard_def by (intro keeps_bind fire) (simp_all add: assms)
  then show ?thesis
    using assms by (simp add: conn_handleEvents_def handleEvents_def outcome_bindE outcome_assertE split: option.split)
qed

lemma run_event_keeps:
  assumes "view cur okd fd S w" and "event_data_ok okd ev"
  shows "keeps (run_event env cur alive ev w)"
proof (cases ev)
  case (Events r)
  then show ?thesis using assms(1) dispatch_keeps by simp
next
  case (Call c op)
  then show ?thesis using assms call_keeps by simp
qed (simp add: tasks_keep assms(1))

end

end
