(* ===== verification/Echo_Roundtrip.thy ===== *)
theory Echo_Roundtrip
  imports Conn_View
begin

text \<open>
  Two connections joined by a network: on one side the echo server of examples/server.cpp, on the
  other the interactive client of examples/client.cpp, whose message callback prints what arrives.
  The kernels keep the histories of what they accepted from \<open>write\<close> and delivered by \<open>readv\<close>; the
  network, TCP, is the condition that what one side was delivered is a prefix of what the other side
  had accepted. Both programs are shown to do the right thing with their data under every
  interleaving of events, tasks and calls (instances of the locale \<open>conn_view\<close>), and the two
  statements are composed with the integrity of the connections.
\<close>

section \<open>Kernels with histories\<close>




section \<open>The echo server\<close>



section \<open>The printing client\<close>







section \<open>The network\<close>





section \<open>Both programs keep their data in order\<close>














section \<open>The two programs together\<close>
































end
