(* ===== verification/Log_Demo.thy ===== *)
theory Log_Demo
  imports Logger
begin

text \<open>
  The program of examples/async_logging_demo.cpp: it switches asynchronous logging on, starts five
  threads that log a hundred messages each, waits for them, sleeps, logs a last message and switches
  asynchronous logging off. The threads, \<open>main\<close> and the background thread of the logger interleave; a
  call of \<open>INFO\<close> is one step, since the line is formatted from local data and appended under the
  mutex of the logger. The history of the calls of \<open>INFO\<close> is kept beside the logger.
\<close>

section \<open>The program\<close>


















section \<open>Invariant\<close>










section \<open>Every step keeps it\<close>








lemma setAsync_frame [simp]:
  "logLevel (setAsyncLogging b r f g) = logLevel g" "useAsyncLogging (setAsyncLogging b r f g)"
  "logLevel (disableAsyncLogging g) = logLevel g" "\<not> useAsyncLogging (disableAsyncLogging g)"
  by (simp_all add: setAsyncLogging_def disableAsyncLogging_def drop_async_def split: option.split)



section \<open>The demonstration ends and loses nothing\<close>









end
