(* ===== verification/Conn_Race.thy ===== *)
theory Conn_Race
  imports Tcp_Connection_Safety "HOL-Library.Multiset"
begin

text \<open>
  The calls of \<open>TcpConnection\<close> that other threads may make are not atomic: \<open>send\<close>, \<open>shutdown\<close> and
  \<open>forceClose\<close> load the state and act on it later, and the loop thread may close the connection in
  between. Here each call is split into its load and the rest, and any number of calls of other threads is
  under way. The only interleaving that goes wrong is an exchange that hits a connection closed after
  the load; without it the invariant of \<open>Tcp_Connection_Safety\<close> holds, with it the connection is
  reported closed a second time.
\<close>

section \<open>The calls in two parts\<close>

definition shutdown_exchange :: "('k, 'e) env \<Rightarrow> int \<Rightarrow> ('k, 'e) world \<Rightarrow> ('k, 'e) world result" where
  "shutdown_exchange env c w =
     (let (old, w1) = stateAtomicGetAndSet kDisconnecting w in
      if old = kConnected then
        (if inLoop c w1 then shutdownInLoop env c w1 else Inr (queue env c ShutdownTask w1))
      else Inr w1)"

definition forceClose_exchange :: "('k, 'e) env \<Rightarrow> int \<Rightarrow> ('k, 'e) world \<Rightarrow> ('k, 'e) world result" where
  "forceClose_exchange env c w =
     (let (old, w1) = stateAtomicGetAndSet kDisconnecting w in
      if old \<noteq> kDisconnected then
        (if inLoop c w1 then forceCloseInLoop env c w1 else Inr (queue env c ForceCloseTask w1))
      else Inr w1)"

text \<open>A call that has loaded the state and not yet acted.\<close>

datatype inflight = Sending "byte list" | Shutting | Forcing

fun load_ok :: "inflight \<Rightarrow> ('k, 'e) world \<Rightarrow> bool" where
  "load_ok (Sending d) w \<longleftrightarrow> state (cn w) = kConnected"
| "load_ok Shutting w \<longleftrightarrow> state (cn w) \<noteq> kDisconnected"
| "load_ok Forcing w \<longleftrightarrow> state (cn w) \<noteq> kDisconnected"

fun act :: "('k, 'e) env \<Rightarrow> int \<Rightarrow> inflight \<Rightarrow> ('k, 'e) world \<Rightarrow> ('k, 'e) world result" where
  "act env c (Sending d) w = Inr (queue env c (SendTask d) w)"
| "act env c Shutting w = shutdown_exchange env c w"
| "act env c Forcing w = forceClose_exchange env c w"

text \<open>The call that the two parts make up.\<close>

fun whole :: "('k, 'e) env \<Rightarrow> int \<Rightarrow> inflight \<Rightarrow> ('k, 'e) world \<Rightarrow> ('k, 'e) world result" where
  "whole env c (Sending d) w = send env c d w"
| "whole env c Shutting w = shutdown env c w"
| "whole env c Forcing w = forceClose env c w"

lemma split_call:
  assumes "load_ok f w" and "\<not> inLoop c w"
  shows "whole env c f w = act env c f w"
  using assms by (cases f) (simp_all add: send_def shutdown_def shutdown_exchange_def forceClose_def forceClose_exchange_def)

section \<open>Interleaved calls\<close>

definition late :: "inflight \<Rightarrow> ('k, 'e) world \<Rightarrow> bool" where
  "late f w \<longleftrightarrow> f \<in> {Shutting, Forcing} \<and> state (cn w) = kDisconnected"

inductive race_step ::
  "('k, 'e) env \<Rightarrow> int \<Rightarrow> (nat \<Rightarrow> bool) \<Rightarrow> ('k, 'e) world \<times> inflight multiset \<Rightarrow> ('k, 'e) world \<times> inflight multiset \<Rightarrow> bool"
  for env cur alive where
  race_loop: "conn_step env cur alive w w' \<Longrightarrow> race_step env cur alive (w, fs) (w', fs)"
| race_load: "load_ok f w \<Longrightarrow> (\<And>d. f = Sending d \<Longrightarrow> length d \<le> max_size) \<Longrightarrow>
    race_step env cur alive (w, fs) (w, add_mset f fs)"
| race_act: "c \<noteq> cur \<Longrightarrow> \<not> late f w \<Longrightarrow> act env c f w = Inr w' \<Longrightarrow> race_step env cur alive (w, add_mset f fs) (w', fs)"

context conn_client
begin

lemma act_inv:
  assumes "inv w" and "c \<noteq> cur" and "\<not> late f w" and "\<And>d. f = Sending d \<Longrightarrow> length d \<le> max_size"
  shows "\<exists>w'. act env c f w = Inr w' \<and> inv w'"
proof -
  have other: "\<not> inLoop c v" if "inv v" for v using that assms(2) inLoop_iff by simp
  have dis: "inv (set_state kDisconnecting w)" if "state (cn w) \<noteq> kDisconnected" using disconnecting_inv assms(1) that by blast
  show ?thesis
  proof (cases f)
    case (Sending d)
    then show ?thesis using assms(1,4) conn_inv_queue [OF assms(1), of "SendTask d" c] by simp
  next
    case Shutting
    then have "inv (set_state kDisconnecting w)" using assms(3) dis by (simp add: late_def)
    then show ?thesis
      using Shutting other conn_inv_queue [of interest env cur _ ShutdownTask c]
      by (simp add: shutdown_exchange_def stateAtomicGetAndSet_def)
  next
    case Forcing
    then have "inv (set_state kDisconnecting w)" using assms(3) dis by (simp add: late_def)
    then show ?thesis
      using Forcing other conn_inv_queue [of interest env cur _ ForceCloseTask c]
      by (simp add: forceClose_exchange_def stateAtomicGetAndSet_def)
  qed
qed

end

definition race_start ::
  "('k \<Rightarrow> int \<rightharpoonup> epoll_event) \<Rightarrow> ('k, 'e) env \<Rightarrow> int \<Rightarrow> ('k, 'e) world \<times> inflight multiset \<Rightarrow> bool" where
  "race_start interest env cur p \<longleftrightarrow> conn_start interest env cur (fst p) \<and> snd p = {#}"

definition race_inv ::
  "('k \<Rightarrow> int \<rightharpoonup> epoll_event) \<Rightarrow> ('k, 'e) env \<Rightarrow> int \<Rightarrow> ('k, 'e) world \<times> inflight multiset \<Rightarrow> bool" where
  "race_inv interest env cur p \<longleftrightarrow> conn_inv interest env cur (fst p) \<and> (\<forall>d. Sending d \<in># snd p \<longrightarrow> length d \<le> max_size)"

interpretation race_run: inductive_invariant "race_start interest env cur" "race_step env cur alive"
    "\<lambda>p. conn_client interest env cur \<longrightarrow> race_inv interest env cur p" for interest env cur alive
proof
  fix p
  assume "race_start interest env cur p"
  then show "conn_client interest env cur \<longrightarrow> race_inv interest env cur p"
    by (auto simp: race_start_def race_inv_def intro: conn_client.start_inv)
next
  fix p q
  assume inv: "conn_client interest env cur \<longrightarrow> race_inv interest env cur p" and "race_step env cur alive p q"
  from this(2) show "conn_client interest env cur \<longrightarrow> race_inv interest env cur q"
  proof cases
    case (race_loop w w' fs)
    then show ?thesis using inv conn_run.step_inv [of interest env cur w alive w'] by (auto simp: race_inv_def)
  next
    case (race_load f w fs)
    then show ?thesis using inv by (auto simp: race_inv_def)
  next
    case (race_act c f w w' fs)
    then show ?thesis using inv conn_client.act_inv [of interest env cur w c f] by (auto simp: race_inv_def)
  qed
qed

section \<open>Properties\<close>

text \<open>C6: The calls of other threads are safe at the granularity of the atomic variable. With any number of
  calls of \<open>send\<close>, \<open>shutdown\<close> and \<open>forceClose\<close> between their load of the state and the rest, in every reachable
  state in which no exchange hit a closed connection: the kernel accepted a prefix of what was submitted,
  an open connection holds the rest in its output buffer, the close callback ran at most once and did
  so exactly if the connection is closed; every call under way can be finished without a fault unless it is
  late, and every event of the loop keeps to \<open>std::length_error\<close> as the only way to stop.\<close>

theorem split_calls_safe:
  assumes "os_ok (os_of env) interest" and "hooks_ok interest env cur"
    and "reach (race_start interest env cur) (race_step env cur alive) (w, fs)"
  shows "prefix (sent w) (submitted w) \<and>
    (state (cn w) \<noteq> kDisconnected \<longrightarrow> sent w @ contents (outputBuffer (cn w)) = submitted w \<and> closeCalls w = 0) \<and>
    (state (cn w) = kDisconnected \<and> closeCallback env \<noteq> None \<longrightarrow> closeCalls w = 1) \<and>
    (\<forall>f c. f \<in># fs \<and> c \<noteq> cur \<and> \<not> late f w \<longrightarrow> (\<exists>w'. act env c f w = Inr w')) \<and>
    (\<forall>ev. enabled cur ev w \<longrightarrow> outcome {Length_error} (\<lambda>_. True) (run_event env cur alive ev w))"
proof -
  have client: "conn_client interest env cur" using assms(1,2) by (rule conn_client.intro)
  then have "race_inv interest env cur (w, fs)" using race_run.reachable_inv [OF assms(3)] by simp
  then have inv: "conn_inv interest env cur w" and len: "\<And>d. Sending d \<in># fs \<Longrightarrow> length d \<le> max_size"
    by (simp_all add: race_inv_def)
  have "\<exists>w'. act env c f w = Inr w'" if "f \<in># fs" "c \<noteq> cur" "\<not> late f w" for f c
    using conn_client.act_inv [OF client inv that(2,3)] len that(1) by blast
  moreover have "outcome {Length_error} (\<lambda>_. True) (run_event env cur alive ev w)" if "enabled cur ev w" for ev
    using conn_client.run_event_outcome [OF client inv that] by (rule outcome_weaken) simp
  moreover have "prefix (sent w) (submitted w) \<and>
    (state (cn w) \<noteq> kDisconnected \<longrightarrow> sent w @ contents (outputBuffer (cn w)) = submitted w \<and> closeCalls w = 0) \<and>
    (state (cn w) = kDisconnected \<and> closeCallback env \<noteq> None \<longrightarrow> closeCalls w = 1)"
    using inv by (auto simp: conn_inv_def conn_base_def live_def dead_def registered_def)
  ultimately show ?thesis by blast
qed

text \<open>Another thread has passed the load on the connection of the example.\<close>

lemma demo_load:
  assumes "f \<in> {Shutting, Forcing}"
  shows "reach (race_start (\<lambda>k. k) demo_env 1) (race_step demo_env 1 (\<lambda>_. True)) (demo_world, {#f#})"
proof (rule reach_step)
  show "reach (race_start (\<lambda>k. k) demo_env 1) (race_step demo_env 1 (\<lambda>_. True)) (demo_world, {#})"
    using demo_start by (intro reach_init) (simp add: race_start_def)
  show "race_step demo_env 1 (\<lambda>_. True) (demo_world, {#}) (demo_world, {#f#})"
    by (rule race_load) (use assms in \<open>auto simp: demo_world_def\<close>)
qed

theorem split_calls_safe_witness:
  "\<exists>w'. reach (race_start (\<lambda>k. k) demo_env 1) (race_step demo_env 1 (\<lambda>_. True)) (demo_world, {#Forcing#}) \<and>
     act demo_env 2 Forcing demo_world = Inr w' \<and> closeCalls demo_world = 0"
proof -
  note r = demo_load [of Forcing, simplified]
  have "\<not> late Forcing demo_world" by (simp add: late_def demo_world_def)
  then show ?thesis
    using split_calls_safe [OF echo_server.os echo_server.hooks r] r by (auto simp: demo_world_def)
qed

text \<open>A late exchange brings a closed connection back. Where the load of \<open>shutdown\<close> or \<open>forceClose\<close> came before
  the close and the exchange after it, the state of the closed connection becomes disconnecting; the
  next \<open>forceClose\<close> in the loop's thread then enters the close callback a second time, on a connection that its owner has
  already forgotten.\<close>

theorem late_exchange_reports_twice:
  assumes "os_ok (os_of env) interest" and "hooks_ok interest env cur"
    and "reach (race_start interest env cur) (race_step env cur alive) (w, fs)"
    and "late f w" and "closeCallback env = Some cb"
  shows "act env c f w = Inr (set_state kDisconnecting w) \<and>
    (\<exists>w2. forceClose env cur (set_state kDisconnecting w) = cb w2 \<and> closeCalls w = 1 \<and> closeCalls w2 = 2)"
proof -
  have client: "conn_client interest env cur" using assms(1,2) by (rule conn_client.intro)
  then have "conn_inv interest env cur w"
    using race_run.reachable_inv [OF assms(3)] by (simp add: race_inv_def)
  then have w: "state (cn w) = kDisconnected" "\<not> pooling (chan (cn w))" "closeCalls w = 1" "tid (evloop w) = cur"
    using assms(4,5) by (auto simp: late_def conn_inv_def conn_base_def dead_def)
  have "act env c f w = Inr (set_state kDisconnecting w)"
    using assms(4) w(1) by (auto simp: late_def shutdown_exchange_def forceClose_exchange_def stateAtomicGetAndSet_def)
  moreover have "\<exists>w2. forceClose env cur (set_state kDisconnecting w) = cb w2 \<and> closeCalls w2 = 2"
    using w assms(5)
    by (intro exI [of _ "w\<lparr>cn := (cn w)\<lparr>state := kDisconnected\<rparr>, closeCalls := 2\<rparr>"])
       (simp add: forceClose_def stateAtomicGetAndSet_def forceCloseInLoop_def handleClose_def chan_do_def removeChannel_def
         world_defs numeral_2_eq_2)
  ultimately show ?thesis using w(3) by blast
qed

theorem late_exchange_reports_twice_witness:
  "\<exists>w. late Shutting w \<and> act demo_env 2 Shutting w = Inr (set_state kDisconnecting w)"
proof -
  obtain w where w: "run_event demo_env 1 (\<lambda>_. True) (Call 1 ForceClose) demo_world = Inr w" "state (cn w) = kDisconnected"
    by (simp add: forceClose_def stateAtomicGetAndSet_def forceCloseInLoop_def handleClose_def chan_do_def
        removeChannel_def updateChannel_op_def world_defs demo_env_def echo_env_def demo_os_def demo_world_def Let_def)
  have "conn_step demo_env 1 (\<lambda>_. True) demo_world w" using w(1) by (rule conn_stepI [rotated]) simp
  then have r2: "reach (race_start (\<lambda>k. k) demo_env 1) (race_step demo_env 1 (\<lambda>_. True)) (w, {#Shutting#})"
    by (intro reach_step [OF demo_load race_loop]; simp)
  have l: "late Shutting w" using w(2) by (simp add: late_def)
  show ?thesis
    using late_exchange_reports_twice [OF echo_server.os echo_server.hooks r2 l] l by (auto simp: demo_env_def echo_env_def)
qed

end
