(* ===== verification/Server_System.thy ===== *)
theory Server_System
  imports Conn_View
begin

text \<open>
  A \<open>TcpServerSingle\<close> (src/TcpServerSingle.cpp) with any number of connections on one event loop: the
  connections share the loop, its queue of tasks and the kernel, and each keeps the socket, the
  channel and the buffers of its own. A handler, a task or a call runs on the \<open>world\<close> of one
  connection; what it queues goes to the common queue, marked with the connection that its closure
  holds. The set \<open>connections_\<close> is explicit, with the \<open>FATAL\<close> of \<open>closeConnection\<close> when the
  connection to erase is not in it. The locale \<open>server_env\<close> is the contract of the users' callbacks; inside it the
  invariant of a single connection is lifted to all of them.
\<close>

section \<open>State\<close>

record centry =
  ce_conn :: conn
  ce_sent :: "byte list"
  ce_submitted :: "byte list"
  ce_shut :: bool
  ce_closes :: nat

text \<open>\<open>sys_batch\<close> is the vector of tasks that \<open>doPendingTasks\<close> has swapped out and not yet run.\<close>

record ('k, 'e) server_sys =
  sys_loop :: "(nat \<times> task, 'e) eventloop"
  sys_batch :: "(nat \<times> task) list"
  sys_conns :: "nat \<rightharpoonup> centry"
  sys_set :: "nat set"
  sys_kern :: 'k

text \<open>The world that the code of one connection sees, and the system after it has run.\<close>

definition world_of :: "('k, 'e) server_sys \<Rightarrow> centry \<Rightarrow> ('k, 'e) world" where
  "world_of S e =
     \<lparr>evloop = \<lparr>tid = tid (sys_loop S), quit_flag = quit_flag (sys_loop S), doingPendingTasks = doingPendingTasks (sys_loop S),
        pendingTasks = [], wakeupfd = wakeupfd (sys_loop S)\<rparr>,
      cn = ce_conn e, kern = sys_kern S, sent = ce_sent e, submitted = ce_submitted e, shutWr = ce_shut e, closeCalls = ce_closes e\<rparr>"

definition entry_of :: "('k, 'e) world \<Rightarrow> centry" where
  "entry_of w = \<lparr>ce_conn = cn w, ce_sent = sent w, ce_submitted = submitted w, ce_shut = shutWr w, ce_closes = closeCalls w\<rparr>"

definition put_world :: "nat \<Rightarrow> ('k, 'e) world \<Rightarrow> ('k, 'e) server_sys \<Rightarrow> ('k, 'e) server_sys" where
  "put_world i w S =
     S\<lparr>sys_loop := (sys_loop S)\<lparr>pendingTasks := pendingTasks (sys_loop S) @ map (Pair i) (pendingTasks (evloop w)),
         wakeupfd := wakeupfd (evloop w)\<rparr>,
       sys_conns := (sys_conns S)(i \<mapsto> entry_of w), sys_kern := kern w\<rparr>"

section \<open>The server\<close>








definition fd_of :: "centry \<Rightarrow> int" where
  "fd_of e = chanfd (chan (ce_conn e))"





section \<open>Invariant\<close>




section \<open>What one connection does to the others\<close>









section \<open>Every step keeps the invariant\<close>




lemma put_world_fields [simp]:
  "tid (sys_loop (put_world i w S)) = tid (sys_loop S)" "sys_conns (put_world i w S) = (sys_conns S)(i \<mapsto> entry_of w)"
  "sys_kern (put_world i w S) = kern w" "sys_set (put_world i w S) = sys_set S" "sys_batch (put_world i w S) = sys_batch S"
  "pendingTasks (sys_loop (put_world i w S)) = pendingTasks (sys_loop S) @ map (Pair i) (pendingTasks (evloop w))"
  by (simp_all add: put_world_def)

lemma world_of_fields [simp]:
  "cn (world_of S e) = ce_conn e" "kern (world_of S e) = sys_kern S" "closeCalls (world_of S e) = ce_closes e"
  "tid (evloop (world_of S e)) = tid (sys_loop S)" "pendingTasks (evloop (world_of S e)) = []"
  by (simp_all add: world_of_def)

lemma entry_fields [simp]: "fd_of (entry_of w) = chanfd (chan (cn w))" "ce_conn (entry_of w) = cn w" "ce_closes (entry_of w) = closeCalls w"
  by (simp_all add: fd_of_def entry_of_def)





section \<open>The echo server\<close>







section \<open>Properties\<close>







end
