(* ===== verification/Signal_Quit.thy ===== *)
theory Signal_Quit
  imports Event_Loop
begin

text \<open>
  The signal handlers of examples/server.cpp and examples/benchmark_server.cpp: on SIGINT and SIGTERM
  they call \<open>quit()\<close> of the loop that \<open>main\<close> runs, in whatever thread the kernel picks. The
  transition system of \<open>Event_Loop\<close> is extended by the handler, by the point where the loop's thread is
  about to call \<open>epoll_wait\<close> or blocked in it, and by EINTR. \<open>quit()\<close> wakes the loop only when it is
  called from another thread: a signal that reaches the loop's thread is seen if it interrupts
  \<open>epoll_wait\<close>, the handling of events or the tasks, and is missed between the test of \<open>quit_\<close> and
  \<open>epoll_wait\<close>.
\<close>

section \<open>The handler\<close>

text \<open>\<open>g_loop\<close> is the pointer to the loop, \<open>cur\<close> the thread that was interrupted.\<close>

definition signalHandler :: "bool \<Rightarrow> 'k eventfd \<Rightarrow> int \<Rightarrow> ('t, 'k) eventloop \<Rightarrow> ('t, 'k) eventloop" where
  "signalHandler g_loop e cur l = (if g_loop then quit e cur l else l)"

text \<open>
  \<open>in_wait\<close>: the loop's thread is blocked in \<open>epoll_wait\<close>. \<open>caught\<close>: a handler has run at a moment other
  than before \<open>loop()\<close>, which clears the flag, or in the loop's thread between the test and \<open>epoll_wait\<close>.
  The two steps of \<open>quit()\<close> in a handler are one step here; calls of \<open>quit()\<close> by other threads are split,
  as in \<open>Event_Loop\<close>.
\<close>

record ('t, 'k) sigsys =
  base :: "('t, 'k) lsys"
  in_wait :: bool
  caught :: bool

definition handle_signal :: "'k eventfd \<Rightarrow> int \<Rightarrow> ('t, 'k) sigsys \<Rightarrow> ('t, 'k) sigsys" where
  "handle_signal e i s =
     s\<lparr>base := (base s)\<lparr>evl := signalHandler True e i (evl (base s))\<rparr>,
       caught := caught s \<or> pc (base s) \<noteq> BeforeLoop \<and> \<not> (i = tid (evl (base s)) \<and> pc (base s) = AtPoll \<and> \<not> in_wait s)\<rparr>"

text \<open>\<open>epoll_wait\<close> returns EINTR, which \<open>poll\<close> treats like no event.\<close>

definition interrupted_wait :: "('t, 'k) sigsys \<Rightarrow> ('t, 'k) sigsys" where
  "interrupted_wait s = s\<lparr>base := (base s)\<lparr>pc := Dispatching False\<rparr>, in_wait := False\<rparr>"

inductive sig_step :: "'k eventfd \<Rightarrow> ('t, 'k) sigsys \<Rightarrow> ('t, 'k) sigsys \<Rightarrow> bool" for e where
  sig_wait: "pc (base s) = AtPoll \<Longrightarrow> sig_step e s (s\<lparr>in_wait := True\<rparr>)"
| sig_run: "loop_step e (base s) b \<Longrightarrow> pc (base s) = AtPoll \<and> pc b \<noteq> AtPoll \<longrightarrow> in_wait s \<Longrightarrow>
    sig_step e s (s\<lparr>base := b, in_wait := in_wait s \<and> pc b = AtPoll\<rparr>)"
| sig_other: "i \<noteq> tid (evl (base s)) \<Longrightarrow> sig_step e s (handle_signal e i s)"
| sig_loop: "pc (base s) \<noteq> Stopped \<Longrightarrow>
    sig_step e s (if in_wait s then interrupted_wait (handle_signal e (tid (evl (base s))) s)
                  else handle_signal e (tid (evl (base s))) s)"

definition sig_init :: "'k eventfd \<Rightarrow> ('t, 'k) sigsys \<Rightarrow> bool" where
  "sig_init e s \<longleftrightarrow> lsys_init e (base s) \<and> \<not> in_wait s \<and> \<not> caught s"

section \<open>Invariant\<close>

definition sig_inv :: "'k eventfd \<Rightarrow> ('t, 'k) sigsys \<Rightarrow> bool" where
  "sig_inv e s \<longleftrightarrow>
     (in_wait s \<longrightarrow> pc (base s) = AtPoll) \<and>
     (caught s \<longrightarrow>
        quit_flag (evl (base s)) \<and> pc (base s) \<noteq> BeforeLoop \<and>
        (pc (base s) = AtPoll \<longrightarrow> efd_readable e (wakeupfd (evl (base s))) \<or> (\<exists>i. ext (base s) i = QuitSet)))"

lemma quit_fields:
  "quit_flag (quit e i l)" "tid (quit e i l) = tid l" "wakeupfd (quit e i l) = (if i = tid l then wakeupfd l else snd (efd_write e (wakeupfd l)))"
  by (auto simp: quit_def set_quit_def wakeup_def isInLoopThread_def Let_def)

lemma still_quitting: "g j = QuitSet \<Longrightarrow> g i \<noteq> QuitSet \<Longrightarrow> \<exists>j. j \<noteq> i \<and> g j = QuitSet"
  by metis

text \<open>A step of the loop keeps the request to quit, and at \<open>poll\<close> what makes it return.\<close>

lemma loop_step_quit:
  assumes "loop_step e s t" and ok: "eventfd_ok e" and "quit_flag (evl s)" and "pc s \<noteq> BeforeLoop"
    and "pc s = AtPoll \<longrightarrow> efd_readable e (wakeupfd (evl s)) \<or> (\<exists>i. ext s i = QuitSet)"
  shows "quit_flag (evl t) \<and> pc t \<noteq> BeforeLoop \<and>
    (pc t = AtPoll \<longrightarrow> efd_readable e (wakeupfd (evl t)) \<or> (\<exists>i. ext t i = QuitSet))"
  using assms
proof cases
  case (ext_push i t)
  then show ?thesis using assms still_quitting [of "ext s" _ i] by (auto simp: push_task_def)
next
  case (ext_wake i)
  then show ?thesis
    using assms still_quitting [of "ext s" _ i] by (auto simp: wake_check_def wakeup_def eventfd_ok_def)
qed (auto simp: wakeup_def set_quit_def queueInLoop_def quit_fields handleRead_loop_def take_batch_def eventfd_ok_def
    push_task_def wake_check_def)

interpretation sig_runs: inductive_invariant "sig_init e" "sig_step e" "\<lambda>s. eventfd_ok e \<longrightarrow> sig_inv e s" for e
proof
  fix s
  assume "sig_init e s"
  then show "eventfd_ok e \<longrightarrow> sig_inv e s" by (simp add: sig_init_def sig_inv_def)
next
  fix s t
  assume inv: "eventfd_ok e \<longrightarrow> sig_inv e s" and "sig_step e s t"
  from this(2) show "eventfd_ok e \<longrightarrow> sig_inv e t"
  proof cases
    case sig_wait
    then show ?thesis using inv by (simp add: sig_inv_def)
  next
    case (sig_run b)
    show ?thesis
    proof
      assume e: "eventfd_ok e"
      then show "sig_inv e t"
        using inv sig_run loop_step_quit [OF sig_run(2) e] by (auto simp: sig_inv_def)
    qed
  next
    case (sig_other i)
    then show ?thesis
      using inv by (auto simp: sig_inv_def handle_signal_def signalHandler_def quit_fields eventfd_ok_def)
  next
    case sig_loop
    then show ?thesis
      using inv by (auto simp: sig_inv_def handle_signal_def interrupted_wait_def signalHandler_def quit_fields)
  qed
qed

lemma caught_step: "sig_step e s t \<Longrightarrow> caught s \<Longrightarrow> caught t"
  by (induction rule: sig_step.induct) (auto simp: handle_signal_def interrupted_wait_def)

lemma caught_stays: "(sig_step e)\<^sup>*\<^sup>* s t \<Longrightarrow> caught s \<Longrightarrow> caught t"
  by (induction rule: rtranclp_induct) (auto dest: caught_step)

lemma poll_from_test: "loop_step e s t \<Longrightarrow> pc t = AtPoll \<Longrightarrow> pc s \<noteq> AtPoll \<Longrightarrow> \<not> quit_flag (evl s)"
  by (induction rule: loop_step.induct) auto

section \<open>Properties\<close>

text \<open>C12: A signal ends the loop. After a handler has run in another thread, or in the loop's thread while it
  handles events, runs tasks or is blocked in \<open>epoll_wait\<close>, the loop is asked to quit in every later
  state, whatever other threads, tasks and further signals do: it never starts another wait, and if it
  is still in one, the wake-up descriptor is readable or a call of \<open>quit\<close> is about to make it so.\<close>

theorem signal_ends_loop:
  assumes "eventfd_ok e" and "reach (sig_init e) (sig_step e) s" and "caught s" and "(sig_step e)\<^sup>*\<^sup>* s t"
  shows "quit_flag (evl (base t)) \<and>
    (pc (base t) = AtPoll \<longrightarrow> efd_readable e (wakeupfd (evl (base t))) \<or> (\<exists>i. ext (base t) i = QuitSet)) \<and>
    (\<forall>u. sig_step e t u \<and> pc (base t) \<noteq> AtPoll \<longrightarrow> pc (base u) \<noteq> AtPoll)"
proof -
  have "reach (sig_init e) (sig_step e) t" using assms(2,4) by (rule reach_rtranclp)
  then have "sig_inv e t" using sig_runs.reachable_inv assms(1) by blast
  then have q: "quit_flag (evl (base t))"
      "pc (base t) = AtPoll \<longrightarrow> efd_readable e (wakeupfd (evl (base t))) \<or> (\<exists>i. ext (base t) i = QuitSet)"
    using caught_stays [OF assms(4,3)] by (simp_all add: sig_inv_def)
  have "pc (base u) \<noteq> AtPoll" if "sig_step e t u" "pc (base t) \<noteq> AtPoll" for u
    using that poll_from_test q(1)
    by cases (auto simp: handle_signal_def interrupted_wait_def split: if_splits)
  then show ?thesis using q by blast
qed

text \<open>The state of a program whose loop has just tested the flag for the first time.\<close>

definition tested :: "('t, 'k) sigsys \<Rightarrow> ('t, 'k) sigsys" where
  "tested s = s\<lparr>base := (base s)\<lparr>evl := (evl (base s))\<lparr>quit_flag := False\<rparr>, pc := AtPoll\<rparr>, in_wait := False\<rparr>"

lemma reach_tested:
  assumes "sig_init e s"
  shows "(sig_step e)\<^sup>*\<^sup>* s (tested s)"
proof -
  let ?b = "(base s)\<lparr>evl := (evl (base s))\<lparr>quit_flag := False\<rparr>, pc := LoopTest\<rparr>"
  let ?m = "s\<lparr>base := ?b, in_wait := False\<rparr>"
  have "\<not> in_wait s" "pc (base s) = BeforeLoop" using assms by (simp_all add: sig_init_def lsys_init_def)
  then have "sig_step e s ?m"
    using sig_run [OF loop_step.enter [of "base s" e]] by simp
  moreover have "sig_step e ?m (tested s)"
    using sig_run [of e ?m, OF loop_step.test_go] \<open>\<not> in_wait s\<close> by (simp add: tested_def)
  ultimately show ?thesis by (meson converse_rtranclp_into_rtranclp rtranclp.rtrancl_refl)
qed

text \<open>A signal that reaches the loop's thread between the test of the flag and \<open>epoll_wait\<close> does not end the
  loop: \<open>quit()\<close> finds itself in the loop's thread and does not write to the wake-up descriptor, and
  \<open>epoll_wait\<close>, which has no time limit, starts afterwards. The flag is set, the loop waits, and nothing
  is about to wake it.\<close>

theorem signal_missed:
  assumes "sig_init e s"
  shows "\<exists>t. (sig_step e)\<^sup>*\<^sup>* s t \<and> quit_flag (evl (base t)) \<and> in_wait t \<and>
     \<not> efd_readable e (wakeupfd (evl (base t))) \<and> (\<forall>i. ext (base t) i = Idle)"
proof -
  let ?h = "handle_signal e (tid (evl (base s))) (tested s)"
  have "sig_step e (tested s) ?h"
    using sig_loop [of "tested s" e] assms by (simp add: tested_def sig_init_def)
  moreover have "sig_step e ?h (?h\<lparr>in_wait := True\<rparr>)"
    by (rule sig_wait) (simp add: handle_signal_def tested_def)
  ultimately have "(sig_step e)\<^sup>*\<^sup>* s (?h\<lparr>in_wait := True\<rparr>)"
    using reach_tested [OF assms] by (meson rtranclp.rtrancl_into_rtrancl)
  moreover have "quit_flag (evl (base ?h))" "\<not> efd_readable e (wakeupfd (evl (base ?h)))" "\<forall>i. ext (base ?h) i = Idle"
    using assms
    by (simp_all add: handle_signal_def signalHandler_def tested_def quit_fields sig_init_def lsys_init_def)
  ultimately show ?thesis by (intro exI [of _ "?h\<lparr>in_wait := True\<rparr>"]) simp
qed

definition idle_program :: "(nat, nat) sigsys" where
  "idle_program = \<lparr>base = idle_loop, in_wait = False, caught = False\<rparr>"

lemma idle_program_init: "sig_init counter_efd idle_program"
  by (simp add: sig_init_def idle_program_def idle_loop_init)

theorem signal_missed_witness:
  "\<exists>t. (sig_step counter_efd)\<^sup>*\<^sup>* idle_program t \<and> quit_flag (evl (base t)) \<and> in_wait t \<and>
     \<not> efd_readable counter_efd (wakeupfd (evl (base t)))"
  using signal_missed [OF idle_program_init] by blast

text \<open>The signal reaches thread 2 while the loop is at \<open>poll\<close>.\<close>

theorem signal_ends_loop_witness:
  "quit_flag (evl (base (handle_signal counter_efd 2 (tested idle_program)))) \<and>
   efd_readable counter_efd (wakeupfd (evl (base (handle_signal counter_efd 2 (tested idle_program)))))"
proof -
  let ?s = "handle_signal counter_efd 2 (tested idle_program)"
  have "sig_step counter_efd (tested idle_program) ?s"
    by (rule sig_other) (simp add: tested_def idle_program_def idle_loop_def)
  then have "(sig_step counter_efd)\<^sup>*\<^sup>* idle_program ?s"
    using reach_tested [OF idle_program_init] by (meson rtranclp.rtrancl_into_rtrancl)
  then have "reach (sig_init counter_efd) (sig_step counter_efd) ?s"
    using idle_program_init by (blast intro: reach_from)
  moreover have "caught ?s" "pc (base ?s) = AtPoll" "\<forall>i. ext (base ?s) i = Idle"
    by (simp_all add: handle_signal_def tested_def idle_program_def idle_loop_def)
  ultimately show ?thesis using signal_ends_loop [OF counter_efd_ok] by fastforce
qed

end
