(* ===== verification/Example_Programs.thy ===== *)
theory Example_Programs
  imports Tcp_Servers Tcp_Client Loop_Lifecycle Async_Logging
begin

text \<open>
  The \<open>main\<close> functions of examples/server.cpp, examples/benchmark_server.cpp and examples/client.cpp around
  their event loops: what they read from the command line, in which order they build the loop, the
  server or client and its parts, and in which order these are destroyed when \<open>main\<close> returns. The
  conversions \<open>std::stoi\<close> and \<open>std::stoul\<close> are modelled with their exceptions, which nothing catches.
\<close>

section \<open>The command line\<close>

text \<open>
  \<open>strtol\<close> and \<open>strtoul\<close> skip white space, read an optional sign and then digits; what follows the digits is
  ignored. \<open>None\<close>: there is no digit.
\<close>

definition is_space :: "char \<Rightarrow> bool" where
  "is_space c \<longleftrightarrow> of_char c = (32 :: nat) \<or> 9 \<le> (of_char c :: nat) \<and> (of_char c :: nat) \<le> 13"

definition is_digit :: "char \<Rightarrow> bool" where
  "is_digit c \<longleftrightarrow> 48 \<le> (of_char c :: nat) \<and> (of_char c :: nat) \<le> 57"

definition read_number :: "string \<Rightarrow> (bool \<times> nat) option" where
  "read_number s =
     (let t = dropWhile is_space s;
          neg = (t \<noteq> [] \<and> hd t = CHR ''-'');
          u = (if t \<noteq> [] \<and> (hd t = CHR ''-'' \<or> hd t = CHR ''+'') then tl t else t);
          ds = takeWhile is_digit u
      in if ds = [] then None else Some (neg, digits_val ds))"

definition stoi :: "string \<Rightarrow> int result" where
  "stoi s =
     (case read_number s of
        None \<Rightarrow> Inl Invalid_argument
      | Some (neg, n) \<Rightarrow>
          let v = (if neg then - int n else int n)
          in if - (2 ^ 31) \<le> v \<and> v < 2 ^ 31 then Inr v else Inl Out_of_range)"



text \<open>The arguments of the client: address and port of the server.\<close>

definition client_args :: "string list \<Rightarrow> (string \<times> 16 word) result" where
  "client_args argv =
     bindE (if 2 \<le> length argv then mapE word_of_int (stoi (argv ! 1)) else Inr 8888) (\<lambda>server_port.
     Inr (if 3 \<le> length argv then argv ! 2 else ''127.0.0.1'', server_port))"

section \<open>The servers\<close>

text \<open>
  What the system answers while a server is built: the descriptors of the poller, the wake-up, the timer and
  the listening socket, and the addresses of the loop and of the three channels.
\<close>

record answers =
  an_epoll :: int
  an_wake :: int
  an_timer :: int
  an_listen :: int
  an_loop :: nat
  an_wakeCh :: nat
  an_timerCh :: nat
  an_acceptCh :: nat

definition answers_ok :: "answers \<Rightarrow> bool" where
  "answers_ok an \<longleftrightarrow> distinct [an_epoll an, an_wake an, an_timer an, an_listen an] \<and>
     - 1 \<notin> {an_epoll an, an_wake an, an_timer an, an_listen an}"





section \<open>The client\<close>

text \<open>
  The task that starts the client runs at once, on a loop without timers. \<open>w\<close> is the state of the wake-up
  descriptor, \<open>p\<close> the address of the retry timer. The connection callback keeps the pointer it is given.
\<close>

definition client_begin ::
  "'k epoll_ctl \<Rightarrow> 'e eventfd \<Rightarrow> (nat \<Rightarrow> attempt) \<Rightarrow> 'e \<Rightarrow> int \<Rightarrow> nat \<Rightarrow> int \<Rightarrow> int \<Rightarrow> 'k client \<Rightarrow> ('e, 'k) clientsys result" where
  "client_begin ctl e net w now p cur owner c =
     start_client net ctl e cur now p (\<lambda>_. True)
       \<lparr>tloop = \<lparr>tid = owner, quit_flag = False, doingPendingTasks = False, pendingTasks = [], wakeupfd = w\<rparr>,
        theap = Map.empty, timers = [], armed = None, fired = [], usr = c\<rparr>"

text \<open>\<open>main\<close> of the client up to the call of \<open>loop()\<close>.\<close>

definition client_up ::
  "'k epoll_ctl \<Rightarrow> 'e eventfd \<Rightarrow> endian \<Rightarrow> answers \<Rightarrow> (nat \<Rightarrow> attempt) \<Rightarrow> 'e \<Rightarrow> int \<Rightarrow> nat \<Rightarrow> int \<Rightarrow> 'k \<Rightarrow> (int \<rightharpoonup> nat) \<Rightarrow> string list \<Rightarrow>
   ('k loopobj \<times> ('e, 'k) clientsys \<times> (int \<rightharpoonup> nat)) result" where
  "client_up ctl e host an net w now p cur k tls argv =
     bindE (client_args argv) (\<lambda>(server_ip, server_port).
     bindE (EventLoop_new ctl (an_epoll an \<noteq> - 1) (an_wake an) (an_timer an) (an_loop an) (an_wakeCh an) (an_timerCh an) cur k tls)
       (\<lambda>(l, tls').
     bindE (InetAddress_ip host server_ip server_port) (\<lambda>peer_addr.
     bindE (TcpClient_new net peer_addr (lo_kernel l)) (\<lambda>c.
     bindE (client_begin ctl e net w now p cur (owner_tid l) (setErrorCallback_client True c)) (\<lambda>s.
     Inr (l, s, tls'))))))"

section \<open>Lemmas\<close>

lemma digit_char_is_digit: "n < 10 \<Longrightarrow> is_digit (digit_char n)"
  by (simp add: is_digit_def digit_char_def)

lemma to_string_all_digits: "\<forall>c \<in> set (to_string n). is_digit c"
proof (induction n rule: to_string.induct)
  case (1 n)
  then show ?case by (cases "n < 10") (simp_all add: to_string.simps [of n] digit_char_is_digit)
qed

lemma to_string_nonempty: "to_string n \<noteq> []"
  by (simp add: to_string.simps [of n])

text \<open>The decimal text of a number is read back, whatever follows it.\<close>

lemma read_number_to_string: "r = [] \<or> \<not> is_digit (hd r) \<Longrightarrow> read_number (to_string n @ r) = Some (False, n)"
proof -
  assume r: "r = [] \<or> \<not> is_digit (hd r)"
  let ?t = "to_string n @ r"
  have h: "is_digit (hd ?t)" "?t \<noteq> []" using to_string_all_digits [of n] to_string_nonempty [of n] by (simp_all add: hd_append)
  then have "\<not> is_space (hd ?t)" "hd ?t \<noteq> CHR ''-''" "hd ?t \<noteq> CHR ''+''" by (auto simp: is_digit_def is_space_def)
  moreover from this h(2) have "dropWhile is_space ?t = ?t" by (cases ?t) auto
  moreover have "takeWhile is_digit ?t = to_string n" using r to_string_all_digits [of n] by (cases r) simp_all
  ultimately show ?thesis using to_string_nonempty [of n] by (simp add: read_number_def Let_def digits_val_to_string)
qed

lemma stoi_to_string: "n < 2 ^ 31 \<Longrightarrow> stoi (to_string n) = Inr (int n)"
  using read_number_to_string [of "[]" n] by (simp add: stoi_def)


lemma stoi_range: "stoi s = Inr v \<Longrightarrow> - (2 ^ 31) \<le> v \<and> v < 2 ^ 31"
  by (auto simp: stoi_def Let_def split: option.splits if_splits)








text \<open>What the end of \<open>main\<close> needs to know about the loop.\<close>

definition loop_ready :: "('k \<Rightarrow> int \<Rightarrow> epoll_event option) \<Rightarrow> answers \<Rightarrow> int \<Rightarrow> 'k loopobj \<Rightarrow> bool" where
  "loop_ready interest an cur l \<longleftrightarrow>
     owner_tid l = cur \<and> self_addr l = an_loop an \<and> wake_fd l = an_wake an \<and> timer_fd l = an_timer an \<and>
     wakeupChannel l = (setReadCallback True (Channel_new (an_wake an)))\<lparr>events := EPOLLIN OR EPOLLPRI, pooling := True\<rparr> \<and>
     \<not> handlingEvents (timerChannel l) \<and>
     interest (lo_kernel l) (an_wake an) = Some \<lparr>ev_events = EPOLLIN OR EPOLLPRI, ev_ptr = wake_addr l\<rparr>"

text \<open>Both programs make the same loop.\<close>

lemma loop_up:
  assumes "epoll_ctl_ok ctl interest" and "interest k = Map.empty" and "answers_ok an" and "tls cur = None"
  shows "\<exists>l. EventLoop_new ctl (an_epoll an \<noteq> - 1) (an_wake an) (an_timer an) (an_loop an) (an_wakeCh an) (an_timerCh an) cur k tls =
       Inr (l, tls(cur \<mapsto> an_loop an)) \<and>
     loop_ready interest an cur l \<and> dom (interest (lo_kernel l)) = {an_wake an, an_timer an}"
proof -
  have "an_epoll an \<noteq> - 1" "an_wake an \<noteq> - 1" "an_timer an \<noteq> - 1" "an_wake an \<noteq> an_timer an"
    using assms(3) by (auto simp: answers_ok_def)
  then show ?thesis
    using EventLoop_new_ok [OF assms(1,2), of "an_wake an" "an_timer an" "an_loop an" "an_wakeCh an" "an_timerCh an" cur] assms(4)
    by (auto simp: loop_ready_def setReadCallback_def Channel_new_def)
qed



lemma client_args_read_back:
  "client_args [prog, to_string (unat port), ip] = Inr (ip, port)"
proof -
  have "unat port < 2 ^ 31" by (rule less_le_trans [OF unsigned_less]) simp
  then show ?thesis by (simp add: client_args_def stoi_to_string mapE_def)
qed

section \<open>Properties\<close>



text \<open>C26: The client goes where the server says it is. Given the port and the address that \<open>toPort\<close> and \<open>toIp\<close>
  print for any IPv4 address, \<open>main\<close> of the client starts one attempt to connect to exactly that address,
  which the loop watches beside its wake-up and its timer, and sets the retry timer to three seconds;
  a text that is not an address ends the program.\<close>

theorem client_program:
  assumes "epoll_ctl_ok ctl interest" and "interest k = Map.empty" and "answers_ok an" and "tls cur = None"
    and "sin_family a = AF_INET" and "0 < p" and "at_connect (net 0) = Some EINPROGRESS"
    and "at_fd (net 0) \<notin> {- 1, an_wake an, an_timer an}"
  shows "\<exists>l s. client_up ctl e host an net w now p cur k tls [prog, to_string (unat (toPort host a)), toIp host a] =
       Inr (l, s, tls(cur \<mapsto> an_loop an)) \<and>
     cl_peer (usr s) = a \<and> con_peer (cl_connector (usr s)) = a \<and> waiting net s \<and> timers s = [(now + 3000000000, p)] \<and>
     dom (interest (cl_kernel (usr s))) = {an_wake an, an_timer an, at_fd (net 0)} \<and>
     (inet_pton ip = None \<longrightarrow>
        client_up ctl e host an net w now p cur k tls [prog, to_string (unat (toPort host a)), ip] = Inl Exit_failure)"
proof -
  obtain l where l: "EventLoop_new ctl (an_epoll an \<noteq> - 1) (an_wake an) (an_timer an) (an_loop an) (an_wakeCh an) (an_timerCh an) cur k tls =
       Inr (l, tls(cur \<mapsto> an_loop an))" "loop_ready interest an cur l" "dom (interest (lo_kernel l)) = {an_wake an, an_timer an}"
    using loop_up [of ctl interest k an tls cur] assms(1-4) by blast
  then have free: "interest (lo_kernel l) (at_fd (net 0)) = None" using assms(8) by (auto simp: domIff)
  obtain c where c: "TcpClient_new net a (lo_kernel l) = Inr c"
    using assms(8) by (simp add: TcpClient_new_def Connector_new_def createSocket_def)
  define q :: "('b, 'a) clientsys" where "q = \<lparr>tloop = \<lparr>tid = owner_tid l, quit_flag = False, doingPendingTasks = False, pendingTasks = [], wakeupfd = w\<rparr>,
     theap = Map.empty, timers = [], armed = None, fired = [], usr = setErrorCallback_client True c\<rparr>"
  obtain s where s: "start_client net ctl e cur now p (\<lambda>_. True) q = Inr s" "waiting net s" "timers s = [(now + 3000000000, p)]"
     "cl_peer (usr s) = a" "con_peer (cl_connector (usr s)) = a"
     "interest (cl_kernel (usr s)) = (interest (lo_kernel l))(at_fd (net 0) \<mapsto> \<lparr>ev_events = EPOLLOUT, ev_ptr = at_chan (net 0)\<rparr>)"
    using start_client_ok [OF assms(1) c, of q True cur p e now "\<lambda>_. True"] assms(6-8) free l(2)
    by (auto simp: q_def loop_ready_def)
  have "InetAddress_ip host (toIp host a) (toPort host a) = Inr a" using inet_address_roundtrip [OF assms(5), of host] by simp
  then have "client_up ctl e host an net w now p cur k tls [prog, to_string (unat (toPort host a)), toIp host a] =
      Inr (l, s, tls(cur \<mapsto> an_loop an))"
    using l(1) c s(1) by (simp add: client_up_def client_begin_def client_args_read_back q_def)
  moreover have "client_up ctl e host an net w now p cur k tls [prog, to_string (unat (toPort host a)), ip] = Inl Exit_failure"
    if "inet_pton ip = None"
    using that l(1) by (simp add: client_up_def client_args_read_back InetAddress_ip_def)
  moreover have "dom (interest (cl_kernel (usr s))) = {an_wake an, an_timer an, at_fd (net 0)}" using s(6) l(3) by auto
  ultimately show ?thesis using s(2-5) by (intro exI [of _ l] exI [of _ s]) blast
qed

definition demo_answers :: answers where
  "demo_answers = \<lparr>an_epoll = 3, an_wake = 11, an_timer = 4, an_listen = 6, an_loop = 1, an_wakeCh = 2, an_timerCh = 3, an_acceptCh = 4\<rparr>"

theorem client_program_witness:
  "\<exists>l s. client_up map_ctl counter_efd Little demo_answers (demo_net (Some EINPROGRESS)) 0 0 1 77 Map.empty Map.empty
       [''client'', to_string (unat (toPort Little (InetAddress_port Little 8888 True))), toIp Little (InetAddress_port Little 8888 True)] =
       Inr (l, s, [77 \<mapsto> an_loop demo_answers]) \<and> cl_peer (usr s) = InetAddress_port Little 8888 True"
proof -
  have hyps: "answers_ok demo_answers" "sin_family (InetAddress_port Little 8888 True) = AF_INET" "0 < (1 :: nat)"
    "at_connect (demo_net (Some EINPROGRESS) 0) = Some EINPROGRESS"
    "at_fd (demo_net (Some EINPROGRESS) 0) \<notin> {- 1, an_wake demo_answers, an_timer demo_answers}"
    by (simp_all add: answers_ok_def InetAddress_port_def demo_net_def demo_answers_def)
  show ?thesis
    using client_program [of map_ctl "\<lambda>m. m" Map.empty demo_answers Map.empty 77 "InetAddress_port Little 8888 True" 1
        "demo_net (Some EINPROGRESS)" counter_efd Little 0 0 "''client''" "[]", OF map_ctl_ok refl hyps(1) refl hyps(2-5)]
    by blast
qed

end
