(* ===== verification/Loop_Fanout.thy ===== *)
theory Loop_Fanout
  imports Tcp_Servers Event_Loop
begin

text \<open>
  The multi-threaded server with its loops running: the base loop's thread accepts connections and hands each
  to the next worker loop (\<open>TcpServer::newConnection\<close>, \<open>EventLoopThreadPool::getNextLoop\<close>), and every
  worker runs its loop while the threads interleave. Each worker is the transition system of
  \<open>Event_Loop\<close>, in which the base loop's thread is one of the other threads. Connections are numbered in the
  order in which they are accepted.
\<close>

section \<open>The system\<close>

text \<open>The tasks of a worker: the closure of \<open>newConnection\<close> for a connection, or anything else.\<close>

datatype 't server_job = NewConn nat | Other 't

fun conns_of :: "'t server_job list \<Rightarrow> nat list" where
  "conns_of [] = []"
| "conns_of (NewConn c # ts) = c # conns_of ts"
| "conns_of (Other t # ts) = conns_of ts"

text \<open>
  \<open>posting\<close> is the worker whose queue the base loop's thread has filled but which it has not woken yet: the
  two halves of \<open>queueInLoop\<close>.
\<close>

record ('t, 'k) fanout =
  fpool :: "nat lpool"
  floops :: "nat \<Rightarrow> ('t server_job, 'k) lsys"
  accepted :: nat
  posting :: "nat option"

text \<open>\<open>newConnection\<close> in thread \<open>b\<close>: the loop is chosen and the closure pushed into its queue.\<close>

definition post_connection :: "int \<Rightarrow> ('t, 'k) fanout \<Rightarrow> ('t, 'k) fanout result" where
  "post_connection b s =
     bindE (newConnection_server True (fpool s)) (\<lambda>(lp, p).
     case lp of
       None \<Rightarrow> Inl Null_deref
     | Some j \<Rightarrow>
         let t = NewConn (accepted s); l = floops s j in
         Inr (s\<lparr>fpool := p, accepted := Suc (accepted s), posting := Some j,
                floops := (floops s)(j := l\<lparr>evl := push_task t (evl l), ext := (ext l)(b := Pushed), qlog := qlog l @ [t]\<rparr>)\<rparr>))"

text \<open>The second half of \<open>queueInLoop\<close>.\<close>

definition wake_worker :: "'k eventfd \<Rightarrow> int \<Rightarrow> nat \<Rightarrow> ('t, 'k) fanout \<Rightarrow> ('t, 'k) fanout" where
  "wake_worker e b j s =
     (let l = floops s j in
      s\<lparr>posting := None, floops := (floops s)(j := l\<lparr>evl := wake_check e b (evl l), ext := (ext l)(b := Idle)\<rparr>)\<rparr>)"

text \<open>
  \<open>fan_work\<close>: a worker, or a thread other than the base loop's, makes any step of \<open>Event_Loop\<close>; only the base
  loop's thread queues new connections.
\<close>

inductive fan_step :: "'k eventfd \<Rightarrow> int \<Rightarrow> ('t, 'k) fanout \<Rightarrow> ('t, 'k) fanout \<Rightarrow> bool" for e b where
  fan_accept: "posting s = None \<Longrightarrow> post_connection b s = Inr s' \<Longrightarrow> fan_step e b s s'"
| fan_wake: "posting s = Some j \<Longrightarrow> fan_step e b s (wake_worker e b j s)"
| fan_work: "loop_step e (floops s j) l \<Longrightarrow> ext l b = ext (floops s j) b \<Longrightarrow> conns_of (qlog l) = conns_of (qlog (floops s j)) \<Longrightarrow>
    fan_step e b s (s\<lparr>floops := (floops s)(j := l)\<rparr>)"

text \<open>The server has been started with \<open>n\<close> workers, which the base loop's thread is none of.\<close>

definition fan_init :: "'k eventfd \<Rightarrow> int \<Rightarrow> nat \<Rightarrow> ('t, 'k) fanout \<Rightarrow> bool" where
  "fan_init e b n s \<longleftrightarrow>
     (\<exists>base p. EventLoopThreadPool_new (Some base) = Inr p \<and> start_pool True (\<lambda>i. i) (setThreadNum (int n) p) = Inr (fpool s)) \<and>
     (\<forall>j. lsys_init e (floops s j) \<and> tid (evl (floops s j)) \<noteq> b) \<and> accepted s = 0 \<and> posting s = None"

section \<open>Invariant\<close>

definition worker_ok :: "'k eventfd \<Rightarrow> int \<Rightarrow> nat \<Rightarrow> ('t, 'k) fanout \<Rightarrow> nat \<Rightarrow> bool" where
  "worker_ok e b n s j \<longleftrightarrow>
     loop_inv e (floops s j) \<and> tid (evl (floops s j)) \<noteq> b \<and>
     (ext (floops s j) b = (if posting s = Some j then Pushed else Idle)) \<and>
     (j < n \<longrightarrow> conns_of (qlog (floops s j)) = filter (\<lambda>c. c mod n = j) [0..<accepted s])"

definition fan_inv :: "'k eventfd \<Rightarrow> int \<Rightarrow> nat \<Rightarrow> ('t, 'k) fanout \<Rightarrow> bool" where
  "fan_inv e b n s \<longleftrightarrow>
     pool_started (fpool s) \<and> loops (fpool s) = [0..<n] \<and> next_idx (fpool s) = int (accepted s mod n) \<and>
     (\<forall>j. worker_ok e b n s j)"

lemma conns_of_append [simp]: "conns_of (xs @ ys) = conns_of xs @ conns_of ys"
  by (induction xs rule: conns_of.induct) simp_all

lemma loop_step_tid: "loop_step e s t \<Longrightarrow> tid (evl t) = tid (evl s)"
  by (induction rule: loop_step.induct) (simp_all add: take_batch_def)

text \<open>What the base loop's thread does to a worker are steps of \<open>Event_Loop\<close>.\<close>

lemma post_step:
  "tid (evl l) \<noteq> b \<Longrightarrow> ext l b = Idle \<Longrightarrow>
   loop_step e l (l\<lparr>evl := push_task t (evl l), ext := (ext l)(b := Pushed), qlog := qlog l @ [t]\<rparr>)"
  by (rule loop_step.ext_push) auto

lemma wake_step: "ext l b = Pushed \<Longrightarrow> loop_step e l (l\<lparr>evl := wake_check e b (evl l), ext := (ext l)(b := Idle)\<rparr>)"
  by (rule loop_step.ext_wake)

text \<open>The loop of the next connection, and the pool after it.\<close>

lemma post_connection_next:
  assumes "fan_inv e b n s" and "0 < n"
  shows "\<exists>p. newConnection_server True (fpool s) = Inr (Some (accepted s mod n), p) \<and> pool_started p \<and> loops p = [0..<n] \<and>
     next_idx p = int (Suc (accepted s) mod n)"
proof -
  have p: "pool_started (fpool s)" "loops (fpool s) = [0..<n]" "next_idx (fpool s) = int (accepted s mod n)"
    using assms(1) by (simp_all add: fan_inv_def)
  obtain p' where p': "getNextLoop True (fpool s) = Inr (Some (loops (fpool s) ! nat (next_idx (fpool s))), p')" "pool_started p'"
      "loops p' = loops (fpool s)" "next_idx p' = (next_idx (fpool s) + 1) mod int (length (loops (fpool s)))"
    using getNextLoop_ok [of "fpool s"] p assms(2) by auto
  have "(int (accepted s mod n) + 1) mod int n = int (Suc (accepted s) mod n)"
    by (metis mod_Suc_eq of_nat_Suc of_nat_mod add.commute)
  then show ?thesis using p' p assms(2) by (simp add: newConnection_server_def)
qed

lemma post_connection_result:
  assumes "fan_inv e b n s" and "0 < n" and "post_connection b s = Inr s'"
  obtains p where "pool_started p" "loops p = [0..<n]" "next_idx p = int (Suc (accepted s) mod n)"
    "s' = (let j = accepted s mod n; l = floops s j; t = NewConn (accepted s) in
       s\<lparr>fpool := p, accepted := Suc (accepted s), posting := Some j,
         floops := (floops s)(j := l\<lparr>evl := push_task t (evl l), ext := (ext l)(b := Pushed), qlog := qlog l @ [t]\<rparr>)\<rparr>)"
  using post_connection_next [OF assms(1,2)] assms(3) by (auto simp: post_connection_def Let_def)

lemma fan_init_inv:
  assumes "fan_init e b n s"
  shows "fan_inv e b n s"
proof -
  have "\<exists>base. \<lparr>baseLoop = Some base, numThreads = int n, next_idx = 0, pool_started = True, loops = [0..<n]\<rparr> = fpool s"
    using assms by (auto simp: fan_init_def EventLoopThreadPool_new_def start_pool_def setThreadNum_def result_iffs)
  then have "pool_started (fpool s) \<and> loops (fpool s) = [0..<n] \<and> next_idx (fpool s) = 0"
    by (metis lpool.select_convs(3-5))
  then show ?thesis
    using assms by (auto simp: fan_init_def fan_inv_def worker_ok_def loop_inv_init) (auto simp: lsys_init_def)
qed

lemma fan_accept_inv:
  assumes inv: "fan_inv e b n s" and n: "0 < n" and e: "eventfd_ok e" and idle: "posting s = None" and run: "post_connection b s = Inr s'"
  shows "fan_inv e b n s'"
proof -
  define j where "j = accepted s mod n"
  let ?t = "NewConn (accepted s)"
  let ?l = "(floops s j)\<lparr>evl := push_task ?t (evl (floops s j)), ext := (ext (floops s j))(b := Pushed), qlog := qlog (floops s j) @ [?t]\<rparr>"
  obtain p where p: "pool_started p" "loops p = [0..<n]" "next_idx p = int (Suc (accepted s) mod n)"
      "s' = s\<lparr>fpool := p, accepted := Suc (accepted s), posting := Some j, floops := (floops s)(j := ?l)\<rparr>"
    using post_connection_result [OF inv n run] unfolding Let_def j_def by metis
  have ok: "worker_ok e b n s i" for i using inv by (simp add: fan_inv_def)
  have step: "loop_step e (floops s j) ?l" using ok [of j] idle by (intro post_step) (auto simp: worker_ok_def)
  have "worker_ok e b n s' i" for i
  proof (cases "i = j")
    case True
    then show ?thesis
      using ok [of j] loop_inv_step [OF e _ step] loop_step_tid [OF step] p(4) by (auto simp: worker_ok_def j_def)
  next
    case False
    then show ?thesis using ok [of i] idle p(4) by (auto simp: worker_ok_def j_def)
  qed
  then show ?thesis using p by (simp add: fan_inv_def)
qed

lemma fan_step_inv:
  assumes inv: "fan_inv e b n s" and n: "0 < n" and e: "eventfd_ok e" and "fan_step e b s s'"
  shows "fan_inv e b n s'"
  using assms(4)
proof cases
  case fan_accept
  then show ?thesis by (rule fan_accept_inv [OF inv n e])
next
  case (fan_wake j)
  have ok: "worker_ok e b n s i" for i using inv by (simp add: fan_inv_def)
  let ?l = "(floops s j)\<lparr>evl := wake_check e b (evl (floops s j)), ext := (ext (floops s j))(b := Idle)\<rparr>"
  have step: "loop_step e (floops s j) ?l" using ok [of j] fan_wake by (intro wake_step) (auto simp: worker_ok_def)
  have "worker_ok e b n s' i" for i
    using ok [of i] loop_inv_step [OF e _ step] loop_step_tid [OF step] fan_wake
    by (cases "i = j") (auto simp: worker_ok_def wake_worker_def Let_def)
  then show ?thesis using inv fan_wake by (simp add: fan_inv_def wake_worker_def Let_def)
next
  case (fan_work j l)
  have "worker_ok e b n s' i" for i
    using inv loop_inv_step [OF e _ fan_work(2)] loop_step_tid [OF fan_work(2)] fan_work
    by (cases "i = j") (auto simp: worker_ok_def fan_inv_def)
  then show ?thesis using inv fan_work by (simp add: fan_inv_def)
qed

interpretation fan_run: inductive_invariant "fan_init e b n" "fan_step e b"
    "\<lambda>s. eventfd_ok e \<and> 0 < n \<longrightarrow> fan_inv e b n s" for e b n
  by unfold_locales (auto intro: fan_init_inv fan_step_inv)

section \<open>Properties\<close>

text \<open>C11: The multi-threaded server hands every connection to exactly one worker, in turn and in order. Under every
  interleaving of the accepting thread, the workers and other threads, worker \<open>j\<close> of \<open>n\<close> has run, is running or
  has pending exactly the connections whose number is \<open>j\<close> modulo \<open>n\<close>, in the order in which they were
  accepted; and when it is about to wait with something pending and no thread is in the middle
  of waking it, the wait returns at once and one pass runs all of them.\<close>

theorem connections_dealt:
  assumes "eventfd_ok e" and "reach (fan_init e b n) (fan_step e b) s" and "j < n" and "w = floops s j"
  shows "conns_of (executed w @ batch w @ pendingTasks (evl w)) = filter (\<lambda>c. c mod n = j) [0..<accepted s] \<and>
    (pc w = AtPoll \<and> pendingTasks (evl w) \<noteq> [] \<and> (\<forall>i. ext w i \<noteq> Pushed) \<and> \<not> early w \<longrightarrow>
       efd_readable e (wakeupfd (evl w)) \<and>
       (\<exists>t. (loop_step e)\<^sup>*\<^sup>* w t \<and> pc t = LoopTest \<and> pendingTasks (evl t) = [] \<and>
            conns_of (executed t) = filter (\<lambda>c. c mod n = j) [0..<accepted s]))"
proof -
  have "fan_inv e b n s" using fan_run.reachable_inv [OF assms(2)] assms(1,3) by simp
  then have inv: "loop_inv e w" and dealt: "conns_of (qlog w) = filter (\<lambda>c. c mod n = j) [0..<accepted s]"
    using assms(3,4) by (auto simp: fan_inv_def worker_ok_def)
  have log: "qlog w = executed w @ batch w @ pendingTasks (evl w)" using inv by (simp add: loop_inv_def)
  have "efd_readable e (wakeupfd (evl w)) \<and> (\<exists>t. (loop_step e)\<^sup>*\<^sup>* w t \<and> pc t = LoopTest \<and> pendingTasks (evl t) = [] \<and> executed t = qlog w)"
    if at: "pc w = AtPoll" "pendingTasks (evl w) \<noteq> []" "\<forall>i. ext w i \<noteq> Pushed" "\<not> early w"
  proof -
    have rd: "efd_readable e (wakeupfd (evl w))" and "batch w = []" using inv at by (auto simp: loop_inv_def)
    then show ?thesis using one_pass [OF at(1) rd] log by auto
  qed
  then show ?thesis using dealt log by metis
qed

text \<open>Two workers, and the first connection.\<close>

definition two_workers :: "(nat, nat) fanout" where
  "two_workers = \<lparr>fpool = \<lparr>baseLoop = Some 9, numThreads = 2, next_idx = 0, pool_started = True, loops = [0, 1]\<rparr>,
     floops = (\<lambda>j. \<lparr>evl = \<lparr>tid = int j + 1, quit_flag = False, doingPendingTasks = False, pendingTasks = [], wakeupfd = 0\<rparr>,
       pc = BeforeLoop, batch = [], ext = (\<lambda>_. Idle), executed = [], qlog = [], early = False, quits = 0\<rparr>),
     accepted = 0, posting = None\<rparr>"

lemma two_workers_init: "fan_init counter_efd (- 1) 2 two_workers"
proof -
  have "[0..<2] = [0, 1 :: nat]" by (simp add: upt_rec)
  then show ?thesis
    by (auto simp: fan_init_def two_workers_def lsys_init_def counter_efd_def EventLoopThreadPool_new_def start_pool_def
        setThreadNum_def intro!: exI [of _ 9])
qed

theorem connections_dealt_witness:
  "\<exists>s. post_connection (- 1) two_workers = Inr s \<and> conns_of (pendingTasks (evl (floops s 0))) = [0] \<and>
     conns_of (pendingTasks (evl (floops s 1))) = []"
proof -
  obtain s where s: "post_connection (- 1) two_workers = Inr s" "accepted s = 1"
      "\<forall>j. executed (floops s j) = [] \<and> batch (floops s j) = []"
    by (auto simp: post_connection_def newConnection_server_def getNextLoop_def two_workers_def Let_def)
  have "fan_step counter_efd (- 1) two_workers s" using s(1) by (intro fan_accept) (simp_all add: two_workers_def)
  then have r: "reach (fan_init counter_efd (- 1) 2) (fan_step counter_efd (- 1)) s"
    using reach_init [of "fan_init counter_efd (- 1) 2"] two_workers_init by (blast intro: reach_step)
  have "conns_of (pendingTasks (evl (floops s 0))) = filter (\<lambda>c. c mod 2 = 0) [0..<accepted s]"
    "conns_of (pendingTasks (evl (floops s 1))) = filter (\<lambda>c. c mod 2 = 1) [0..<accepted s]"
    using connections_dealt [OF counter_efd_ok r _ refl, of 0] connections_dealt [OF counter_efd_ok r _ refl, of 1] s(3) by simp_all
  then show ?thesis using s(1,2) by simp
qed

end
